(* ===== verification/Prelude.thy ===== *)
theory Prelude
  imports Complex_Main "HOL-Library.List_Lexorder" "HOL-Library.Char_ord"
begin

text \<open>
  What the components share: the fragment of the JavaScript standard library the control plane
  uses (strings, numbers, arrays), results of handlers that may throw, and the generic list lemmas
  the component proofs rest on.

  A JavaScript string is a HOL string whose characters are the UTF-16 code units below 256
  (Latin-1); \<open>js_trim\<close> and \<open>js_lower\<close> agree with \<open>trim\<close> and \<open>toLowerCase\<close> on all
  of these. A JavaScript number is an \<open>int\<close> where the code validates or writes integers only,
  a \<open>rat\<close> where it computes with quotients, and a \<open>js_number\<close> where an unvalidated report
  may carry a non-finite value.
\<close>

named_theorems model_defs \<open>definitions of the model that proofs unfold together\<close>
named_theorems res_simps \<open>inversion of results\<close>

section \<open>Results\<close>

text \<open>
  A Convex function either throws, which rolls its whole transaction back, or returns. A thrown
  error is a \<open>ConvexError\<close> with a message, a refusal of the controller lease with its code,
  a plain \<open>Error\<close>, or the error \<open>unique()\<close> raises when a query matches several documents.
\<close>

datatype refusal = Lease | Unauthorized | Forbidden

datatype js_error =
    ConvexError string
  | Refused refusal string
  | PlainError string
  | NotUnique

type_synonym 'a res = "js_error + 'a"

definition res_bind :: "'a res \<Rightarrow> ('a \<Rightarrow> 'b res) \<Rightarrow> 'b res" where
  "res_bind m f = (case m of Inl e \<Rightarrow> Inl e | Inr x \<Rightarrow> f x)"

definition throw_if :: "bool \<Rightarrow> js_error \<Rightarrow> 'a res \<Rightarrow> 'a res" where
  "throw_if b e m = (if b then Inl e else m)"

lemma res_bind_simps [simp]:
  "res_bind (Inl e) f = Inl e"
  "res_bind (Inr x) f = f x"
  by (simp_all add: res_bind_def)

lemma res_bind_Inr [res_simps]:
  "res_bind m f = Inr y \<longleftrightarrow> (\<exists>x. m = Inr x \<and> f x = Inr y)"
  by (cases m) auto

lemma res_bind_InrE:
  assumes "res_bind m f = Inr y"
  obtains x where "m = Inr x" "f x = Inr y"
  using assms by (auto simp: res_bind_Inr)

lemma res_bind_Inl [res_simps]:
  "res_bind m f = Inl e \<longleftrightarrow> m = Inl e \<or> (\<exists>x. m = Inr x \<and> f x = Inl e)"
  by (cases m) auto

lemma throw_if_Inr [res_simps]:
  "throw_if b e m = Inr y \<longleftrightarrow> \<not> b \<and> m = Inr y"
  by (simp add: throw_if_def)

lemma throw_if_Inl [res_simps]:
  "throw_if b e m = Inl e' \<longleftrightarrow> (b \<and> e' = e) \<or> (\<not> b \<and> m = Inl e')"
  by (auto simp: throw_if_def)

lemma throw_if_InrE:
  assumes "throw_if b e m = Inr y"
  obtains "\<not> b" "m = Inr y"
  using assms by (auto simp: throw_if_Inr)

lemmas handlerE = res_bind_InrE throw_if_InrE

lemma throw_if_simps [simp]:
  "throw_if True e m = Inl e"
  "throw_if False e m = m"
  by (simp_all add: throw_if_def)

text \<open>A fallible function on every element, in order.\<close>

fun res_map :: "('a \<Rightarrow> 'b res) \<Rightarrow> 'a list \<Rightarrow> 'b list res" where
  "res_map f [] = Inr []"
| "res_map f (x # xs) = res_bind (f x) (\<lambda>y. res_bind (res_map f xs) (\<lambda>ys. Inr (y # ys)))"

text \<open>A loop whose body may throw, over a state.\<close>

fun res_fold :: "('a \<Rightarrow> 's \<Rightarrow> 's res) \<Rightarrow> 'a list \<Rightarrow> 's \<Rightarrow> 's res" where
  "res_fold f [] s = Inr s"
| "res_fold f (x # xs) s = res_bind (f x s) (res_fold f xs)"

lemma res_fold_invariant:
  assumes "res_fold f xs s = Inr s'" "I s"
    and "\<And>x s s'. x \<in> set xs \<Longrightarrow> I s \<Longrightarrow> f x s = Inr s' \<Longrightarrow> I s'"
  shows "I s'"
  using assms
proof (induction xs arbitrary: s)
  case (Cons x xs)
  then obtain s1 where s1: "f x s = Inr s1" "res_fold f xs s1 = Inr s'" by (auto simp: res_simps)
  then show ?case using Cons.IH [of s1] Cons.prems by auto
qed simp

lemma res_fold_total:
  assumes "I s" and "\<And>x s. x \<in> set xs \<Longrightarrow> I s \<Longrightarrow> \<exists>s'. f x s = Inr s' \<and> I s'"
  shows "\<exists>s'. res_fold f xs s = Inr s' \<and> I s'"
  using assms
proof (induction xs arbitrary: s)
  case (Cons x xs)
  obtain s1 where "f x s = Inr s1" "I s1" using Cons.prems(2) [of x s] Cons.prems(1) by auto
  moreover have "\<exists>s'. res_fold f xs s1 = Inr s' \<and> I s'"
    by (rule Cons.IH [OF \<open>I s1\<close>], rule Cons.prems(2)) simp_all
  ultimately show ?case by simp
qed simp

section \<open>Undefined\<close>

text \<open>An optional value is an \<open>option\<close>; \<open>or_else x d\<close> is \<open>x ?? d\<close>.\<close>

fun or_else :: "'a option \<Rightarrow> 'a \<Rightarrow> 'a" where
  "or_else None d = d"
| "or_else (Some x) d = x"

lemma find_SomeD: "List.find P xs = Some x \<Longrightarrow> x \<in> set xs \<and> P x"
  by (induction xs) (auto split: if_splits)

section \<open>Numbers\<close>

text \<open>
  A number of an unvalidated report. \<open>num_val\<close> is read only where the code has already refused
  the values that are not finite.
\<close>

datatype js_number = Num rat | NaN | PosInf | NegInf

fun num_val :: "js_number \<Rightarrow> rat" where
  "num_val (Num x) = x"
| "num_val _ = 0"

fun is_finite :: "js_number \<Rightarrow> bool" where
  "is_finite (Num x) = True"
| "is_finite _ = False"

fun is_integer :: "js_number \<Rightarrow> bool" where
  "is_integer (Num x) \<longleftrightarrow> of_int \<lfloor>x\<rfloor> = x"
| "is_integer _ = False"

definition is_safe_integer :: "js_number \<Rightarrow> bool" where
  "is_safe_integer n \<longleftrightarrow> is_integer n \<and> \<bar>num_val n\<bar> \<le> 2 ^ 53 - 1"

definition int_val :: "js_number \<Rightarrow> int" where
  "int_val n = \<lfloor>num_val n\<rfloor>"

definition js_int :: "int \<Rightarrow> js_number" where
  "js_int i = Num (of_int i)"

text \<open>\<open>Math.round\<close> rounds halves up.\<close>

definition js_round :: "rat \<Rightarrow> int" where
  "js_round x = \<lfloor>x + 1 / 2\<rfloor>"

text \<open>\<open>Math.floor\<close>, \<open>Math.max\<close>, \<open>Math.min\<close> and \<open>+\<close>, where a report's value may not be finite.\<close>

fun js_floor :: "js_number \<Rightarrow> js_number" where
  "js_floor (Num x) = js_int \<lfloor>x\<rfloor>"
| "js_floor n = n"

fun js_le :: "js_number \<Rightarrow> js_number \<Rightarrow> bool" where
  "js_le NaN n = False"
| "js_le m NaN = False"
| "js_le NegInf n = True"
| "js_le m PosInf = True"
| "js_le (Num x) (Num y) = (x \<le> y)"
| "js_le m n = False"

definition js_max :: "js_number \<Rightarrow> js_number \<Rightarrow> js_number" where
  "js_max m n = (if m = NaN \<or> n = NaN then NaN else if js_le m n then n else m)"

definition js_min :: "js_number \<Rightarrow> js_number \<Rightarrow> js_number" where
  "js_min m n = (if m = NaN \<or> n = NaN then NaN else if js_le m n then m else n)"

fun js_add :: "js_number \<Rightarrow> js_number \<Rightarrow> js_number" where
  "js_add (Num x) (Num y) = Num (x + y)"
| "js_add NaN n = NaN"
| "js_add m NaN = NaN"
| "js_add PosInf NegInf = NaN"
| "js_add NegInf PosInf = NaN"
| "js_add PosInf n = PosInf"
| "js_add n PosInf = PosInf"
| "js_add NegInf n = NegInf"
| "js_add n NegInf = NegInf"

lemma js_int_simps [simp]:
  "is_integer (js_int i)" "int_val (js_int i) = i" "num_val (js_int i) = of_int i"
  by (simp_all add: js_int_def int_val_def)

section \<open>Strings\<close>

abbreviation code_of :: "char \<Rightarrow> nat" where
  "code_of c \<equiv> of_char c"

text \<open>White space of \<open>trim\<close> and of the class \<open>\s\<close>, below 256.\<close>

definition js_space :: "char \<Rightarrow> bool" where
  "js_space c \<longleftrightarrow> code_of c \<in> {9, 10, 11, 12, 13, 32, 160}"

definition js_trim :: "string \<Rightarrow> string" where
  "js_trim s = rev (dropWhile js_space (rev (dropWhile js_space s)))"

definition lower_char :: "char \<Rightarrow> char" where
  "lower_char c =
     (let n = code_of c in
      if 65 \<le> n \<and> n \<le> 90 \<or> 192 \<le> n \<and> n \<le> 222 \<and> n \<noteq> 215 then char_of (n + 32) else c)"

definition js_lower :: "string \<Rightarrow> string" where
  "js_lower s = map lower_char s"

fun js_split :: "char \<Rightarrow> string \<Rightarrow> string list" where
  "js_split sep [] = [[]]"
| "js_split sep (c # cs) =
     (if c = sep then [] # js_split sep cs
      else (case js_split sep cs of [] \<Rightarrow> [[c]] | p # ps \<Rightarrow> (c # p) # ps))"

fun js_join :: "string \<Rightarrow> string list \<Rightarrow> string" where
  "js_join sep [] = []"
| "js_join sep [x] = x"
| "js_join sep (x # y # xs) = x @ sep @ js_join sep (y # xs)"

definition is_digit :: "char \<Rightarrow> bool" where
  "is_digit c \<longleftrightarrow> 48 \<le> code_of c \<and> code_of c \<le> 57"

definition is_lower_letter :: "char \<Rightarrow> bool" where
  "is_lower_letter c \<longleftrightarrow> 97 \<le> code_of c \<and> code_of c \<le> 122"

definition digit_char :: "nat \<Rightarrow> char" where
  "digit_char d = char_of (48 + d)"

definition digit_val :: "char \<Rightarrow> nat" where
  "digit_val c = code_of c - 48"

text \<open>\<open>String(n)\<close> of a non-negative integer, and \<open>Number(s)\<close> of a string of digits.\<close>

fun show_nat :: "nat \<Rightarrow> string" where
  "show_nat n = (if n < 10 then [digit_char n] else show_nat (n div 10) @ [digit_char (n mod 10)])"

declare show_nat.simps [simp del]

definition show_int :: "int \<Rightarrow> string" where
  "show_int i = (if i < 0 then CHR ''-'' # show_nat (nat (- i)) else show_nat (nat i))"

definition read_nat :: "string \<Rightarrow> nat" where
  "read_nat s = foldl (\<lambda>n c. 10 * n + digit_val c) 0 s"

text \<open>\<open>[...new Set(xs)].toSorted()\<close>: the default order compares code units.\<close>

definition sortedUnique :: "string list \<Rightarrow> string list" where
  "sortedUnique xs = sort (remdups xs)"

lemma js_trim_Nil [simp]: "js_trim [] = []"
  by (simp add: js_trim_def)

lemma dropWhile_rev_idem: "dropWhile P (dropWhile P xs) = dropWhile P xs"
  by (induction xs) auto

lemma dropWhile_fixed: "xs = [] \<or> \<not> P (hd xs) \<Longrightarrow> dropWhile P xs = xs"
  by (cases xs) auto

lemma dropWhile_hd: "dropWhile P xs \<noteq> [] \<Longrightarrow> \<not> P (hd (dropWhile P xs))"
  by (simp add: hd_dropWhile)

text \<open>A string both of whose ends are not white space is its own trim.\<close>

lemma js_trim_fixed:
  assumes "s = [] \<or> (\<not> js_space (hd s) \<and> \<not> js_space (last s))"
  shows "js_trim s = s"
proof -
  have "dropWhile js_space s = s"
    using assms by (intro dropWhile_fixed) auto
  moreover have "dropWhile js_space (rev s) = rev s"
    using assms by (intro dropWhile_fixed) (auto simp: hd_rev)
  ultimately show ?thesis by (simp add: js_trim_def)
qed

lemma dropWhile_rev_last:
  assumes "dropWhile P xs \<noteq> []" "xs \<noteq> []" "\<not> P (last xs)"
  shows "last (dropWhile P xs) = last xs"
  using assms by (induction xs) (auto split: if_splits)

lemma js_trim_ends:
  assumes "js_trim s \<noteq> []"
  shows "\<not> js_space (hd (js_trim s)) \<and> \<not> js_space (last (js_trim s))"
proof -
  let ?t = "dropWhile js_space s"
  let ?u = "dropWhile js_space (rev ?t)"
  from assms have u: "?u \<noteq> []" by (simp add: js_trim_def)
  then have t: "?t \<noteq> []" by (metis dropWhile.simps(1) rev.simps(1))
  have last_ok: "\<not> js_space (last (js_trim s))"
    using u by (simp add: js_trim_def last_rev dropWhile_hd)
  have "\<not> js_space (hd ?t)" using t by (rule dropWhile_hd)
  then have "\<not> js_space (last (rev ?t))" using t by (simp add: last_rev)
  then have "last ?u = last (rev ?t)"
    using u t by (intro dropWhile_rev_last) auto
  then have "hd (js_trim s) = hd ?t"
    using t u by (simp add: js_trim_def hd_rev last_rev)
  then show ?thesis using last_ok \<open>\<not> js_space (hd ?t)\<close> by simp
qed

lemma js_trim_idem [simp]: "js_trim (js_trim s) = js_trim s"
  by (rule js_trim_fixed) (use js_trim_ends in blast)

lemma code_of_bound: "code_of c < 256"
  by (metis mod_less_divisor of_char_mod_256 zero_less_numeral)

lemma code_of_lower:
  "code_of (lower_char c) =
     (let n = code_of c in
      if 65 \<le> n \<and> n \<le> 90 \<or> 192 \<le> n \<and> n \<le> 222 \<and> n \<noteq> 215 then n + 32 else n)"
proof -
  have "(n + 32) mod 256 = n + 32" if "n \<le> 222" for n :: nat using that by simp
  then show ?thesis
    by (auto simp: lower_char_def Let_def of_char_of)
qed

lemma lower_char_idem [simp]: "lower_char (lower_char c) = lower_char c"
proof -
  have "\<not> (65 \<le> code_of (lower_char c) \<and> code_of (lower_char c) \<le> 90 \<or>
           192 \<le> code_of (lower_char c) \<and> code_of (lower_char c) \<le> 222 \<and>
           code_of (lower_char c) \<noteq> 215)"
    by (auto simp: code_of_lower Let_def)
  then show ?thesis unfolding lower_char_def [of "lower_char c"] Let_def by (rule if_not_P)
qed

lemma js_lower_idem [simp]: "js_lower (js_lower s) = js_lower s"
  by (simp add: js_lower_def)

lemma js_lower_Nil [simp]: "js_lower [] = []"
  by (simp add: js_lower_def)

lemma js_split_nonempty [simp]: "js_split sep s \<noteq> []"
  by (cases s) (auto split: list.splits)

lemma js_split_no_sep: "sep \<notin> set s \<Longrightarrow> js_split sep s = [s]"
  by (induction s) auto

lemma js_split_append_sep:
  "sep \<notin> set p \<Longrightarrow> js_split sep (p @ sep # s) = p # js_split sep s"
  by (induction p) auto

lemma js_split_parts_no_sep: "p \<in> set (js_split sep s) \<Longrightarrow> sep \<notin> set p"
  by (induction s arbitrary: p) (auto split: if_splits list.splits)

text \<open>Splitting on a separator none of the parts contains undoes the join.\<close>

lemma js_split_join:
  "xs \<noteq> [] \<Longrightarrow> (\<And>x. x \<in> set xs \<Longrightarrow> sep \<notin> set x) \<Longrightarrow> js_split sep (js_join [sep] xs) = xs"
proof (induction "[sep]" xs rule: js_join.induct)
  case (3 x y xs)
  then show ?case by (simp add: js_split_append_sep)
qed (auto simp: js_split_no_sep)

lemma js_join_split: "js_join [sep] (js_split sep s) = s"
proof (induction s)
  case (Cons c cs)
  then show ?case
    by (cases "js_split sep cs"; cases "tl (js_split sep cs)") auto
qed simp

lemma digit_val_char [simp]: "d < 10 \<Longrightarrow> digit_val (digit_char d) = d"
  by (simp add: digit_val_def digit_char_def of_char_of)

lemma is_digit_digit_char [simp]: "d < 10 \<Longrightarrow> is_digit (digit_char d)"
  by (simp add: is_digit_def digit_char_def of_char_of)

lemma show_nat_digits: "c \<in> set (show_nat n) \<Longrightarrow> is_digit c"
proof (induction n rule: show_nat.induct)
  case (1 n)
  then show ?case
    by (subst (asm) show_nat.simps) (auto split: if_splits)
qed

lemma show_nat_nonempty [simp]: "show_nat n \<noteq> []"
  by (subst show_nat.simps) simp

lemma read_nat_snoc: "read_nat (s @ [c]) = 10 * read_nat s + digit_val c"
  by (simp add: read_nat_def)

lemma read_show_nat [simp]: "read_nat (show_nat n) = n"
proof (induction n rule: show_nat.induct)
  case (1 n)
  show ?case
  proof (cases "n < 10")
    case True
    then show ?thesis by (simp add: show_nat.simps [of n] read_nat_def)
  next
    case False
    with "1.IH" have "read_nat (show_nat n) = 10 * (n div 10) + n mod 10"
      by (simp add: show_nat.simps [of n] read_nat_snoc)
    then show ?thesis by simp
  qed
qed

lemma show_nat_no_leading_zero:
  "hd (show_nat n) = CHR ''0'' \<longleftrightarrow> n = 0"
proof (induction n rule: show_nat.induct)
  case (1 n)
  show ?case
  proof (cases "n < 10")
    case True
    have "digit_char n = CHR ''0'' \<longleftrightarrow> n = 0"
    proof
      assume "digit_char n = CHR ''0''"
      then have "digit_val (digit_char n) = digit_val (CHR ''0'')" by simp
      moreover have "digit_val (CHR ''0'') = 0" by (simp add: digit_val_def)
      ultimately show "n = 0" using True by simp
    next
      assume "n = 0"
      then show "digit_char n = CHR ''0''"
        by (intro of_char_eqI [where ?'a = nat]) (simp add: digit_char_def)
    qed
    with True show ?thesis by (simp add: show_nat.simps [of n])
  next
    case False
    with "1.IH" show ?thesis by (simp add: show_nat.simps [of n])
  qed
qed

lemma length_show_nat_3: "n < 1000 \<Longrightarrow> length (show_nat n) \<le> 3"
proof -
  assume n: "n < 1000"
  have a: "length (show_nat k) = 1" if "k < 10" for k
    using that by (simp add: show_nat.simps [of k])
  have b: "length (show_nat k) \<le> 2" if "k < 100" for k
    using a [of "k div 10"] that by (subst show_nat.simps) auto
  have "n div 10 < 100" using n by simp
  then show ?thesis using b [of "n div 10"] by (subst show_nat.simps) auto
qed

lemma set_sortedUnique [simp]: "set (sortedUnique xs) = set xs"
  by (simp add: sortedUnique_def)

lemma sorted_sortedUnique [simp]: "sorted (sortedUnique xs)"
  by (simp add: sortedUnique_def)

lemma distinct_sortedUnique [simp]: "distinct (sortedUnique xs)"
  by (simp add: sortedUnique_def)

lemma sortedUnique_fixed: "sorted xs \<Longrightarrow> distinct xs \<Longrightarrow> sortedUnique xs = xs"
  by (simp add: sortedUnique_def sort_key_id_if_sorted distinct_remdups_id)

lemma sortedUnique_idem [simp]: "sortedUnique (sortedUnique xs) = sortedUnique xs"
  by (rule sortedUnique_fixed) simp_all

section \<open>Payloads\<close>

text \<open>
  A parsed JSON payload. The fields of an object are listed in the order of \<open>Object.keys\<close>, each
  name once; \<open>map_of\<close> reads a field.
\<close>

datatype json = JNull | JBool bool | JNum js_number | JStr string | JArr "json list"
  | JObj "(string \<times> json) list"

fun is_JStr :: "json \<Rightarrow> bool" where
  "is_JStr (JStr s) = True"
| "is_JStr _ = False"

fun json_str :: "json \<Rightarrow> string" where
  "json_str (JStr s) = s"
| "json_str _ = []"

lemma json_str_comp [simp]: "map (json_str \<circ> JStr) xs = xs" "list_all (is_JStr \<circ> JStr) xs"
  by (induction xs) auto

section \<open>\<open>toSorted\<close> with a comparator\<close>

text \<open>
  A comparator answers a number whose sign orders its arguments. \<open>toSorted\<close> is stable; on a
  consistent comparator, the contract \<open>comparator\<close>, its result is the one stable sorted
  permutation, which insertion from the right computes.
\<close>

fun js_insort :: "('a \<Rightarrow> 'a \<Rightarrow> int) \<Rightarrow> 'a \<Rightarrow> 'a list \<Rightarrow> 'a list" where
  "js_insort cmp x [] = [x]"
| "js_insort cmp x (y # ys) = (if cmp x y \<le> 0 then x # y # ys else y # js_insort cmp x ys)"

definition js_sort :: "('a \<Rightarrow> 'a \<Rightarrow> int) \<Rightarrow> 'a list \<Rightarrow> 'a list" where
  "js_sort cmp xs = foldr (js_insort cmp) xs []"

lemma set_js_insort [simp]: "set (js_insort cmp x xs) = insert x (set xs)"
  by (induction xs) auto

lemma js_sort_simps [simp]:
  "js_sort cmp [] = []"
  "js_sort cmp (x # xs) = js_insort cmp x (js_sort cmp xs)"
  by (simp_all add: js_sort_def)

lemma set_js_sort [simp]: "set (js_sort cmp xs) = set xs"
  by (induction xs) auto

lemma length_js_insort [simp]: "length (js_insort cmp x xs) = Suc (length xs)"
  by (induction xs) auto

lemma length_js_sort [simp]: "length (js_sort cmp xs) = length xs"
  by (induction xs) auto

lemma distinct_js_insort: "distinct (x # xs) \<Longrightarrow> distinct (js_insort cmp x xs)"
  by (induction xs) auto

lemma distinct_js_sort: "distinct xs \<Longrightarrow> distinct (js_sort cmp xs)"
  by (induction xs) (auto intro!: distinct_js_insort)

lemma filter_js_insort:
  "filter P (js_insort cmp x xs) = (if P x then filter P (js_insort cmp x xs) else filter P xs)"
  by (induction xs) auto

locale comparator =
  fixes cmp :: "'a \<Rightarrow> 'a \<Rightarrow> int"
  assumes cmp_total: "cmp x y \<le> 0 \<or> cmp y x \<le> 0"
    and cmp_trans: "cmp x y \<le> 0 \<Longrightarrow> cmp y z \<le> 0 \<Longrightarrow> cmp x z \<le> 0"
begin

lemma sorted_js_insort:
  "sorted_wrt (\<lambda>x y. cmp x y \<le> 0) xs \<Longrightarrow> sorted_wrt (\<lambda>x y. cmp x y \<le> 0) (js_insort cmp x xs)"
proof (induction xs)
  case (Cons y ys)
  show ?case
  proof (cases "cmp x y \<le> 0")
    case True
    with Cons.prems show ?thesis by (auto intro: cmp_trans)
  next
    case False
    then have "cmp y x \<le> 0" using cmp_total by blast
    with False Cons show ?thesis by auto
  qed
qed simp

lemma sorted_js_sort: "sorted_wrt (\<lambda>x y. cmp x y \<le> 0) (js_sort cmp xs)"
  by (induction xs) (auto intro: sorted_js_insort)

text \<open>The first element of the sorted array is a least one.\<close>

lemma js_sort_head:
  assumes "js_sort cmp xs = y # ys"
  shows "y \<in> set xs" and "x \<in> set xs \<Longrightarrow> cmp y x \<le> 0"
proof -
  have set: "set xs = set (y # ys)" using set_js_sort [of cmp xs] assms by simp
  then show "y \<in> set xs" by simp
  have "sorted_wrt (\<lambda>x y. cmp x y \<le> 0) (y # ys)" using sorted_js_sort [of xs] assms by simp
  then show "cmp y x \<le> 0" if "x \<in> set xs" using that set cmp_total [of x x] by auto
qed

end

text \<open>Comparing by the difference of an integer key.\<close>

interpretation key_cmp: comparator "\<lambda>x y :: 'a. (key x :: int) - key y" for key
  by unfold_locales auto

text \<open>A comparator of strings: the order of their code units.\<close>

definition string_cmp :: "string \<Rightarrow> string \<Rightarrow> int" where
  "string_cmp x y = (if x < y then - 1 else if x = y then 0 else 1)"

interpretation string_cmp: comparator string_cmp
  by standard (auto simp: string_cmp_def split: if_splits)

end
