(* ===== verification/HostLabels.thy ===== *)
theory HostLabels
  imports Prelude
begin

text \<open>
  Host labels (\<open>packages/backend/convex/hostLabels.ts\<close>): the words an operator puts on a Worker
  and the set of them a Profile pins its Attempts to. A payload entry that is not a string is
  \<open>NotAString\<close>. The lemmas show that what is stored is canonical and that the pin check is the
  inclusion of label sets.
\<close>

datatype payload_entry = AString string | NotAString

definition host_label_start :: "char \<Rightarrow> bool" where
  "host_label_start c \<longleftrightarrow> is_lower_letter c \<or> is_digit c"

definition host_label_char :: "char \<Rightarrow> bool" where
  "host_label_char c \<longleftrightarrow> host_label_start c \<or> c \<in> set ''._-''"

definition HOST_LABEL :: "string \<Rightarrow> bool" where
  "HOST_LABEL s = (case s of [] \<Rightarrow> False
     | c # cs \<Rightarrow> host_label_start c \<and> list_all host_label_char cs \<and> length cs \<le> 62)"

definition MAX_HOST_LABELS :: nat where
  "MAX_HOST_LABELS = 16"

definition json_escape :: "char \<Rightarrow> string" where
  "json_escape c =
     (let n = code_of c;
          hex = (\<lambda>d. if d < 10 then digit_char d else char_of (87 + d :: nat)) in
      if n = 34 then [char_of (92 :: nat), c] else if n = 92 then [c, c]
      else if n = 8 then [char_of (92 :: nat), CHR ''b''] else if n = 9 then [char_of (92 :: nat), CHR ''t'']
      else if n = 10 then [char_of (92 :: nat), CHR ''n''] else if n = 12 then [char_of (92 :: nat), CHR ''f'']
      else if n = 13 then [char_of (92 :: nat), CHR ''r'']
      else if n < 32 then char_of (92 :: nat) # ''u00'' @ [hex (n div 16), hex (n mod 16)]
      else [c])"

definition json_string :: "string \<Rightarrow> string" where
  "json_string s = char_of (34 :: nat) # concat (map json_escape s) @ [char_of (34 :: nat)]"

fun normalize_loop :: "payload_entry list \<Rightarrow> string list \<Rightarrow> string + string list" where
  "normalize_loop [] labels = Inr labels"
| "normalize_loop (NotAString # _) labels = Inl ''host labels must be strings''"
| "normalize_loop (AString value # raw) labels =
     (let label = js_lower (js_trim value) in
      if \<not> HOST_LABEL label then
        Inl (json_string value @ '' is not a host label: lowercase letters, digits, '' @
             [char_of (39 :: nat)] @ ''.'' @ [char_of (39 :: nat)] @ '', '' @
             [char_of (39 :: nat)] @ ''_'' @ [char_of (39 :: nat)] @ '' and '' @
             [char_of (39 :: nat)] @ ''-'' @ [char_of (39 :: nat)] @
             '', starting with a letter or digit, at most 63 characters'')
      else normalize_loop raw (if label \<in> set labels then labels else labels @ [label]))"

definition normalizeHostLabels :: "payload_entry list \<Rightarrow> string + string list" where
  "normalizeHostLabels raw =
     (case normalize_loop raw [] of
        Inl e \<Rightarrow> Inl e
      | Inr labels \<Rightarrow>
          if length labels > MAX_HOST_LABELS
          then Inl (''at most '' @ show_nat MAX_HOST_LABELS @ '' host labels'')
          else Inr (sort labels))"

definition missingHostLabels :: "string list option \<Rightarrow> string list option \<Rightarrow> string list" where
  "missingHostLabels required carried =
     (case required of
        None \<Rightarrow> []
      | Some req \<Rightarrow>
          if req = [] then []
          else (let have = map (\<lambda>label. js_lower (js_trim label)) (or_else carried [])
                in filter (\<lambda>label. js_lower label \<notin> set have) req))"

definition carriesHostLabels :: "string list option \<Rightarrow> string list option \<Rightarrow> bool" where
  "carriesHostLabels required carried \<longleftrightarrow> length (missingHostLabels required carried) = 0"

definition missingHostLabelsDetail :: "string list \<Rightarrow> string" where
  "missingHostLabelsDetail missing =
     (let noun = (if length missing = 1 then ''host label'' else ''host labels'') in
      ''this Worker lacks the '' @ noun @ '' '' @ js_join '', '' missing @ '' the Profile is pinned to'')"

definition pinDetail :: "string list option \<Rightarrow> string list option \<Rightarrow> string option" where
  "pinDetail required carried =
     (let missing = missingHostLabels required carried in
      if length missing = 0 then None else Some (missingHostLabelsDetail missing))"

section \<open>Canonical labels\<close>

lemma HOST_LABEL_chars: "HOST_LABEL s \<Longrightarrow> c \<in> set s \<Longrightarrow> host_label_char c"
  by (auto simp: HOST_LABEL_def host_label_char_def list_all_iff split: list.splits)

lemma host_label_char_lower: "host_label_char c \<Longrightarrow> lower_char c = c"
  by (auto simp: host_label_char_def host_label_start_def is_lower_letter_def is_digit_def
      lower_char_def Let_def)

lemma host_label_char_space: "host_label_char c \<Longrightarrow> \<not> js_space c"
  by (auto simp: host_label_char_def host_label_start_def is_lower_letter_def is_digit_def
      js_space_def)

lemma HOST_LABEL_lower: "HOST_LABEL s \<Longrightarrow> js_lower s = s"
  unfolding js_lower_def by (intro map_idI host_label_char_lower HOST_LABEL_chars)

lemma HOST_LABEL_trim: "HOST_LABEL s \<Longrightarrow> js_trim s = s"
proof (rule js_trim_fixed)
  assume h: "HOST_LABEL s"
  then have "s \<noteq> []" by (auto simp: HOST_LABEL_def)
  then have "hd s \<in> set s" "last s \<in> set s" by simp_all
  then show "s = [] \<or> (\<not> js_space (hd s) \<and> \<not> js_space (last s))"
    using h HOST_LABEL_chars host_label_char_space by blast
qed

lemma normalize_loop_ok:
  "normalize_loop raw acc = Inr ls \<Longrightarrow> distinct acc \<Longrightarrow> list_all HOST_LABEL acc \<Longrightarrow>
     distinct ls \<and> list_all HOST_LABEL ls"
  by (induction raw acc rule: normalize_loop.induct) (auto simp: Let_def split: if_splits)

lemma normalize_loop_fixed:
  "list_all HOST_LABEL ls \<Longrightarrow> distinct (acc @ ls) \<Longrightarrow>
     normalize_loop (map AString ls) acc = Inr (acc @ ls)"
proof (induction ls arbitrary: acc)
  case (Cons l ls)
  then have "normalize_loop (map AString ls) (acc @ [l]) = Inr ((acc @ [l]) @ ls)"
    by (intro Cons.IH) auto
  with Cons.prems show ?case by (simp add: HOST_LABEL_lower HOST_LABEL_trim)
qed simp

lemma normalizeHostLabels_ok:
  assumes "normalizeHostLabels raw = Inr ls"
  shows "sorted ls" "distinct ls" "list_all HOST_LABEL ls" "length ls \<le> MAX_HOST_LABELS"
proof -
  obtain ks where ks: "normalize_loop raw [] = Inr ks" "ls = sort ks" "length ks \<le> MAX_HOST_LABELS"
    using assms by (auto simp: normalizeHostLabels_def split: sum.splits if_splits)
  have "distinct ks \<and> list_all HOST_LABEL ks" using normalize_loop_ok [OF ks(1)] by simp
  with ks show "sorted ls" "distinct ls" "list_all HOST_LABEL ls" "length ls \<le> MAX_HOST_LABELS"
    by (auto simp: list_all_iff)
qed

lemma normalizeHostLabels_fixed:
  assumes "sorted ls" "distinct ls" "list_all HOST_LABEL ls" "length ls \<le> MAX_HOST_LABELS"
  shows "normalizeHostLabels (map AString ls) = Inr ls"
  using assms normalize_loop_fixed [of ls "[]"]
  by (simp add: normalizeHostLabels_def sort_key_id_if_sorted)

section \<open>The pin\<close>

lemma missing_iff:
  "l \<in> set (missingHostLabels required carried) \<longleftrightarrow>
     l \<in> set (or_else required []) \<and>
     js_lower l \<notin> (\<lambda>c. js_lower (js_trim c)) ` set (or_else carried [])"
  by (cases required) (auto simp: missingHostLabels_def Let_def)

lemma carries_iff:
  "carriesHostLabels required carried \<longleftrightarrow>
     (\<forall>l \<in> set (or_else required []).
        js_lower l \<in> (\<lambda>c. js_lower (js_trim c)) ` set (or_else carried []))"
proof -
  have "carriesHostLabels required carried \<longleftrightarrow> (\<forall>l. l \<notin> set (missingHostLabels required carried))"
    by (simp add: carriesHostLabels_def)
  then show ?thesis unfolding missing_iff by blast
qed

lemma carries_unpinned [simp]:
  "carriesHostLabels None carried" "carriesHostLabels (Some []) carried"
  by (simp_all add: carries_iff)

lemma pinDetail_None: "pinDetail required carried = None \<longleftrightarrow> carriesHostLabels required carried"
  by (simp add: pinDetail_def carriesHostLabels_def Let_def)

text \<open>Where both sides were normalized, the pin is the plain inclusion of sets.\<close>

lemma carries_canonical:
  assumes "list_all HOST_LABEL req" "list_all HOST_LABEL have"
  shows "carriesHostLabels (Some req) (Some have) \<longleftrightarrow> set req \<subseteq> set have"
proof -
  have "(\<lambda>c. js_lower (js_trim c)) ` set have = set have"
    using assms(2) by (force simp: list_all_iff HOST_LABEL_lower HOST_LABEL_trim image_iff)
  moreover have "js_lower l = l" if "l \<in> set req" for l
    using assms(1) that by (simp add: list_all_iff HOST_LABEL_lower)
  ultimately show ?thesis by (auto simp: carries_iff)
qed

end
