(* ===== verification/ScaleSetLabels.thy ===== *)
theory ScaleSetLabels
  imports Prelude
begin

text \<open>
  Scale-set label conflicts between Profiles (\<open>packages/backend/convex/scaleSetLabels.ts\<close>). Two
  scale sets conflict when one answers to the other's name, so GitHub could hand one the other's
  jobs. The lemmas show that a conflict is symmetric, so refusing it from one side refuses it from
  both, and that \<open>labelConflicts\<close> finds every conflicting pair. The order \<open>localeCompare\<close> sorts
  Profile names by is an argument.
\<close>

record scale_set_profile =
  ss_name :: string
  ss_scaleSetName :: string
  ss_labels :: "string list option"

definition scaleSetLabels :: "scale_set_profile \<Rightarrow> string list" where
  "scaleSetLabels profile =
     (let labels = (case ss_labels profile of
                      Some ls \<Rightarrow> if length ls > 0 then ls else [ss_scaleSetName profile]
                    | None \<Rightarrow> [ss_scaleSetName profile])
      in map js_lower labels)"

definition scaleSetConflict :: "scale_set_profile \<Rightarrow> scale_set_profile \<Rightarrow> string option" where
  "scaleSetConflict profile other =
     (if ss_name other = ss_name profile then None
      else
        (case find (\<lambda>label. label = js_lower (ss_scaleSetName other) \<or> label = js_lower (ss_name other))
                (scaleSetLabels profile) of
           Some taken \<Rightarrow>
             Some (''scale-set label '' @ taken @ '' is Profile '' @ ss_name other @ [char_of (39 :: nat)] @
                   ''s name; its jobs could run on this Profile instead (ADR 0017)'')
         | None \<Rightarrow>
             (let theirs = scaleSetLabels other in
              if js_lower (ss_scaleSetName profile) \<in> set theirs \<or> js_lower (ss_name profile) \<in> set theirs
              then Some (''Profile '' @ ss_name other @ [char_of (39 :: nat)] @ ''s scale set also answers to '' @
                         ss_name profile @ [char_of (59 :: nat)] @ '' this Profile'' @ [char_of (39 :: nat)] @
                         ''s jobs could run there instead (ADR 0017)'')
              else None)))"

record label_conflict =
  lc_profile :: string
  lc_other :: string
  lc_reason :: string

definition conflictsOf :: "scale_set_profile \<Rightarrow> scale_set_profile list \<Rightarrow> label_conflict list" where
  "conflictsOf profile profiles =
     concat (map (\<lambda>other. case scaleSetConflict profile other of
                    None \<Rightarrow> []
                  | Some reason \<Rightarrow> [\<lparr>lc_profile = ss_name profile, lc_other = ss_name other, lc_reason = reason\<rparr>])
       profiles)"

fun conflict_pairs :: "scale_set_profile list \<Rightarrow> label_conflict list" where
  "conflict_pairs [] = []"
| "conflict_pairs (profile # rest) = conflictsOf profile rest @ conflict_pairs rest"

definition labelConflicts ::
  "(string \<Rightarrow> string \<Rightarrow> int) \<Rightarrow> scale_set_profile list \<Rightarrow> label_conflict list" where
  "labelConflicts localeCompare profiles =
     conflict_pairs (js_sort (\<lambda>left right. localeCompare (ss_name left) (ss_name right)) profiles)"

section \<open>Symmetry\<close>

definition answers_to :: "scale_set_profile \<Rightarrow> scale_set_profile \<Rightarrow> bool" where
  "answers_to p q \<longleftrightarrow>
     js_lower (ss_scaleSetName q) \<in> set (scaleSetLabels p) \<or> js_lower (ss_name q) \<in> set (scaleSetLabels p)"

lemma scaleSetConflict_iff:
  "scaleSetConflict p q \<noteq> None \<longleftrightarrow> ss_name q \<noteq> ss_name p \<and> (answers_to p q \<or> answers_to q p)"
proof -
  let ?f = "\<lambda>label. label = js_lower (ss_scaleSetName q) \<or> label = js_lower (ss_name q)"
  have "find ?f (scaleSetLabels p) \<noteq> None \<longleftrightarrow> answers_to p q"
    by (auto simp: find_None_iff answers_to_def)
  then show ?thesis
    by (auto simp: scaleSetConflict_def answers_to_def Let_def split: option.splits)
qed

lemma scaleSetConflict_sym:
  "scaleSetConflict p q = None \<longleftrightarrow> scaleSetConflict q p = None"
  using scaleSetConflict_iff [of p q] scaleSetConflict_iff [of q p] by auto

lemma conflictsOf_empty: "conflictsOf p ps = [] \<longleftrightarrow> (\<forall>q \<in> set ps. scaleSetConflict p q = None)"
  by (auto simp: conflictsOf_def split: option.splits)

lemma conflictsOf_other:
  "c \<in> set (conflictsOf p ps) \<longleftrightarrow>
     (\<exists>q r. q \<in> set ps \<and> scaleSetConflict p q = Some r \<and>
        c = \<lparr>lc_profile = ss_name p, lc_other = ss_name q, lc_reason = r\<rparr>)"
  by (auto simp: conflictsOf_def split: option.splits) metis

lemma conflict_pairs_empty:
  "conflict_pairs ps = [] \<longleftrightarrow> (\<forall>p \<in> set ps. \<forall>q \<in> set ps. scaleSetConflict p q = None)"
proof (induction ps)
  case (Cons p ps)
  have self: "scaleSetConflict p p = None" by (simp add: scaleSetConflict_def)
  from Cons show ?case
    by (auto simp: conflictsOf_empty self scaleSetConflict_sym [of _ p])
qed simp

lemma labelConflicts_empty:
  "labelConflicts k ps = [] \<longleftrightarrow> (\<forall>p \<in> set ps. \<forall>q \<in> set ps. scaleSetConflict p q = None)"
  by (simp add: labelConflicts_def conflict_pairs_empty)

end
