(* ===== verification/Retry.thy ===== *)
theory Retry
  imports Prelude
begin

text \<open>
  Bounded provisioning retries (\<open>packages/backend/convex/retry.ts\<close>). The lemmas show that retries
  are bounded by \<open>MAX_PROVISION_ATTEMPTS\<close>, that the backoff never shrinks, and that an operator
  sees a short single-line message. The source ends a truncated message with the character U+2026;
  the model writes it as the code unit 133, its code in Windows-1252.
\<close>

definition MAX_PROVISION_ATTEMPTS :: int where
  "MAX_PROVISION_ATTEMPTS = 3"

definition BACKOFF_SCHEDULE_MS :: "int list" where
  "BACKOFF_SCHEDULE_MS = [15000, 60000, 300000]"

definition backoffMs :: "int \<Rightarrow> int" where
  "backoffMs attempts =
     (if attempts \<le> 0 then 0
      else BACKOFF_SCHEDULE_MS ! nat (min attempts (int (length BACKOFF_SCHEDULE_MS)) - 1))"

datatype attempt_outcome =
    Retry int int string       \<comment> \<open>attempts, nextAttemptAt, lastError\<close>
  | Exhausted int string       \<comment> \<open>attempts, lastError\<close>

text \<open>\<open>replace(/\s+/g, " ")\<close>: every run of white space becomes one space.\<close>

fun collapse_ws :: "string \<Rightarrow> string" where
  "collapse_ws [] = []"
| "collapse_ws [c] = (if js_space c then '' '' else [c])"
| "collapse_ws (c # d # cs) =
     (if js_space c then (if js_space d then collapse_ws (d # cs) else CHR '' '' # collapse_ws (d # cs))
      else c # collapse_ws (d # cs))"

definition MAX_ERROR_LENGTH :: nat where
  "MAX_ERROR_LENGTH = 500"

definition ellipsis :: char where
  "ellipsis = char_of (133 :: nat)"

definition summarizeError :: "string \<Rightarrow> string" where
  "summarizeError error =
     (let collapsed = js_trim (collapse_ws error);
          message = (if length collapsed = 0 then ''Unknown error'' else collapsed)
      in if length message \<le> MAX_ERROR_LENGTH then message
         else take (MAX_ERROR_LENGTH - 1) message @ [ellipsis])"

definition decideAttemptOutcome :: "int \<Rightarrow> int \<Rightarrow> string \<Rightarrow> attempt_outcome" where
  "decideAttemptOutcome attempts now error =
     (let lastError = summarizeError error in
      if attempts \<ge> MAX_PROVISION_ATTEMPTS then Exhausted attempts lastError
      else Retry attempts (now + backoffMs attempts) lastError)"

section \<open>Backoff\<close>

lemma backoffMs_cases:
  "backoffMs n = (if n \<le> 0 then 0 else if n = 1 then 15000 else if n = 2 then 60000 else 300000)"
proof -
  consider "n \<le> 0" | "n = 1" | "n = 2" | "n \<ge> 3" by linarith
  then show ?thesis
    by cases (auto simp: backoffMs_def BACKOFF_SCHEDULE_MS_def)
qed

lemma backoffMs_mono: "m \<le> n \<Longrightarrow> backoffMs m \<le> backoffMs n"
  by (auto simp: backoffMs_cases)

lemma backoffMs_bounds: "0 \<le> backoffMs n" "backoffMs n \<le> 300000"
  by (auto simp: backoffMs_cases)

section \<open>Operator messages\<close>

lemma summarizeError_bounds: "0 < length (summarizeError e) \<and> length (summarizeError e) \<le> MAX_ERROR_LENGTH"
  by (auto simp: summarizeError_def Let_def MAX_ERROR_LENGTH_def)

lemma collapse_ws_chars: "c \<in> set (collapse_ws s) \<Longrightarrow> js_space c \<Longrightarrow> c = CHR '' ''"
  by (induction s rule: collapse_ws.induct) (auto split: if_splits)

lemma set_js_trim: "set (js_trim s) \<subseteq> set s"
  by (auto simp: js_trim_def dest!: set_dropWhileD)

lemma not_space_ellipsis: "\<not> js_space ellipsis"
  by (simp add: js_space_def ellipsis_def)

lemma summarizeError_single_line:
  "c \<in> set (summarizeError e) \<Longrightarrow> js_space c \<Longrightarrow> c = CHR '' ''"
proof -
  assume c: "c \<in> set (summarizeError e)" and sp: "js_space c"
  let ?collapsed = "js_trim (collapse_ws e)"
  have "c = CHR '' ''" if "c \<in> set ?collapsed"
    using that set_js_trim collapse_ws_chars sp by blast
  moreover have "c = CHR '' ''" if "c \<in> set ''Unknown error''"
    using that sp by (auto simp: js_space_def)
  moreover have "c \<in> set ?collapsed \<or> c \<in> set ''Unknown error'' \<or> c = ellipsis"
  proof (cases "?collapsed = []")
    case True
    then have "summarizeError e = ''Unknown error''" by (simp add: summarizeError_def MAX_ERROR_LENGTH_def)
    with c show ?thesis by simp
  next
    case False
    then have "set (summarizeError e) \<subseteq> insert ellipsis (set ?collapsed)"
      by (auto simp: summarizeError_def Let_def dest: in_set_takeD)
    with c show ?thesis by blast
  qed
  ultimately show ?thesis using sp not_space_ellipsis by blast
qed

end
