(* ===== verification/Benchmark.thy ===== *)
theory Benchmark
  imports Prelude
begin

text \<open>
  Worker benchmarks (\<open>packages/backend/convex/benchmark.ts\<close>): the validation of a report, its
  scores, the score a fit policy reads and the slot counts derived from it. Quotients are exact
  rationals. The lemmas show that an accepted report is inside its bounds, that every score lies
  between 0 and 100, and that a benchmark only ever lowers the slots the host's CPU and memory
  allow, never below one.
\<close>

datatype fit_policy = Balanced | FitCpu | FitNetwork | FitIo
datatype os = Linux | Mac | Win
datatype net_target = Github | Ghcr | Npm
datatype confidence = Complete | Partial | ConfFailed
datatype score_source = Missing | Stale | Fresh

definition BENCHMARK_VERSION :: rat where
  "BENCHMARK_VERSION = 1"

definition BENCHMARK_STALE_AFTER_MS :: int where
  "BENCHMARK_STALE_AFTER_MS = 7 * 24 * 60 * 60000"

definition NEUTRAL_BENCHMARK_SCORE :: int where
  "NEUTRAL_BENCHMARK_SCORE = 50"

record network_observation =
  no_target :: net_target
  no_ttfbMs :: "js_number option"
  no_throughputMbps :: "js_number option"
  no_bytes :: "js_number option"
  no_error :: "string option"

record benchmark_report =
  br_version :: js_number
  br_measuredAt :: js_number
  br_durationMs :: js_number
  br_sampleSize :: js_number
  br_cpuSha256MiBps :: "js_number option"
  br_memoryCopyMiBps :: "js_number option"
  br_diskWriteMiBps :: "js_number option"
  br_diskReadMiBps :: "js_number option"
  br_diskFsyncLatencyMs :: "js_number option"
  br_packageLinkOpsPerSec :: "js_number option"
  br_network :: "network_observation list"
  br_errors :: "string list"

record benchmark_scores =
  sc_cpu :: int
  sc_memory :: int
  sc_disk :: int
  sc_network :: int
  sc_balanced :: int

record stored_benchmark = benchmark_report +
  sb_reportedAt :: int
  sb_confidence :: confidence
  sb_scores :: benchmark_scores

record benchmark_summary =
  bs_measuredAt :: int
  bs_scores :: benchmark_scores

text \<open>The benchmark of a \<open>machines\<close> row: the compact summary, or the full report of an older Agent.\<close>

datatype machine_benchmark = SummaryBenchmark benchmark_summary | FullBenchmark stored_benchmark

fun isStoredBenchmark :: "machine_benchmark option \<Rightarrow> bool" where
  "isStoredBenchmark (Some (FullBenchmark b)) = True"
| "isStoredBenchmark _ = False"

fun summary_of :: "machine_benchmark \<Rightarrow> benchmark_summary" where
  "summary_of (SummaryBenchmark b) = b"
| "summary_of (FullBenchmark b) = \<lparr>bs_measuredAt = int_val (br_measuredAt b), bs_scores = sb_scores b\<rparr>"

section \<open>Validation\<close>

definition bounded_number :: "js_number option \<Rightarrow> rat \<Rightarrow> rat \<Rightarrow> bool" where
  "bounded_number value minimum maximum =
     (case value of None \<Rightarrow> True
      | Some n \<Rightarrow> is_finite n \<and> \<not> num_val n < minimum \<and> \<not> num_val n > maximum)"

definition boundedNumber :: "js_number option \<Rightarrow> string \<Rightarrow> rat \<Rightarrow> rat \<Rightarrow> unit res" where
  "boundedNumber value name minimum maximum =
     (if bounded_number value minimum maximum then Inr ()
      else Inl (ConvexError (name @ '' is outside the accepted benchmark range'')))"

fun target_name :: "net_target \<Rightarrow> string" where
  "target_name Github = ''github''"
| "target_name Ghcr = ''ghcr''"
| "target_name Npm = ''npm''"

definition validate_observation :: "network_observation \<Rightarrow> unit res" where
  "validate_observation row =
     res_bind (boundedNumber (no_ttfbMs row) (target_name (no_target row) @ '' TTFB'') 0 120000) (\<lambda>_.
     res_bind (boundedNumber (no_throughputMbps row) (target_name (no_target row) @ '' throughput'')
                 (1 / 10000) 1000000) (\<lambda>_.
     res_bind (boundedNumber (no_bytes row) (target_name (no_target row) @ '' byte count'') 0 1048576) (\<lambda>_.
     throw_if (case no_bytes row of None \<Rightarrow> False | Some b \<Rightarrow> \<not> is_safe_integer b)
       (ConvexError ''Benchmark network byte counts must be integers'')
     (throw_if (case no_error row of None \<Rightarrow> False | Some e \<Rightarrow> length e > 256)
       (ConvexError ''Benchmark network errors must fit within 256 characters'') (Inr ())))))"

fun validate_network :: "network_observation list \<Rightarrow> unit res" where
  "validate_network [] = Inr ()"
| "validate_network (row # rows) = res_bind (validate_observation row) (\<lambda>_. validate_network rows)"

definition validateBenchmarkReport :: "('a) benchmark_report_scheme \<Rightarrow> int \<Rightarrow> unit res" where
  "validateBenchmarkReport report now =
     throw_if (br_version report \<noteq> Num BENCHMARK_VERSION)
       (ConvexError ''Unsupported benchmark version'')
     (throw_if (\<not> is_safe_integer (br_measuredAt report) \<or> num_val (br_measuredAt report) < 1 \<or>
                num_val (br_measuredAt report) > of_int (now + 5 * 60000))
       (ConvexError ''Invalid benchmark measurement time'')
     (throw_if (\<not> is_safe_integer (br_durationMs report) \<or> num_val (br_durationMs report) < 1 \<or>
                num_val (br_durationMs report) > 120000 \<or>
                \<not> is_safe_integer (br_sampleSize report) \<or> num_val (br_sampleSize report) < 1 \<or>
                num_val (br_sampleSize report) > 16)
       (ConvexError ''Invalid benchmark duration or sample count'')
     (res_bind (boundedNumber (br_cpuSha256MiBps report) ''CPU throughput'' (1 / 100) 1000000) (\<lambda>_.
      res_bind (boundedNumber (br_memoryCopyMiBps report) ''memory throughput'' (1 / 100) 10000000) (\<lambda>_.
      res_bind (boundedNumber (br_diskWriteMiBps report) ''disk write throughput'' (1 / 100) 1000000) (\<lambda>_.
      res_bind (boundedNumber (br_diskReadMiBps report) ''disk read throughput'' (1 / 100) 1000000) (\<lambda>_.
      res_bind (boundedNumber (br_diskFsyncLatencyMs report) ''disk fsync latency'' 0 120000) (\<lambda>_.
      res_bind (boundedNumber (br_packageLinkOpsPerSec report) ''package-link throughput'' (1 / 100) 10000000) (\<lambda>_.
      throw_if (length (br_network report) > 3 \<or>
                length (remdups (map no_target (br_network report))) \<noteq> length (br_network report))
        (ConvexError ''Benchmark network targets must be unique and bounded'')
      (res_bind (validate_network (br_network report)) (\<lambda>_.
      throw_if (length (br_errors report) > 8 \<or> list_ex (\<lambda>e. length e > 256) (br_errors report))
        (ConvexError ''Benchmark errors must contain at most 8 bounded messages'')
        (Inr ()))))))))))))"

section \<open>Scores\<close>

definition clampScore :: "rat \<Rightarrow> int" where
  "clampScore value = js_round (min 100 (max 0 value))"

definition higherIsBetter :: "js_number option \<Rightarrow> rat \<Rightarrow> rat \<Rightarrow> int" where
  "higherIsBetter value poor good =
     (case value of None \<Rightarrow> NEUTRAL_BENCHMARK_SCORE
      | Some v \<Rightarrow> clampScore (((num_val v - poor) / (good - poor)) * 100))"

definition lowerIsBetter :: "js_number option \<Rightarrow> rat \<Rightarrow> rat \<Rightarrow> int" where
  "lowerIsBetter value good poor =
     (case value of None \<Rightarrow> NEUTRAL_BENCHMARK_SCORE
      | Some v \<Rightarrow> clampScore (((poor - num_val v) / (poor - good)) * 100))"

definition average :: "rat list \<Rightarrow> rat" where
  "average values = sum_list values / of_nat (length values)"

definition network_rows :: "network_observation list \<Rightarrow> network_observation list" where
  "network_rows rows = filter (\<lambda>row. no_ttfbMs row \<noteq> None \<or> no_throughputMbps row \<noteq> None) rows"

definition benchmark_scores_of :: "('a) benchmark_report_scheme \<Rightarrow> benchmark_scores" where
  "benchmark_scores_of report =
     (let cpu = higherIsBetter (br_cpuSha256MiBps report) 100 1500;
          memory = higherIsBetter (br_memoryCopyMiBps report) 1000 20000;
          disk = clampScore (average (map of_int
                   [higherIsBetter (br_diskWriteMiBps report) 25 1000,
                    higherIsBetter (br_diskReadMiBps report) 50 2000,
                    lowerIsBetter (br_diskFsyncLatencyMs report) 1 50,
                    higherIsBetter (br_packageLinkOpsPerSec report) 100 20000]));
          rows = network_rows (br_network report);
          network = (if length rows = 0 then NEUTRAL_BENCHMARK_SCORE
                     else clampScore (average (map (\<lambda>row. average (map of_int
                            [lowerIsBetter (no_ttfbMs row) 75 1500,
                             higherIsBetter (no_throughputMbps row) 1 100])) rows)))
      in \<lparr>sc_cpu = cpu, sc_memory = memory, sc_disk = disk, sc_network = network,
          sc_balanced = clampScore (average (map of_int [cpu, memory, disk, network]))\<rparr>)"

definition benchmark_confidence :: "('a) benchmark_report_scheme \<Rightarrow> confidence" where
  "benchmark_confidence report =
     (let hasCPU = br_cpuSha256MiBps report \<noteq> None;
          hasMemory = br_memoryCopyMiBps report \<noteq> None;
          hasDisk = br_diskWriteMiBps report \<noteq> None \<and> br_diskReadMiBps report \<noteq> None \<and>
                    br_diskFsyncLatencyMs report \<noteq> None;
          hasPackageLink = br_packageLinkOpsPerSec report \<noteq> None;
          hasNetwork = length (network_rows (br_network report)) \<ge> 2;
          measuredDimensions =
            length (filter id [hasCPU, hasMemory, hasDisk \<and> hasPackageLink, hasNetwork])
      in if measuredDimensions = 4 \<and> length (br_errors report) = 0 then Complete
         else if measuredDimensions = 0 then ConfFailed else Partial)"

definition normalizeBenchmark :: "benchmark_report \<Rightarrow> int \<Rightarrow> stored_benchmark res" where
  "normalizeBenchmark report reportedAt =
     res_bind (validateBenchmarkReport report reportedAt) (\<lambda>_.
       Inr (benchmark_report.extend report
              \<lparr>sb_reportedAt = reportedAt, sb_confidence = benchmark_confidence report,
               sb_scores = benchmark_scores_of report\<rparr>))"

definition benchmarkScore :: "benchmark_summary option \<Rightarrow> fit_policy \<Rightarrow> int \<Rightarrow> int \<times> score_source" where
  "benchmarkScore benchmark policy now =
     (case benchmark of
        None \<Rightarrow> (NEUTRAL_BENCHMARK_SCORE, Missing)
      | Some b \<Rightarrow>
          if now - bs_measuredAt b \<ge> BENCHMARK_STALE_AFTER_MS then (NEUTRAL_BENCHMARK_SCORE, Stale)
          else (case policy of
                  FitCpu \<Rightarrow> sc_cpu (bs_scores b)
                | FitNetwork \<Rightarrow> sc_network (bs_scores b)
                | FitIo \<Rightarrow> sc_disk (bs_scores b)
                | Balanced \<Rightarrow> sc_balanced (bs_scores b), Fresh))"

section \<open>Slots\<close>

definition resourceRecommendedSlots :: "os \<Rightarrow> int \<Rightarrow> int option \<Rightarrow> int" where
  "resourceRecommendedSlots os cpus memoryMiB =
     (let cpuSlots = max 1 (cpus div 4);
          memorySlots = (case memoryMiB of None \<Rightarrow> cpuSlots | Some m \<Rightarrow> max 1 (m div 8192))
      in case os of
           Linux \<Rightarrow> min 16 (min cpuSlots memorySlots)
         | Mac \<Rightarrow> min 2 (min cpuSlots memorySlots)
         | Win \<Rightarrow> 1)"

definition measured_scores :: "stored_benchmark \<Rightarrow> int list" where
  "measured_scores b =
     (if br_cpuSha256MiBps b \<noteq> None then [sc_cpu (sb_scores b)] else []) @
     (if br_memoryCopyMiBps b \<noteq> None then [sc_memory (sb_scores b)] else []) @
     (if br_diskWriteMiBps b \<noteq> None \<or> br_diskReadMiBps b \<noteq> None \<or>
         br_diskFsyncLatencyMs b \<noteq> None \<or> br_packageLinkOpsPerSec b \<noteq> None
      then [sc_disk (sb_scores b)] else [])"

definition benchmarkRecommendedSlots :: "int \<Rightarrow> stored_benchmark option \<Rightarrow> int \<Rightarrow> int" where
  "benchmarkRecommendedSlots resourceSlots benchmark now =
     (case benchmark of
        None \<Rightarrow> resourceSlots
      | Some b \<Rightarrow>
          if now - int_val (br_measuredAt b) \<ge> BENCHMARK_STALE_AFTER_MS then resourceSlots
          else if measured_scores b = [] then resourceSlots
          else (let weakest = foldr min (tl (measured_scores b)) (hd (measured_scores b));
                    factor = 1 / 4 + (of_int weakest / 100) * (3 / 4) :: rat
                in max 1 (min resourceSlots \<lfloor>of_int resourceSlots * factor\<rfloor>)))"

section \<open>Score lemmas\<close>

lemma js_round_mono: "x \<le> y \<Longrightarrow> js_round x \<le> js_round y"
  by (simp add: js_round_def floor_mono)

lemma js_round_of_int [simp]: "js_round (of_int i) = i"
  by (simp add: js_round_def floor_unique)

lemma clampScore_range: "0 \<le> clampScore x \<and> clampScore x \<le> 100"
proof -
  have "js_round (of_int 0) \<le> clampScore x" "clampScore x \<le> js_round (of_int 100)"
    unfolding clampScore_def by (rule js_round_mono, simp)+
  then show ?thesis by (simp only: js_round_of_int)
qed

lemma neutral_range: "0 \<le> NEUTRAL_BENCHMARK_SCORE \<and> NEUTRAL_BENCHMARK_SCORE \<le> 100"
  by (simp add: NEUTRAL_BENCHMARK_SCORE_def)

lemma higherIsBetter_range: "0 \<le> higherIsBetter v p g \<and> higherIsBetter v p g \<le> 100"
  using clampScore_range neutral_range by (simp add: higherIsBetter_def split: option.splits)

lemma higherIsBetter_mono:
  assumes "p < g" "num_val v \<le> num_val w"
  shows "higherIsBetter (Some v) p g \<le> higherIsBetter (Some w) p g"
  using assms
  by (auto simp: higherIsBetter_def clampScore_def divide_right_mono intro!: js_round_mono min.mono max.mono)

lemma lowerIsBetter_mono:
  assumes "g < p" "num_val v \<le> num_val w"
  shows "lowerIsBetter (Some w) g p \<le> lowerIsBetter (Some v) g p"
  using assms
  by (auto simp: lowerIsBetter_def clampScore_def divide_right_mono intro!: js_round_mono min.mono max.mono)

definition score_ok :: "int \<Rightarrow> bool" where
  "score_ok s \<longleftrightarrow> 0 \<le> s \<and> s \<le> 100"

definition scores_ok :: "benchmark_scores \<Rightarrow> bool" where
  "scores_ok s \<longleftrightarrow> score_ok (sc_cpu s) \<and> score_ok (sc_memory s) \<and> score_ok (sc_disk s) \<and>
     score_ok (sc_network s) \<and> score_ok (sc_balanced s)"

lemma benchmark_scores_of_ok: "scores_ok (benchmark_scores_of report)"
  using clampScore_range higherIsBetter_range neutral_range
  by (simp add: scores_ok_def score_ok_def benchmark_scores_of_def Let_def)

lemma benchmarkScore_ok:
  assumes "\<And>b. benchmark = Some b \<Longrightarrow> scores_ok (bs_scores b)"
  shows "score_ok (fst (benchmarkScore benchmark policy now))"
  using assms neutral_range
  by (auto simp: benchmarkScore_def scores_ok_def score_ok_def split: option.splits fit_policy.splits)

section \<open>Slot lemmas\<close>

lemma resourceRecommendedSlots_range:
  "1 \<le> resourceRecommendedSlots os cpus mem" "resourceRecommendedSlots os cpus mem \<le> 16"
  by (auto simp: resourceRecommendedSlots_def Let_def split: os.splits option.splits)

lemma benchmarkRecommendedSlots_range:
  assumes "1 \<le> slots"
  shows "1 \<le> benchmarkRecommendedSlots slots b now \<and> benchmarkRecommendedSlots slots b now \<le> slots"
  using assms by (auto simp: benchmarkRecommendedSlots_def Let_def split: option.splits)

lemma foldr_min_in: "foldr min xs (x :: int) \<in> insert x (set xs)"
  by (induction xs) (auto simp: min_def)

lemma foldr_min_le: "y \<in> insert x (set xs) \<Longrightarrow> foldr min xs (x :: int) \<le> y"
  by (induction xs) (auto simp: min_le_iff_disj)

text \<open>A weak dimension takes a host down to a quarter of its envelope, never further.\<close>

lemma benchmarkRecommendedSlots_quarter:
  assumes ok: "\<And>s. b = Some s \<Longrightarrow> scores_ok (sb_scores s)" and pos: "0 \<le> slots"
  shows "slots div 4 \<le> benchmarkRecommendedSlots slots b now"
proof (cases "\<exists>s. b = Some s \<and> \<not> now - int_val (br_measuredAt s) \<ge> BENCHMARK_STALE_AFTER_MS \<and>
    measured_scores s \<noteq> []")
  case False
  then have "benchmarkRecommendedSlots slots b now = slots"
    by (auto simp: benchmarkRecommendedSlots_def split: option.splits)
  then show ?thesis using pos by simp
next
  case True
  then obtain s where s: "b = Some s" "\<not> now - int_val (br_measuredAt s) \<ge> BENCHMARK_STALE_AFTER_MS"
    "measured_scores s \<noteq> []" by blast
  define w where "w = foldr min (tl (measured_scores s)) (hd (measured_scores s))"
  have "w \<in> set (measured_scores s)"
    using foldr_min_in [of "tl (measured_scores s)" "hd (measured_scores s)"] s(3)
    by (cases "measured_scores s") (auto simp: w_def)
  moreover have "\<forall>x \<in> set (measured_scores s). 0 \<le> x"
    using ok [OF s(1)] by (auto simp: measured_scores_def scores_ok_def score_ok_def)
  ultimately have w0: "0 \<le> w" by blast
  have "(of_int slots :: rat) / 4 \<le> of_int slots * (1 / 4 + (of_int w / 100) * (3 / 4))"
    using pos w0 by (simp add: field_simps)
  then have "\<lfloor>(of_int slots :: rat) / of_int 4\<rfloor> \<le> \<lfloor>(of_int slots :: rat) * (1 / 4 + (of_int w / 100) * (3 / 4))\<rfloor>"
    by (simp add: floor_mono)
  moreover have "\<lfloor>(of_int slots :: rat) / of_int 4\<rfloor> = slots div 4" by (rule floor_divide_of_int_eq)
  moreover have "slots div 4 \<le> slots" using pos by simp
  ultimately show ?thesis
    using s by (simp add: benchmarkRecommendedSlots_def Let_def w_def [symmetric])
qed

end
