(* ===== verification/Egress.thy ===== *)
theory Egress
  imports Prelude
begin

text \<open>
  A Profile's egress policy (\<open>packages/backend/convex/egress.ts\<close>): the parser of an untrusted
  policy, the IPv4 and domain normalisation it rests on, the check of a Worker's evidence against
  the policy and the clamping of a reported record. The lemmas show that a parsed policy is
  canonical, that parsing a stored policy again returns it unchanged, and that a Profile which
  restricts egress admits only evidence of the same policy at the same or a stricter mode.
\<close>

datatype egress_mode = Public | Audit | Allowlist

record profile_egress =
  eg_mode :: egress_mode
  eg_presets :: "string list"
  eg_domains :: "string list"
  eg_cidrs :: "string list"

definition PUBLIC_EGRESS :: profile_egress where
  "PUBLIC_EGRESS = \<lparr>eg_mode = Public, eg_presets = [], eg_domains = [], eg_cidrs = []\<rparr>"

definition MAX_EGRESS_DOMAINS :: nat where
  "MAX_EGRESS_DOMAINS = 256"

definition MAX_EGRESS_CIDRS :: nat where
  "MAX_EGRESS_CIDRS = 256"

fun mode_name :: "egress_mode \<Rightarrow> string" where
  "mode_name Public = ''public''"
| "mode_name Audit = ''audit''"
| "mode_name Allowlist = ''allowlist''"

section \<open>Addresses and domains\<close>

text \<open>The label pattern: one to 63 characters of \<open>a-z\<close>, \<open>0-9\<close>, \<open>_\<close> and inner \<open>-\<close>.\<close>

definition domain_char :: "char \<Rightarrow> bool" where
  "domain_char c \<longleftrightarrow> is_lower_letter c \<or> is_digit c \<or> c = CHR ''_''"

definition DOMAIN_LABEL :: "string \<Rightarrow> bool" where
  "DOMAIN_LABEL s \<longleftrightarrow> s \<noteq> [] \<and> length s \<le> 63 \<and> domain_char (hd s) \<and> domain_char (last s) \<and>
     list_all (\<lambda>c. domain_char c \<or> c = CHR ''-'') s"

text \<open>The number patterns of an octet and of a prefix length: no leading zero, at most \<open>n\<close> digits.\<close>

definition plain_number :: "nat \<Rightarrow> string \<Rightarrow> bool" where
  "plain_number n s \<longleftrightarrow>
     s = ''0'' \<or> (s \<noteq> [] \<and> list_all is_digit s \<and> hd s \<noteq> CHR ''0'' \<and> length s \<le> n)"

fun parse_octets :: "string list \<Rightarrow> nat \<Rightarrow> nat option" where
  "parse_octets [] value = Some value"
| "parse_octets (part # parts) value =
     (if \<not> plain_number 3 part then None
      else if read_nat part > 255 then None
      else parse_octets parts (value * 256 + read_nat part))"

definition parseIPv4 :: "string \<Rightarrow> nat option" where
  "parseIPv4 text =
     (let parts = js_split CHR ''.'' text
      in if length parts \<noteq> 4 then None else parse_octets parts 0)"

definition formatIPv4 :: "nat \<Rightarrow> string" where
  "formatIPv4 value =
     js_join ''.'' (map (\<lambda>shift. show_nat (value div 2 ^ shift mod 256)) [24, 16, 8, 0])"

definition normalizeIPv4Destination :: "string \<Rightarrow> string option" where
  "normalizeIPv4Destination text =
     (case js_split CHR ''/'' text of
        [address] \<Rightarrow>
          (case parseIPv4 address of None \<Rightarrow> None
           | Some parsed \<Rightarrow> Some (formatIPv4 parsed @ ''/32''))
      | [address, len] \<Rightarrow>
          (case parseIPv4 address of None \<Rightarrow> None
           | Some parsed \<Rightarrow>
               if \<not> plain_number 2 len then None
               else if read_nat len > 32 then None
               else (let size = 2 ^ (32 - read_nat len)
                     in Some (formatIPv4 (parsed div size * size) @ ''/'' @ show_nat (read_nat len))))
      | _ \<Rightarrow> None)"

definition drop_final_dot :: "string \<Rightarrow> string" where
  "drop_final_dot s = (if s \<noteq> [] \<and> last s = CHR ''.'' then butlast s else s)"

definition normalizeDomain :: "string \<Rightarrow> string" where
  "normalizeDomain domain = drop_final_dot (js_lower (js_trim domain))"

definition domain_name :: "string \<Rightarrow> string" where
  "domain_name domain = (if take 2 domain = ''*.'' then drop 2 domain else domain)"

definition domainProblem :: "string \<Rightarrow> string option" where
  "domainProblem domain =
     (let name = domain_name domain; labels = js_split CHR ''.'' name
      in if CHR ''*'' \<in> set name
           then Some (domain @ '': a wildcard is allowed only as the whole first label'')
         else if length name > 253 then Some (domain @ '' is longer than 253 characters'')
         else if length labels < 2 then Some (domain @ '' must have at least two labels'')
         else if list_ex (\<lambda>label. \<not> DOMAIN_LABEL label) labels then Some (domain @ '' has an invalid label'')
         else if parseIPv4 name \<noteq> None then Some (domain @ '' is an address; list it as a CIDR'')
         else None)"

section \<open>The parser\<close>

fun egress_list :: "(string \<times> json) list \<Rightarrow> string \<Rightarrow> string + string list" where
  "egress_list rec key =
     (case map_of rec key of
        None \<Rightarrow> Inr []
      | Some JNull \<Rightarrow> Inr []
      | Some (JArr values) \<Rightarrow>
          if list_all is_JStr values
          then Inr (filter (\<lambda>e. e \<noteq> []) (map (\<lambda>e. js_trim (json_str e)) values))
          else Inl (''egress.'' @ key @ '' must be a list of strings'')
      | _ \<Rightarrow> Inl (''egress.'' @ key @ '' must be a list of strings''))"

fun egress_mode_of :: "(string \<times> json) list \<Rightarrow> egress_mode option" where
  "egress_mode_of rec =
     (case map_of rec ''mode'' of
        None \<Rightarrow> Some Public
      | Some (JStr s) \<Rightarrow>
          if s = ''public'' then Some Public
          else if s = ''audit'' then Some Audit
          else if s = ''allowlist'' then Some Allowlist
          else None
      | _ \<Rightarrow> None)"

fun normalize_cidrs :: "string list \<Rightarrow> string + string list" where
  "normalize_cidrs [] = Inr []"
| "normalize_cidrs (cidr # rest) =
     (case normalizeIPv4Destination cidr of
        None \<Rightarrow> Inl (cidr @ '' must be an IPv4 address or CIDR; guests have no IPv6 egress'')
      | Some normalized \<Rightarrow>
          (case normalize_cidrs rest of Inl e \<Rightarrow> Inl e | Inr ns \<Rightarrow> Inr (normalized # ns)))"

definition check_egress ::
  "egress_mode \<Rightarrow> string list \<Rightarrow> string list \<Rightarrow> string list \<Rightarrow> string + profile_egress" where
  "check_egress mode presets domains uniqueCidrs =
     (let allowed = length presets + length domains + length uniqueCidrs
      in if mode = Public \<and> allowed > 0
           then Inl ''public egress takes no allowlist; use audit or allowlist mode''
         else case List.find (\<lambda>p. p \<noteq> ''github'') presets of
           Some preset \<Rightarrow> Inl (''unknown egress preset '' @ preset)
         | None \<Rightarrow>
         if length domains > MAX_EGRESS_DOMAINS
           then Inl ''an egress allowlist holds at most 256 domains''
         else if length uniqueCidrs > MAX_EGRESS_CIDRS
           then Inl ''an egress allowlist holds at most 256 CIDRs''
         else case List.find (\<lambda>d. domainProblem d \<noteq> None) domains of
           Some domain \<Rightarrow> Inl (''allowed domain '' @ the (domainProblem domain))
         | None \<Rightarrow>
         if mode = Allowlist \<and> allowed = 0
           then Inl ''allowlist egress with nothing allowed denies GitHub itself; add the github preset''
         else Inr \<lparr>eg_mode = mode, eg_presets = presets, eg_domains = domains, eg_cidrs = uniqueCidrs\<rparr>)"

definition parse_egress_object :: "(string \<times> json) list \<Rightarrow> string + profile_egress" where
  "parse_egress_object rec =
     (case List.find (\<lambda>(key, _). key \<notin> set [''mode'', ''presets'', ''domains'', ''cidrs'']) rec of
        Some (key, _) \<Rightarrow> Inl (''egress has an unknown field '' @ key)
      | None \<Rightarrow>
        case egress_list rec ''presets'' of Inl e \<Rightarrow> Inl e | Inr presets \<Rightarrow>
        case egress_list rec ''domains'' of Inl e \<Rightarrow> Inl e | Inr domains \<Rightarrow>
        case egress_list rec ''cidrs'' of Inl e \<Rightarrow> Inl e | Inr cidrs \<Rightarrow>
        case egress_mode_of rec of
          None \<Rightarrow> Inl ''egress.mode must be public, audit, or allowlist''
        | Some mode \<Rightarrow>
        case normalize_cidrs cidrs of Inl e \<Rightarrow> Inl e | Inr normalized \<Rightarrow>
          check_egress mode (sortedUnique (map js_lower presets))
            (sortedUnique (filter (\<lambda>d. d \<noteq> []) (map normalizeDomain domains)))
            (sortedUnique normalized))"

fun parseProfileEgress :: "json option \<Rightarrow> string + profile_egress" where
  "parseProfileEgress None = Inr PUBLIC_EGRESS"
| "parseProfileEgress (Some JNull) = Inr PUBLIC_EGRESS"
| "parseProfileEgress (Some (JObj rec)) = parse_egress_object rec"
| "parseProfileEgress (Some _) = Inl ''egress must be an object''"

definition profileEgressOf :: "profile_egress option \<Rightarrow> profile_egress" where
  "profileEgressOf egress = or_else egress PUBLIC_EGRESS"

section \<open>Evidence\<close>

text \<open>\<open>sameList\<close> on string arrays and \<open>sameEgress\<close>; the evidence names its mode by a string.\<close>

definition sameList :: "string list \<Rightarrow> string list \<Rightarrow> bool" where
  "sameList left right \<longleftrightarrow> length left = length right \<and>
     list_all (\<lambda>i. left ! i = right ! i) [0..<length left]"

definition sameEgress ::
  "string \<times> string list \<times> string list \<times> string list \<Rightarrow> profile_egress \<Rightarrow> bool" where
  "sameEgress left right =
     (case left of (mode, presets, domains, cidrs) \<Rightarrow>
        mode = mode_name (eg_mode right) \<and> sameList presets (eg_presets right) \<and>
        sameList domains (eg_domains right) \<and> sameList cidrs (eg_cidrs right))"

fun EGRESS_RANK :: "egress_mode \<Rightarrow> int" where
  "EGRESS_RANK Public = 0"
| "EGRESS_RANK Audit = 1"
| "EGRESS_RANK Allowlist = 2"

definition egressRank :: "string option \<Rightarrow> int" where
  "egressRank mode =
     (if mode = Some ''audit'' then EGRESS_RANK Audit
      else if mode = Some ''allowlist'' then EGRESS_RANK Allowlist
      else if mode = Some ''public'' then EGRESS_RANK Public
      else - 1)"

record egress_evidence =
  ev_mode :: string
  ev_hostMode :: string
  ev_profileMode :: string
  ev_presets :: "string list option"
  ev_domains :: "string list option"
  ev_cidrs :: "string list option"
  ev_allowedDomainCount :: js_number

record readiness_check =
  rc_name :: string
  rc_passed :: bool
  rc_detail :: "string option"

text \<open>Whether \<open>checks.find((entry) => entry.name === name)?.passed === true\<close>.\<close>

definition check_passed :: "readiness_check list \<Rightarrow> string \<Rightarrow> bool" where
  "check_passed checks name =
     (case List.find (\<lambda>c. rc_name c = name) checks of None \<Rightarrow> False | Some c \<Rightarrow> rc_passed c)"

definition egressEvidenceError ::
  "profile_egress \<Rightarrow> egress_evidence option \<Rightarrow> readiness_check list option \<Rightarrow> string option" where
  "egressEvidenceError profile evidence checks =
     (case evidence of
        None \<Rightarrow>
          if eg_mode profile = Public then None
          else Some (''network.egress is required for a '' @ mode_name (eg_mode profile) @ '' Profile'')
      | Some ev \<Rightarrow>
          if \<not> sameEgress (ev_profileMode ev, or_else (ev_presets ev) [], or_else (ev_domains ev) [],
                           or_else (ev_cidrs ev) []) profile
            then Some ''network.egress does not match the Profile's current egress policy''
          else if egressRank (Some (ev_mode ev)) < EGRESS_RANK (eg_mode profile)
            then Some (''network.egress.mode '' @ ev_mode ev @ '' is weaker than the Profile's '' @
                       mode_name (eg_mode profile))
          else if eg_mode profile \<noteq> Public \<and> \<not> check_passed (or_else checks []) ''egress-policy''
            then Some ''the egress-policy check must pass''
          else None)"

section \<open>Reported records\<close>

datatype egress_verdict = Allowed | Blocked | Unlisted
datatype flow_protocol = Tcp | Udp

record egress_name =
  en_name :: string
  en_verdict :: egress_verdict
  en_queries :: js_number

record egress_flow =
  ef_destination :: string
  ef_protocol :: flow_protocol
  ef_port :: js_number
  ef_name :: "string option"
  ef_verdict :: egress_verdict

record egress_record =
  er_mode :: egress_mode
  er_names :: "egress_name list option"
  er_flows :: "egress_flow list option"
  er_omittedNames :: "js_number option"
  er_omittedFlows :: "js_number option"
  er_error :: "string option"

definition MAX_RECORD_NAMES :: nat where
  "MAX_RECORD_NAMES = 256"

definition MAX_RECORD_FLOWS :: nat where
  "MAX_RECORD_FLOWS = 512"

definition bounded_omitted :: "js_number option \<Rightarrow> nat \<Rightarrow> nat \<Rightarrow> js_number" where
  "bounded_omitted omitted len maximum =
     js_add (js_max (js_int 0) (js_floor (or_else omitted (js_int 0))))
            (js_int (max 0 (int len - int maximum)))"

definition boundedEgressRecord :: "egress_record \<Rightarrow> egress_record" where
  "boundedEgressRecord r =
     (let names = or_else (er_names r) []; flows = or_else (er_flows r) []
      in \<lparr>er_mode = er_mode r,
          er_names = Some (map (\<lambda>e. \<lparr>en_name = take 253 (en_name e), en_verdict = en_verdict e,
                                     en_queries = js_max (js_int 0) (js_floor (en_queries e))\<rparr>)
                               (take MAX_RECORD_NAMES names)),
          er_flows = Some (map (\<lambda>e. \<lparr>ef_destination = take 64 (ef_destination e),
                                     ef_protocol = ef_protocol e,
                                     ef_port = js_min (js_int 65535) (js_max (js_int 0) (js_floor (ef_port e))),
                                     ef_name = map_option (take 253) (ef_name e),
                                     ef_verdict = ef_verdict e\<rparr>)
                               (take MAX_RECORD_FLOWS flows)),
          er_omittedNames = Some (bounded_omitted (er_omittedNames r) (length names) MAX_RECORD_NAMES),
          er_omittedFlows = Some (bounded_omitted (er_omittedFlows r) (length flows) MAX_RECORD_FLOWS),
          er_error = map_option (take 1000) (er_error r)\<rparr>)"

section \<open>Address lemmas\<close>

lemma set_js_join: "c \<in> set (js_join sep xs) \<Longrightarrow> c \<in> set sep \<or> (\<exists>x \<in> set xs. c \<in> set x)"
  by (induction sep xs rule: js_join.induct) auto

lemma show_nat_0 [simp]: "show_nat 0 = ''0''"
  using show_nat_no_leading_zero [of 0] by (simp add: show_nat.simps)

lemma plain_number_show:
  assumes "length (show_nat n) \<le> k"
  shows "plain_number k (show_nat n)"
proof (cases "n = 0")
  case False
  then show ?thesis
    using assms show_nat_no_leading_zero [of n] show_nat_digits [of _ n]
    by (auto simp: plain_number_def list_all_iff)
qed (simp add: plain_number_def)

lemma length_show_nat_2: "n < 100 \<Longrightarrow> length (show_nat n) \<le> 2"
  by (subst show_nat.simps, subst show_nat.simps) auto

lemma digit_not_sep: "is_digit c \<Longrightarrow> c \<noteq> CHR ''.'' \<and> c \<noteq> CHR ''/''"
  by (auto simp: is_digit_def)

lemma show_nat_no_sep: "CHR ''.'' \<notin> set (show_nat n)" "CHR ''/'' \<notin> set (show_nat n)"
  using show_nat_digits digit_not_sep by blast+

lemma formatIPv4_chars: "c \<in> set (formatIPv4 v) \<Longrightarrow> is_digit c \<or> c = CHR ''.''"
  unfolding formatIPv4_def by (drule set_js_join) (auto dest: show_nat_digits)

lemma formatIPv4_no_slash: "CHR ''/'' \<notin> set (formatIPv4 v)"
  using formatIPv4_chars digit_not_sep by fastforce

lemma octets_value:
  assumes "v < 2 ^ 32"
  shows "(((v div 2 ^ 24 mod 256) * 256 + v div 2 ^ 16 mod 256) * 256 + v div 2 ^ 8 mod 256) * 256
           + v mod 256 = (v :: nat)"
proof -
  have "v div 2 ^ 24 mod 256 = v div 2 ^ 24" using assms by (simp add: less_mult_imp_div_less)
  moreover have "v div 2 ^ 24 * 256 + v div 2 ^ 16 mod 256 = v div 2 ^ 16"
    using div_mult_mod_eq [of "v div 2 ^ 16" 256] by (simp add: div_mult2_eq [symmetric])
  moreover have "v div 2 ^ 16 * 256 + v div 2 ^ 8 mod 256 = v div 2 ^ 8"
    using div_mult_mod_eq [of "v div 2 ^ 8" 256] by (simp add: div_mult2_eq [symmetric])
  moreover have "v div 2 ^ 8 * 256 + v mod 256 = v"
    using div_mult_mod_eq [of v 256] by simp
  ultimately show ?thesis by presburger
qed

text \<open>The round trip of addresses.\<close>

lemma parse_formatIPv4:
  assumes "v < 2 ^ 32"
  shows "parseIPv4 (formatIPv4 v) = Some v"
proof -
  let ?parts = "map (\<lambda>shift. show_nat (v div 2 ^ shift mod 256)) [24, 16, 8, 0]"
  have split: "js_split CHR ''.'' (formatIPv4 v) = ?parts"
    unfolding formatIPv4_def by (rule js_split_join) (auto simp: show_nat_no_sep)
  have plain: "plain_number 3 (show_nat (n mod 256))" for n
    by (rule plain_number_show, rule length_show_nat_3) (simp add: less_trans [OF mod_less_divisor])
  have octet: "\<not> 255 < n mod 256" for n :: nat
    using mod_less_divisor [of 256 n] by linarith
  have "parse_octets ?parts 0 = Some v"
    using octets_value [OF assms]
    by (simp only: list.map parse_octets.simps plain octet read_show_nat if_True if_False not_True_eq_False
        not_False_eq_True mult_zero_left add_0 power_0 div_by_1 simp_thms)
  with split show ?thesis by (simp add: parseIPv4_def)
qed

lemma parse_octets_bound:
  "parse_octets parts acc = Some v \<Longrightarrow> v < (acc + 1) * 256 ^ length parts"
proof (induction parts arbitrary: acc)
  case (Cons part parts)
  then have part: "read_nat part \<le> 255" and v: "v < (acc * 256 + read_nat part + 1) * 256 ^ length parts"
    by (auto split: if_splits)
  have "(acc * 256 + read_nat part + 1) * 256 ^ length parts \<le> ((acc + 1) * 256) * 256 ^ length parts"
    using part by (intro mult_le_mono1) simp
  with v have "v < ((acc + 1) * 256) * 256 ^ length parts" by (rule less_le_trans)
  then show ?case by (simp add: algebra_simps)
qed simp

lemma parseIPv4_bound: "parseIPv4 t = Some v \<Longrightarrow> v < 2 ^ 32"
  using parse_octets_bound [of "js_split CHR ''.'' t" 0 v]
  by (auto simp: parseIPv4_def Let_def split: if_splits)

text \<open>A canonical destination: a masked address and its prefix length.\<close>

definition ipv4_cidr :: "nat \<Rightarrow> nat \<Rightarrow> string" where
  "ipv4_cidr w bits = formatIPv4 w @ ''/'' @ show_nat bits"

definition canonical_cidr :: "string \<Rightarrow> bool" where
  "canonical_cidr s \<longleftrightarrow>
     (\<exists>w bits. w < 2 ^ 32 \<and> bits \<le> 32 \<and> 2 ^ (32 - bits) dvd w \<and> s = ipv4_cidr w bits)"

lemma split_ipv4_cidr: "js_split CHR ''/'' (ipv4_cidr w bits) = [formatIPv4 w, show_nat bits]"
  by (simp add: ipv4_cidr_def js_split_append_sep formatIPv4_no_slash js_split_no_sep show_nat_no_sep)

lemma normalizeIPv4Destination_cidr:
  assumes "w < 2 ^ 32" "bits \<le> 32"
  shows "normalizeIPv4Destination (ipv4_cidr w bits) =
    Some (ipv4_cidr (w div 2 ^ (32 - bits) * 2 ^ (32 - bits)) bits)"
proof -
  have "plain_number 2 (show_nat bits)"
    using assms(2) by (intro plain_number_show length_show_nat_2) simp
  then have "normalizeIPv4Destination (ipv4_cidr w bits) =
      Some (formatIPv4 (w div 2 ^ (32 - bits) * 2 ^ (32 - bits)) @ ''/'' @ show_nat bits)"
    using assms by (simp add: normalizeIPv4Destination_def split_ipv4_cidr parse_formatIPv4 Let_def)
  then show ?thesis by (simp only: ipv4_cidr_def)
qed

lemma normalizeIPv4Destination_fixed:
  "canonical_cidr s \<Longrightarrow> normalizeIPv4Destination s = Some s"
  by (auto simp: canonical_cidr_def normalizeIPv4Destination_cidr)

lemma ipv4_cidr_32: "formatIPv4 w @ ''/32'' = ipv4_cidr w 32"
proof -
  have "show_nat 32 = [digit_char 3, digit_char 2]"
    by (simp add: show_nat.simps)
  moreover have "digit_char 3 = CHR ''3''" "digit_char 2 = CHR ''2''"
    by (rule of_char_eqI [where ?'a = nat], simp add: digit_char_def)+
  ultimately show ?thesis by (simp add: ipv4_cidr_def)
qed

lemma canonical_cidrI:
  assumes "w < 2 ^ 32" "bits \<le> 32"
  shows "canonical_cidr (ipv4_cidr (w div 2 ^ (32 - bits) * 2 ^ (32 - bits)) bits)"
proof -
  have "w div 2 ^ (32 - bits) * 2 ^ (32 - bits) < 2 ^ 32"
    using assms(1) by (rule le_less_trans [OF div_times_less_eq_dividend])
  then show ?thesis
    unfolding canonical_cidr_def using assms(2) dvd_triv_right by blast
qed

lemma normalizeIPv4Destination_canonical:
  assumes "normalizeIPv4Destination t = Some s"
  shows "canonical_cidr s"
proof -
  from assms obtain v bits where "v < 2 ^ 32" "bits \<le> 32"
    "s = ipv4_cidr (v div 2 ^ (32 - bits) * 2 ^ (32 - bits)) bits"
  proof (cases "js_split CHR ''/'' t" rule: list.exhaust [case_names Nil Cons])
    case (Cons a rest)
    show thesis
    proof (cases rest)
      case Nil
      with assms Cons obtain v where v: "parseIPv4 a = Some v" "s = formatIPv4 v @ ''/32''"
        by (auto simp: normalizeIPv4Destination_def split: option.splits)
      then show thesis
        using parseIPv4_bound [OF v(1)] by (intro that [of v 32]) (simp_all add: ipv4_cidr_32)
    next
      case [simp]: (Cons len more)
      with assms \<open>js_split CHR ''/'' t = a # rest\<close> obtain v where v: "more = []" "parseIPv4 a = Some v" "read_nat len \<le> 32"
        "s = ipv4_cidr (v div 2 ^ (32 - read_nat len) * 2 ^ (32 - read_nat len)) (read_nat len)"
        by (cases more) (auto simp: normalizeIPv4Destination_def Let_def ipv4_cidr_def split: option.splits if_splits)
      show thesis
        by (rule that [OF parseIPv4_bound [OF v(2)] v(3) v(4)])
    qed
  qed simp
  then show ?thesis using canonical_cidrI by blast
qed

section \<open>Parser lemmas\<close>

lemma hd_js_join: "xs \<noteq> [] \<Longrightarrow> hd xs \<noteq> [] \<Longrightarrow> hd (js_join sep xs) = hd (hd xs)"
  by (induction sep xs rule: js_join.induct) auto

lemma js_join_eq_Nil: "js_join [c] xs = [] \<longleftrightarrow> xs = [] \<or> xs = [[]]"
  by (induction "[c]" xs rule: js_join.induct) auto

lemma last_js_join: "xs \<noteq> [] \<Longrightarrow> last xs \<noteq> [] \<Longrightarrow> last (js_join [c] xs) = last (last xs)"
  by (induction "[c]" xs rule: js_join.induct) (auto simp: js_join_eq_Nil)

lemma domain_char_code:
  "domain_char c \<or> c = CHR ''-'' \<or> c = CHR ''.'' \<or> c = CHR ''*'' \<Longrightarrow>
     \<not> js_space c \<and> lower_char c = c"
  by (auto simp: domain_char_def is_lower_letter_def is_digit_def js_space_def lower_char_def Let_def)

lemma domain_char_not_dot: "domain_char c \<Longrightarrow> c \<noteq> CHR ''.''"
  by (auto simp: domain_char_def is_lower_letter_def is_digit_def)

lemma domain_name_ends:
  assumes "\<forall>l \<in> set (js_split CHR ''.'' name). DOMAIN_LABEL l"
  shows "name \<noteq> []" "domain_char (hd name)" "domain_char (last name)"
    "\<forall>c \<in> set name. domain_char c \<or> c = CHR ''-'' \<or> c = CHR ''.''"
proof -
  let ?ls = "js_split CHR ''.'' name"
  have name: "js_join ''.'' ?ls = name" by (rule js_join_split)
  have h: "DOMAIN_LABEL (hd ?ls)" and l: "DOMAIN_LABEL (last ?ls)" using assms by auto
  then have ne: "hd ?ls \<noteq> []" "last ?ls \<noteq> []" by (auto simp: DOMAIN_LABEL_def)
  show "name \<noteq> []" using ne(1) by (cases name) auto
  show "domain_char (hd name)"
    using hd_js_join [of ?ls "''.''"] ne h by (simp add: name DOMAIN_LABEL_def)
  show "domain_char (last name)"
    using last_js_join [of ?ls "CHR ''.''"] ne l by (simp add: name DOMAIN_LABEL_def)
  show "\<forall>c \<in> set name. domain_char c \<or> c = CHR ''-'' \<or> c = CHR ''.''"
    using set_js_join [of _ "''.''" ?ls] assms unfolding name
    by (fastforce simp: DOMAIN_LABEL_def list_all_iff)
qed

text \<open>A domain without a problem is its own normal form.\<close>

lemma domainProblem_None_labels:
  "domainProblem d = None \<Longrightarrow> \<forall>l \<in> set (js_split CHR ''.'' (domain_name d)). DOMAIN_LABEL l"
  by (auto simp: domainProblem_def Let_def list_ex_iff split: if_splits)

lemma domain_name_cases: "domain_name d = d \<or> d = ''*.'' @ domain_name d"
proof (cases "take 2 d = ''*.''")
  case True
  have "take 2 d @ drop 2 d = d" by (rule append_take_drop_id)
  then show ?thesis unfolding domain_name_def if_P [OF True] unfolding True by (rule disjI2 [OF sym])
qed (simp add: domain_name_def)

lemma domain_ends:
  assumes "domainProblem d = None"
  shows "d \<noteq> []" "domain_char (hd d) \<or> hd d = CHR ''*''" "domain_char (last d)"
    "\<forall>c \<in> set d. domain_char c \<or> c = CHR ''-'' \<or> c = CHR ''.'' \<or> c = CHR ''*''"
proof -
  note n = domain_name_ends [OF domainProblem_None_labels [OF assms]]
  from domain_name_cases [of d] have "d \<noteq> [] \<and> (domain_char (hd d) \<or> hd d = CHR ''*'') \<and> domain_char (last d) \<and>
    (\<forall>c \<in> set d. domain_char c \<or> c = CHR ''-'' \<or> c = CHR ''.'' \<or> c = CHR ''*'')"
  proof
    assume "domain_name d = d"
    then show ?thesis using n by (simp, blast)
  next
    assume eq: "d = ''*.'' @ domain_name d"
    define r where "r = domain_name d"
    note nr = n [folded r_def]
    from eq have d: "d = ''*.'' @ r" unfolding r_def .
    show ?thesis unfolding d using nr by (simp, blast)
  qed
  then show "d \<noteq> []" "domain_char (hd d) \<or> hd d = CHR ''*''" "domain_char (last d)"
    "\<forall>c \<in> set d. domain_char c \<or> c = CHR ''-'' \<or> c = CHR ''.'' \<or> c = CHR ''*''" by auto
qed

lemma normalizeDomain_fixed:
  assumes "domainProblem d = None"
  shows "js_trim d = d" "normalizeDomain d = d"
proof -
  note e = domain_ends [OF assms]
  show t: "js_trim d = d"
    using e(2,3) domain_char_code by (intro js_trim_fixed) blast
  have "js_lower d = d"
    using e(4) domain_char_code unfolding js_lower_def by (intro map_idI) blast
  moreover have "last d \<noteq> CHR ''.''" using e(3) domain_char_not_dot by blast
  ultimately show "normalizeDomain d = d"
    by (simp add: normalizeDomain_def t drop_final_dot_def)
qed

lemma canonical_cidr_trim:
  assumes "canonical_cidr s"
  shows "js_trim s = s" "s \<noteq> []"
proof -
  from assms obtain w bits where s: "s = formatIPv4 w @ ''/'' @ show_nat bits"
    by (auto simp: canonical_cidr_def ipv4_cidr_def)
  have f: "formatIPv4 w \<noteq> []" by (simp add: formatIPv4_def)
  have "hd s \<in> set (formatIPv4 w)" "last s \<in> set (show_nat bits)"
    using f by (simp_all add: s)
  then have "is_digit (hd s) \<or> hd s = CHR ''.''" "is_digit (last s)"
    using formatIPv4_chars show_nat_digits by blast+
  then have "\<not> js_space (hd s)" "\<not> js_space (last s)"
    by (auto simp: js_space_def is_digit_def)
  then show "js_trim s = s" by (intro js_trim_fixed) simp
  show "s \<noteq> []" by (simp add: s)
qed

definition canonical_egress :: "profile_egress \<Rightarrow> bool" where
  "canonical_egress e \<longleftrightarrow>
     sorted (eg_presets e) \<and> distinct (eg_presets e) \<and> set (eg_presets e) \<subseteq> {''github''} \<and>
     sorted (eg_domains e) \<and> distinct (eg_domains e) \<and> length (eg_domains e) \<le> MAX_EGRESS_DOMAINS \<and>
     (\<forall>d \<in> set (eg_domains e). domainProblem d = None) \<and>
     sorted (eg_cidrs e) \<and> distinct (eg_cidrs e) \<and> length (eg_cidrs e) \<le> MAX_EGRESS_CIDRS \<and>
     (\<forall>c \<in> set (eg_cidrs e). canonical_cidr c) \<and>
     (eg_mode e = Public \<longrightarrow> eg_presets e = [] \<and> eg_domains e = [] \<and> eg_cidrs e = []) \<and>
     (eg_mode e = Allowlist \<longrightarrow> \<not> (eg_presets e = [] \<and> eg_domains e = [] \<and> eg_cidrs e = []))"

lemma check_egress_Inr:
  "check_egress mode p d c = Inr e \<longleftrightarrow>
     e = \<lparr>eg_mode = mode, eg_presets = p, eg_domains = d, eg_cidrs = c\<rparr> \<and>
     set p \<subseteq> {''github''} \<and> length d \<le> MAX_EGRESS_DOMAINS \<and> length c \<le> MAX_EGRESS_CIDRS \<and>
     (\<forall>x \<in> set d. domainProblem x = None) \<and>
     (mode = Public \<longrightarrow> p = [] \<and> d = [] \<and> c = []) \<and>
     (mode = Allowlist \<longrightarrow> \<not> (p = [] \<and> d = [] \<and> c = []))"
  by (auto simp: check_egress_def Let_def find_None_iff subset_iff dest!: find_SomeD split: option.splits)

lemma normalize_cidrs_canonical:
  "normalize_cidrs cs = Inr ns \<Longrightarrow> \<forall>n \<in> set ns. canonical_cidr n"
  by (induction cs arbitrary: ns)
     (auto split: option.splits sum.splits intro: normalizeIPv4Destination_canonical)

lemma normalize_cidrs_fixed:
  "\<forall>c \<in> set cs. canonical_cidr c \<Longrightarrow> normalize_cidrs cs = Inr cs"
  by (induction cs) (auto simp: normalizeIPv4Destination_fixed)

lemma parse_egress_object_canonical:
  "parse_egress_object rec = Inr e \<Longrightarrow> canonical_egress e"
  unfolding parse_egress_object_def
  by (auto simp: check_egress_Inr canonical_egress_def dest: normalize_cidrs_canonical
      simp del: egress_list.simps egress_mode_of.simps split: option.splits sum.splits)

lemma PUBLIC_EGRESS_canonical: "canonical_egress PUBLIC_EGRESS"
  by (simp add: canonical_egress_def PUBLIC_EGRESS_def)

lemma parseProfileEgress_canonical: "parseProfileEgress p = Inr e \<Longrightarrow> canonical_egress e"
  by (induction p rule: parseProfileEgress.induct)
     (auto simp: PUBLIC_EGRESS_canonical intro: parse_egress_object_canonical)

text \<open>The payload a stored policy is sent as.\<close>

definition egress_json :: "profile_egress \<Rightarrow> json" where
  "egress_json e =
     JObj [(''mode'', JStr (mode_name (eg_mode e))), (''presets'', JArr (map JStr (eg_presets e))),
           (''domains'', JArr (map JStr (eg_domains e))), (''cidrs'', JArr (map JStr (eg_cidrs e)))]"

lemma egress_list_json:
  assumes "map_of rec key = Some (JArr (map JStr xs))" "\<forall>x \<in> set xs. js_trim x = x \<and> x \<noteq> []"
  shows "egress_list rec key = Inr xs"
  using assms by (simp add: list_all_iff map_idI o_def)

lemma github_fixed:
  assumes "set p \<subseteq> {''github''}"
  shows "\<forall>x \<in> set p. js_trim x = x \<and> x \<noteq> []" "map js_lower p = p"
proof -
  have "js_trim ''github'' = ''github''" by (rule js_trim_fixed) (simp add: js_space_def)
  moreover have "js_lower ''github'' = ''github''"
    by (simp add: js_lower_def lower_char_def)
  ultimately show "\<forall>x \<in> set p. js_trim x = x \<and> x \<noteq> []" "map js_lower p = p"
    using assms by (auto intro!: map_idI)
qed

lemma parse_egress_json:
  assumes "canonical_egress e"
  shows "parseProfileEgress (Some (egress_json e)) = Inr e"
proof -
  let ?r = "[(''mode'', JStr (mode_name (eg_mode e))), (''presets'', JArr (map JStr (eg_presets e))),
           (''domains'', JArr (map JStr (eg_domains e))), (''cidrs'', JArr (map JStr (eg_cidrs e)))]"
  from assms have doms: "\<forall>d \<in> set (eg_domains e). domainProblem d = None"
    and cidrs: "\<forall>c \<in> set (eg_cidrs e). canonical_cidr c"
    and presets: "set (eg_presets e) \<subseteq> {''github''}"
    by (auto simp: canonical_egress_def)
  have l1: "egress_list ?r ''presets'' = Inr (eg_presets e)"
    by (rule egress_list_json) (use github_fixed(1) [OF presets] in simp_all)
  have l2: "egress_list ?r ''domains'' = Inr (eg_domains e)"
    by (rule egress_list_json) (use normalizeDomain_fixed(1) domain_ends(1) doms in auto)
  have l3: "egress_list ?r ''cidrs'' = Inr (eg_cidrs e)"
    by (rule egress_list_json) (use canonical_cidr_trim cidrs in auto)
  have m: "egress_mode_of ?r = Some (eg_mode e)" by (cases "eg_mode e") simp_all
  have "map normalizeDomain (eg_domains e) = eg_domains e"
    using doms normalizeDomain_fixed(2) by (intro map_idI) blast
  moreover have "filter (\<lambda>d. d \<noteq> []) (eg_domains e) = eg_domains e"
    using doms domain_ends(1) by (intro filter_True) blast
  ultimately have d: "sortedUnique (filter (\<lambda>d. d \<noteq> []) (map normalizeDomain (eg_domains e))) = eg_domains e"
    using assms by (simp add: canonical_egress_def sortedUnique_fixed)
  have p: "sortedUnique (map js_lower (eg_presets e)) = eg_presets e"
    using assms by (simp add: github_fixed(2) [OF presets] canonical_egress_def sortedUnique_fixed)
  have c: "sortedUnique (eg_cidrs e) = eg_cidrs e"
    using assms by (simp add: canonical_egress_def sortedUnique_fixed)
  have "parse_egress_object ?r = check_egress (eg_mode e) (eg_presets e) (eg_domains e) (eg_cidrs e)"
    unfolding parse_egress_object_def l1 l2 l3 m normalize_cidrs_fixed [OF cidrs] sum.case option.case d p c
    by simp
  then show ?thesis
    using assms by (simp add: egress_json_def check_egress_Inr canonical_egress_def)
qed

section \<open>Evidence lemmas\<close>

lemma sameList_iff: "sameList xs ys \<longleftrightarrow> xs = ys"
  by (auto simp: sameList_def list_all_iff intro: nth_equalityI)

lemma mode_name_inject [simp]: "mode_name m = mode_name n \<longleftrightarrow> m = n"
  by (cases m; cases n) auto

lemma egressEvidenceError_None:
  "egressEvidenceError profile evidence checks = None \<longleftrightarrow>
     (case evidence of
        None \<Rightarrow> eg_mode profile = Public
      | Some ev \<Rightarrow>
          ev_profileMode ev = mode_name (eg_mode profile) \<and>
          or_else (ev_presets ev) [] = eg_presets profile \<and>
          or_else (ev_domains ev) [] = eg_domains profile \<and>
          or_else (ev_cidrs ev) [] = eg_cidrs profile \<and>
          EGRESS_RANK (eg_mode profile) \<le> egressRank (Some (ev_mode ev)) \<and>
          (eg_mode profile = Public \<or> check_passed (or_else checks []) ''egress-policy''))"
  by (cases evidence)
     (simp_all add: egressEvidenceError_def sameEgress_def sameList_iff not_less, blast)

end
