(* ===== verification/Isolation.thy ===== *)
theory Isolation
  imports Egress
begin

text \<open>
  Readiness evidence (\<open>packages/backend/convex/isolation.ts\<close>): the boundary each executor can
  provide, the completeness check of a Firecracker report, the admission of a stored row against
  its evidence row, the refusal of a self-contradicting ready report, and snapshot headroom. The
  lemmas characterise the evidence that is admitted: an absent field never counts as a successful
  measurement.
\<close>

datatype executor = Docker | Firecracker | Tart | Hyperv
datatype boundary = GuestKernel | SharedKernel
datatype readiness_state = Preparing | Ready | Degraded | ReadinessFailed

fun executor_name :: "executor \<Rightarrow> string" where
  "executor_name Docker = ''docker''"
| "executor_name Firecracker = ''firecracker''"
| "executor_name Tart = ''tart''"
| "executor_name Hyperv = ''hyperv''"

fun boundary_name :: "boundary \<Rightarrow> string" where
  "boundary_name GuestKernel = ''guest-kernel''"
| "boundary_name SharedKernel = ''shared-kernel''"

fun EXECUTOR_BOUNDARY :: "executor \<Rightarrow> boundary" where
  "EXECUTOR_BOUNDARY Docker = SharedKernel"
| "EXECUTOR_BOUNDARY Firecracker = GuestKernel"
| "EXECUTOR_BOUNDARY Tart = GuestKernel"
| "EXECUTOR_BOUNDARY Hyperv = GuestKernel"

definition isTrustedOnly :: "executor \<Rightarrow> bool" where
  "isTrustedOnly ex \<longleftrightarrow> EXECUTOR_BOUNDARY ex = SharedKernel"

record hardware_facts =
  hw_arch :: "string option"
  hw_cpus :: "js_number option"
  hw_memoryMiB :: "js_number option"
  hw_cpuModel :: "string option"
  hw_virtualization :: "string option"
  hw_kvm :: "bool option"

record storage_facts =
  st_snapshotter :: "string option"
  st_poolName :: "string option"
  st_poolTotalMiB :: "js_number option"
  st_poolFreeMiB :: "js_number option"

record network_facts =
  nw_policyName :: "string option"
  nw_policyHash :: "string option"
  nw_subnet :: "string option"
  nw_egressMode :: "string option"
  nw_egress :: "egress_evidence option"

record warm_pool =
  wp_target :: js_number
  wp_parked :: js_number
  wp_claimed :: js_number

record readiness_facts =
  rf_isolation :: "string option"
  rf_boundary :: "boundary option"
  rf_checks :: "readiness_check list option"
  rf_cacheScope :: "string option"
  rf_cacheSharedWritable :: "bool option"
  rf_hardware :: "hardware_facts option"
  rf_storage :: "storage_facts option"
  rf_network :: "network_facts option"
  rf_warmPool :: "warm_pool option"
  rf_runnerVersion :: "string option"

definition FIRECRACKER_REQUIRED_CHECKS :: "string list" where
  "FIRECRACKER_REQUIRED_CHECKS =
     [''firecracker-binary'', ''guest-kernel-image'', ''guest-kernel-arguments'', ''kvm-device'',
      ''cni-plugins'', ''cni-network-configuration'', ''job-network-policy'', ''containerd-snapshotter'',
      ''cni-address-reservations'', ''snapshot-storage-headroom'', ''cache-isolation'', ''image-release'',
      ''warm-pool'']"

text \<open>The pattern of a policy hash: \<open>sha256:\<close> and 64 lower-case hexadecimal digits.\<close>

definition is_hex :: "char \<Rightarrow> bool" where
  "is_hex c \<longleftrightarrow> is_digit c \<or> 97 \<le> code_of c \<and> code_of c \<le> 102"

definition POLICY_HASH :: "string \<Rightarrow> bool" where
  "POLICY_HASH s \<longleftrightarrow> take 7 s = ''sha256:'' \<and> length s = 71 \<and> list_all is_hex (drop 7 s)"

text \<open>\<open>value?.trim() === "" || value === undefined\<close>\<close>

definition blank :: "string option \<Rightarrow> bool" where
  "blank s = (case s of None \<Rightarrow> True | Some t \<Rightarrow> js_trim t = [])"

text \<open>\<open>facts.storage?.field\<close> and \<open>facts.network?.field\<close>\<close>

definition storage_field :: "readiness_facts \<Rightarrow> (storage_facts \<Rightarrow> 'a option) \<Rightarrow> 'a option" where
  "storage_field facts f = Option.bind (rf_storage facts) f"

definition network_field :: "readiness_facts \<Rightarrow> (network_facts \<Rightarrow> 'a option) \<Rightarrow> 'a option" where
  "network_field facts f = Option.bind (rf_network facts) f"

fun duplicate_checks :: "string list \<Rightarrow> string list \<Rightarrow> string list \<Rightarrow> string list" where
  "duplicate_checks seen dups [] = dups"
| "duplicate_checks seen dups (n # ns) =
     duplicate_checks (if n \<in> set seen then seen else seen @ [n])
       (if n \<in> set seen \<and> n \<notin> set dups then dups @ [n] else dups) ns"

definition js_lt :: "js_number \<Rightarrow> js_number \<Rightarrow> bool" where
  "js_lt m n \<longleftrightarrow> js_le m n \<and> m \<noteq> n"

definition problem_if :: "bool \<Rightarrow> string \<Rightarrow> string list" where
  "problem_if b s = (if b then [s] else [])"

definition firecracker_problems :: "readiness_facts \<Rightarrow> profile_egress \<Rightarrow> string list" where
  "firecracker_problems facts profileEgress =
     (let egressProblem = egressEvidenceError profileEgress (network_field facts nw_egress) (rf_checks facts);
          poolTotalMiB = storage_field facts st_poolTotalMiB;
          poolFreeMiB = storage_field facts st_poolFreeMiB;
          checks = or_else (rf_checks facts) [];
          checkNames = map rc_name checks;
          duplicateChecks = duplicate_checks [] [] checkNames;
          failedChecks = map rc_name (filter (\<lambda>c. \<not> rc_passed c) checks);
          missingChecks = filter (\<lambda>n. n \<notin> set checkNames) FIRECRACKER_REQUIRED_CHECKS
      in (case egressProblem of None \<Rightarrow> [] | Some p \<Rightarrow> [p]) @
         problem_if (rf_isolation facts \<noteq> Some ''firecracker-microvm'') ''isolation must be firecracker-microvm'' @
         problem_if (rf_boundary facts \<noteq> Some GuestKernel) ''boundary must be guest-kernel'' @
         problem_if (Option.bind (rf_hardware facts) hw_kvm \<noteq> Some True) ''hardware.kvm must be true'' @
         problem_if (storage_field facts st_snapshotter \<noteq> Some ''devmapper'')
           ''storage.snapshotter must be devmapper'' @
         problem_if (blank (storage_field facts st_poolName)) ''storage.poolName is required'' @
         problem_if (case poolTotalMiB of None \<Rightarrow> True | Some t \<Rightarrow> \<not> is_safe_integer t \<or> js_le t (js_int 0))
           ''storage.poolTotalMiB must be a positive integer'' @
         problem_if (case poolFreeMiB of None \<Rightarrow> True
                     | Some f \<Rightarrow> \<not> is_safe_integer f \<or> js_le f (js_int 0) \<or>
                         (case poolTotalMiB of None \<Rightarrow> False | Some t \<Rightarrow> js_lt t f))
           ''storage.poolFreeMiB must be positive headroom within the pool'' @
         problem_if (blank (network_field facts nw_policyName)) ''network.policyName is required'' @
         problem_if (\<not> POLICY_HASH (or_else (network_field facts nw_policyHash) []))
           ''network.policyHash must be an exact sha256 identity'' @
         problem_if (blank (network_field facts nw_subnet)) ''network.subnet is required'' @
         problem_if (egressRank (network_field facts nw_egressMode) < 0)
           ''network.egressMode must be public, audit or allowlist'' @
         problem_if (rf_cacheScope facts \<noteq> Some ''immutable-image'') ''cacheScope must be immutable-image'' @
         problem_if (rf_cacheSharedWritable facts \<noteq> Some False) ''cacheSharedWritable must be false'' @
         problem_if (length failedChecks > 0) (''checks must pass: '' @ js_join '', '' failedChecks) @
         problem_if (length duplicateChecks > 0) (''checks must be unique: '' @ js_join '', '' duplicateChecks) @
         problem_if (length missingChecks > 0)
           (''required checks are missing: '' @ js_join '', '' missingChecks))"

definition firecrackerReadinessError :: "readiness_facts \<Rightarrow> profile_egress \<Rightarrow> string option" where
  "firecrackerReadinessError facts profileEgress =
     (let problems = firecracker_problems facts profileEgress
      in if length problems = 0 then None else Some (js_join ''; '' problems))"

section \<open>Admission of a stored row\<close>

text \<open>The fields shared by a row of \<open>workerReadiness\<close> and one of \<open>readinessEvidence\<close>.\<close>

record readiness_row =
  rr_machineId :: nat
  rr_profile :: string
  rr_executor :: executor
  rr_imageRelease :: string
  rr_vcpus :: "int option"
  rr_memoryMiB :: "int option"
  rr_checkedAt :: int
  rr_facts :: readiness_facts

definition exact_current_evidence ::
  "('a) readiness_row_scheme \<Rightarrow> ('b) readiness_row_scheme \<Rightarrow> bool" where
  "exact_current_evidence evidence readiness \<longleftrightarrow>
     rr_machineId evidence = rr_machineId readiness \<and> rr_profile evidence = rr_profile readiness \<and>
     rr_executor evidence = rr_executor readiness \<and> rr_imageRelease evidence = rr_imageRelease readiness \<and>
     rr_vcpus evidence = rr_vcpus readiness \<and> rr_memoryMiB evidence = rr_memoryMiB readiness \<and>
     rr_checkedAt evidence = rr_checkedAt readiness"

definition readinessAdmissionError ::
  "('a) readiness_row_scheme \<Rightarrow> ('b) readiness_row_scheme option \<Rightarrow> profile_egress \<Rightarrow> string option" where
  "readinessAdmissionError readiness evidence profileEgress =
     (if rr_executor readiness \<noteq> Firecracker then None
      else
        let incomplete = (\<lambda>facts. map_option
              (\<lambda>problem. ''Firecracker readiness evidence is incomplete: '' @ problem)
              (firecrackerReadinessError facts profileEgress))
        in case evidence of
             None \<Rightarrow> incomplete (rr_facts readiness)
           | Some ev \<Rightarrow>
               if \<not> exact_current_evidence ev readiness
               then Some ''current readinessEvidence does not match this Worker, Profile contract, and checkedAt''
               else incomplete (rr_facts ev))"

definition warm_pool_ok :: "warm_pool \<Rightarrow> bool" where
  "warm_pool_ok w \<longleftrightarrow>
     is_safe_integer (wp_target w) \<and> is_safe_integer (wp_parked w) \<and> is_safe_integer (wp_claimed w) \<and>
     \<not> num_val (wp_target w) < 0 \<and> \<not> num_val (wp_parked w) < 0 \<and> \<not> num_val (wp_claimed w) < 0 \<and>
     num_val (wp_parked w) + num_val (wp_claimed w) = num_val (wp_target w)"

definition assertReadinessContract ::
  "readiness_state \<Rightarrow> executor \<Rightarrow> readiness_facts \<Rightarrow> profile_egress \<Rightarrow> unit res" where
  "assertReadinessContract state ex facts profileEgress =
     (if state \<noteq> Ready then Inr ()
      else
        let checks = or_else (rf_checks facts) [];
            failed = filter (\<lambda>c. \<not> rc_passed c) checks;
            expected = EXECUTOR_BOUNDARY ex
        in throw_if (length failed > 0)
             (ConvexError (''A Worker cannot be ready with failing checks: '' @ js_join '', '' (map rc_name failed)))
          (throw_if (length checks = 0 \<and> rf_boundary facts \<noteq> None)
             (ConvexError ''A Worker reporting an isolation boundary must report its checks'')
          (throw_if (rf_boundary facts \<noteq> None \<and> rf_boundary facts \<noteq> Some expected)
             (ConvexError (''The '' @ executor_name ex @ '' executor provides a '' @ boundary_name expected @
                '' boundary; a Worker cannot report '' @
                (case rf_boundary facts of None \<Rightarrow> ''undefined'' | Some b \<Rightarrow> boundary_name b)))
          (throw_if (rf_cacheSharedWritable facts = Some True)
             (ConvexError ''A Worker sharing writable storage between Jobs cannot be ready: that is a cross-job path'')
          (res_bind
             (if ex = Firecracker
              then (case firecrackerReadinessError facts profileEgress of
                      None \<Rightarrow> Inr ()
                    | Some problem \<Rightarrow>
                        Inl (ConvexError (''Firecracker readiness evidence is incomplete: '' @ problem)))
              else Inr ())
             (\<lambda>_. throw_if (case rf_warmPool facts of None \<Rightarrow> False | Some w \<Rightarrow> \<not> warm_pool_ok w)
                (ConvexError ''A ready warm pool must report target = parked + claimed'') (Inr ())))))))"

section \<open>Snapshot headroom\<close>

definition SNAPSHOT_RESERVE_MIB :: int where
  "SNAPSHOT_RESERVE_MIB = 8 * 1024"

definition hasSnapshotHeadroom :: "storage_facts option \<Rightarrow> int \<Rightarrow> bool" where
  "hasSnapshotHeadroom storage concurrentAttempts =
     (case Option.bind storage st_poolFreeMiB of
        None \<Rightarrow> True
      | Some free \<Rightarrow> js_le (js_int (SNAPSHOT_RESERVE_MIB * (concurrentAttempts + 1))) free)"

definition hasSnapshotHeadroomForGuests :: "storage_facts option \<Rightarrow> int \<Rightarrow> bool" where
  "hasSnapshotHeadroomForGuests storage guests =
     (case Option.bind storage st_poolFreeMiB of
        None \<Rightarrow> True
      | Some free \<Rightarrow> js_le (js_int (SNAPSHOT_RESERVE_MIB * guests)) free)"

section \<open>Lemmas\<close>

lemma problem_if_Nil [simp]: "problem_if b s = [] \<longleftrightarrow> \<not> b"
  by (simp add: problem_if_def)

lemma duplicate_checks_grows: "set dups \<subseteq> set (duplicate_checks seen dups ns)"
  by (induction seen dups ns rule: duplicate_checks.induct) (auto split: if_splits)

lemma duplicate_checks_Nil:
  "duplicate_checks seen dups ns = [] \<longleftrightarrow> dups = [] \<and> distinct ns \<and> set seen \<inter> set ns = {}"
proof (induction seen dups ns rule: duplicate_checks.induct)
  case (2 seen dups n ns)
  then show ?case by (cases "n \<in> set seen"; cases "n \<in> set dups") auto
qed simp

text \<open>The evidence of a Firecracker Worker that is complete.\<close>

definition firecracker_evidence :: "readiness_facts \<Rightarrow> bool" where
  "firecracker_evidence facts \<longleftrightarrow>
     rf_isolation facts = Some ''firecracker-microvm'' \<and>
     rf_boundary facts = Some GuestKernel \<and>
     (\<exists>hw. rf_hardware facts = Some hw \<and> hw_kvm hw = Some True) \<and>
     (\<exists>st total free. rf_storage facts = Some st \<and> st_snapshotter st = Some ''devmapper'' \<and>
        \<not> blank (st_poolName st) \<and> st_poolTotalMiB st = Some (js_int total) \<and>
        st_poolFreeMiB st = Some (js_int free) \<and> 0 < free \<and> free \<le> total) \<and>
     (\<exists>nw hash. rf_network facts = Some nw \<and> \<not> blank (nw_policyName nw) \<and>
        nw_policyHash nw = Some hash \<and> POLICY_HASH hash \<and> \<not> blank (nw_subnet nw) \<and>
        nw_egressMode nw \<in> {Some ''public'', Some ''audit'', Some ''allowlist''}) \<and>
     rf_cacheScope facts = Some ''immutable-image'' \<and>
     rf_cacheSharedWritable facts = Some False \<and>
     (\<exists>checks. rf_checks facts = Some checks \<and> list_all rc_passed checks \<and>
        distinct (map rc_name checks) \<and> set FIRECRACKER_REQUIRED_CHECKS \<subseteq> set (map rc_name checks))"

lemma safe_integer_js_int:
  assumes "is_safe_integer n"
  shows "\<exists>i. n = js_int i"
  using assms by (cases n) (auto simp: is_safe_integer_def js_int_def intro!: exI [of _ "\<lfloor>_\<rfloor>"])

lemma js_int_inject [simp]: "js_int i = js_int j \<longleftrightarrow> i = j"
  by (simp add: js_int_def)

lemma js_le_js_int [simp]: "js_le (js_int i) (js_int j) \<longleftrightarrow> i \<le> j"
  by (simp add: js_int_def)

lemma js_lt_js_int [simp]: "js_lt (js_int i) (js_int j) \<longleftrightarrow> i < j"
  by (auto simp: js_lt_def js_int_def)

lemma egressRank_nonneg:
  "0 \<le> egressRank m \<longleftrightarrow> m \<in> {Some ''public'', Some ''audit'', Some ''allowlist''}"
  by (auto simp: egressRank_def)

lemma not_blank_Some: "\<not> blank s \<Longrightarrow> \<exists>t. s = Some t \<and> js_trim t \<noteq> []"
  by (auto simp: blank_def split: option.splits)

lemma POLICY_HASH_Nil [simp]: "\<not> POLICY_HASH []"
  by (simp add: POLICY_HASH_def)

lemma pool_facts_ok:
  assumes "\<not> (case t of None \<Rightarrow> True | Some t \<Rightarrow> \<not> is_safe_integer t \<or> js_le t (js_int 0))"
    and "\<not> (case f of None \<Rightarrow> True
            | Some f \<Rightarrow> \<not> is_safe_integer f \<or> js_le f (js_int 0) \<or>
                (case t of None \<Rightarrow> False | Some t \<Rightarrow> js_lt t f))"
  shows "\<exists>total free. t = Some (js_int total) \<and> f = Some (js_int free) \<and> 0 < free \<and> free \<le> total"
proof -
  from assms obtain t' f' where tf: "t = Some t'" "f = Some f'" by (cases t; cases f) auto
  then have "is_safe_integer t'" "is_safe_integer f'" using assms by auto
  then obtain i j where "t' = js_int i" "f' = js_int j" using safe_integer_js_int by blast
  then show ?thesis using assms tf by auto
qed

lemma firecracker_problems_Nil:
  assumes "firecracker_problems facts egress = []"
  shows "firecracker_evidence facts" and
    "egressEvidenceError egress (network_field facts nw_egress) (rf_checks facts) = None"
proof -
  note p = assms [unfolded firecracker_problems_def Let_def append_is_Nil_conv problem_if_Nil]
  from p show "egressEvidenceError egress (network_field facts nw_egress) (rf_checks facts) = None"
    by (simp split: option.splits)
  from p have pool: "\<exists>total free. storage_field facts st_poolTotalMiB = Some (js_int total) \<and>
      storage_field facts st_poolFreeMiB = Some (js_int free) \<and> 0 < free \<and> free \<le> total"
    by (intro pool_facts_ok) blast+
  from p have rank: "0 \<le> egressRank (network_field facts nw_egressMode)"
    by (simp add: not_less)
  from p have req: "set FIRECRACKER_REQUIRED_CHECKS \<subseteq> set (map rc_name (or_else (rf_checks facts) []))"
    by (simp add: filter_empty_conv subset_iff)
  then have "rf_checks facts \<noteq> None"
    by (cases "rf_checks facts") (auto simp: FIRECRACKER_REQUIRED_CHECKS_def)
  then obtain checks where checks: "rf_checks facts = Some checks" by blast
  moreover have "list_all rc_passed checks" "distinct (map rc_name checks)"
    "set FIRECRACKER_REQUIRED_CHECKS \<subseteq> set (map rc_name checks)"
    using p req by (simp_all add: checks list_all_iff filter_empty_conv duplicate_checks_Nil)
  moreover from p obtain hw where "rf_hardware facts = Some hw" "hw_kvm hw = Some True"
    by (auto simp: bind_eq_Some_conv)
  moreover from p obtain st where st: "rf_storage facts = Some st" "st_snapshotter st = Some ''devmapper''"
    "\<not> blank (st_poolName st)"
    by (auto simp: storage_field_def bind_eq_Some_conv)
  moreover from rank obtain nw where nw: "rf_network facts = Some nw"
    by (auto simp: network_field_def egressRank_nonneg bind_eq_Some_conv)
  moreover from p nw obtain hash where "nw_policyHash nw = Some hash" "POLICY_HASH hash"
    by (cases "nw_policyHash nw") (auto simp: network_field_def)
  moreover have "\<not> blank (nw_policyName nw)" "\<not> blank (nw_subnet nw)"
    using p nw by (simp_all add: network_field_def)
  moreover have "nw_egressMode nw \<in> {Some ''public'', Some ''audit'', Some ''allowlist''}"
    using rank nw by (simp only: egressRank_nonneg network_field_def bind.simps)
  moreover from pool st(1) have "\<exists>total free. st_poolTotalMiB st = Some (js_int total) \<and>
      st_poolFreeMiB st = Some (js_int free) \<and> 0 < free \<and> free \<le> total"
    by (simp add: storage_field_def)
  ultimately show "firecracker_evidence facts"
    unfolding firecracker_evidence_def using p by blast
qed

lemma firecrackerReadinessError_None:
  assumes "firecrackerReadinessError facts egress = None"
  shows "firecracker_evidence facts" and
    "egressEvidenceError egress (network_field facts nw_egress) (rf_checks facts) = None"
  using assms firecracker_problems_Nil [of facts egress]
  by (auto simp: firecrackerReadinessError_def Let_def split: if_splits)

lemma assertReadinessContract_ready:
  assumes "assertReadinessContract Ready ex facts egress = Inr ()"
  shows "list_all rc_passed (or_else (rf_checks facts) [])"
    "rf_boundary facts \<in> {None, Some (EXECUTOR_BOUNDARY ex)}"
    "rf_cacheSharedWritable facts \<noteq> Some True"
    "ex = Firecracker \<Longrightarrow> firecrackerReadinessError facts egress = None"
  using assms unfolding assertReadinessContract_def Let_def
  by (auto simp: res_simps list_all_iff filter_empty_conv split: option.splits if_splits)

end
