(* ===== verification/Convex_Table.thy ===== *)
theory Convex_Table
  imports Prelude
begin

text \<open>
  The document store the control plane runs on. A table holds its documents in creation order,
  which is the order an index whose every column is fixed by \<open>eq\<close> yields them in. A mutation is
  a serializable transaction, so a handler is a function of the tables it found.

  The locale \<open>doc_table\<close> is the interface the handlers rely on: what \<open>get\<close> returns after a
  \<open>patch\<close>, an \<open>insert\<close> or a \<open>delete\<close>, and which documents exist. Its lemmas say how these
  operations change the number of documents with a property, which is what slot accounting needs.
  Document ids are chosen by the store, so an insert takes its id as an argument.
\<close>

type_synonym 'r docs = "(nat \<times> 'r) list"

section \<open>The operations of \<open>ctx.db\<close>\<close>

definition db_get :: "'r docs \<Rightarrow> nat \<Rightarrow> 'r option" where
  "db_get t i = map_of t i"

definition db_patch :: "'r docs \<Rightarrow> nat \<Rightarrow> ('r \<Rightarrow> 'r) \<Rightarrow> 'r docs" where
  "db_patch t i f = map (\<lambda>(k, r). (k, if k = i then f r else r)) t"

definition db_insert :: "'r docs \<Rightarrow> nat \<Rightarrow> 'r \<Rightarrow> 'r docs" where
  "db_insert t i r = t @ [(i, r)]"

definition db_delete :: "'r docs \<Rightarrow> nat \<Rightarrow> 'r docs" where
  "db_delete t i = filter (\<lambda>d. fst d \<noteq> i) t"

definition db_ids :: "'r docs \<Rightarrow> nat list" where
  "db_ids t = map fst t"

definition db_wf :: "'r docs \<Rightarrow> bool" where
  "db_wf t \<longleftrightarrow> distinct (map fst t)"

text \<open>An index range fixed by \<open>eq\<close>, collected.\<close>

definition db_query :: "('r \<Rightarrow> bool) \<Rightarrow> 'r docs \<Rightarrow> 'r docs" where
  "db_query P t = filter (\<lambda>d. P (snd d)) t"

text \<open>\<open>.unique()\<close>: no document, the one document, or an error. \<open>.first()\<close>: the oldest one.\<close>

definition db_unique :: "'r docs \<Rightarrow> (nat \<times> 'r) option res" where
  "db_unique ds = (case ds of [] \<Rightarrow> Inr None | [d] \<Rightarrow> Inr (Some d) | _ \<Rightarrow> Inl NotUnique)"

definition db_first :: "'r docs \<Rightarrow> (nat \<times> 'r) option" where
  "db_first ds = (case ds of [] \<Rightarrow> None | d # _ \<Rightarrow> Some d)"

text \<open>How many of the documents \<open>g\<close> finds under the ids \<open>is\<close> have the property.\<close>

definition count_docs :: "(nat \<Rightarrow> 'r option) \<Rightarrow> nat list \<Rightarrow> ('r \<Rightarrow> bool) \<Rightarrow> nat" where
  "count_docs g is P = length (filter (\<lambda>i. case g i of None \<Rightarrow> False | Some r \<Rightarrow> P r) is)"

abbreviation count_rows :: "'r docs \<Rightarrow> ('r \<Rightarrow> bool) \<Rightarrow> nat" where
  "count_rows t \<equiv> count_docs (db_get t) (db_ids t)"

section \<open>The interface\<close>

locale doc_table =
  fixes get :: "'t \<Rightarrow> nat \<Rightarrow> 'r option"
    and patch :: "'t \<Rightarrow> nat \<Rightarrow> ('r \<Rightarrow> 'r) \<Rightarrow> 't"
    and add :: "'t \<Rightarrow> nat \<Rightarrow> 'r \<Rightarrow> 't"
    and del :: "'t \<Rightarrow> nat \<Rightarrow> 't"
    and ids :: "'t \<Rightarrow> nat list"
    and wf :: "'t \<Rightarrow> bool"
  assumes get_patch: "get (patch t i f) j = (if j = i then map_option f (get t i) else get t j)"
    and get_add: "i \<notin> set (ids t) \<Longrightarrow> get (add t i r) j = (if j = i then Some r else get t j)"
    and get_del: "get (del t i) j = (if j = i then None else get t j)"
    and ids_patch: "ids (patch t i f) = ids t"
    and ids_add: "ids (add t i r) = ids t @ [i]"
    and ids_del: "ids (del t i) = filter (\<lambda>j. j \<noteq> i) (ids t)"
    and get_ids: "get t i \<noteq> None \<longleftrightarrow> i \<in> set (ids t)"
    and wf_ids: "wf t \<longleftrightarrow> distinct (ids t)"
begin

lemma wf_patch: "wf t \<Longrightarrow> wf (patch t i f)"
  by (simp add: wf_ids ids_patch)

lemma wf_add: "wf t \<Longrightarrow> i \<notin> set (ids t) \<Longrightarrow> wf (add t i r)"
  by (simp add: wf_ids ids_add)

lemma wf_del: "wf t \<Longrightarrow> wf (del t i)"
  by (simp add: wf_ids ids_del)

lemma get_some_id: "get t i = Some r \<Longrightarrow> i \<in> set (ids t)"
  using get_ids [of t i] by simp

abbreviation count :: "'t \<Rightarrow> ('r \<Rightarrow> bool) \<Rightarrow> nat" where
  "count t \<equiv> count_docs (get t) (ids t)"

text \<open>Counting the ids other than \<open>i\<close>, and \<open>i\<close> itself.\<close>

lemma count_split:
  assumes "wf t" "get t i = Some r"
  shows "count t P =
    count_docs (get t) (filter (\<lambda>j. j \<noteq> i) (ids t)) P + (if P r then 1 else 0)"
proof -
  have d: "distinct (ids t)" and i: "i \<in> set (ids t)"
    using assms get_some_id by (auto simp: wf_ids)
  obtain xs ys where s: "ids t = xs @ i # ys" "i \<notin> set xs" "i \<notin> set ys"
    using d i by (metis distinct.simps(2) distinct_append split_list_first)
  have "filter (\<lambda>j. j \<noteq> i) xs = xs" "filter (\<lambda>j. j \<noteq> i) ys = ys"
    using s by (auto intro!: filter_True)
  with s assms(2) show ?thesis by (simp add: count_docs_def)
qed

lemma count_others:
  assumes "\<And>j. j \<noteq> i \<Longrightarrow> g j = h j"
  shows "count_docs g (filter (\<lambda>j. j \<noteq> i) is) P = count_docs h (filter (\<lambda>j. j \<noteq> i) is) P"
  unfolding count_docs_def filter_filter
  by (rule arg_cong [where f = length], rule filter_cong) (auto simp: assms)

lemma count_patch:
  assumes "wf t" "get t i = Some r"
  shows "count (patch t i f) P + (if P r then 1 else 0) = count t P + (if P (f r) then 1 else 0)"
proof -
  have g: "get (patch t i f) i = Some (f r)" using assms by (simp add: get_patch)
  have "count_docs (get (patch t i f)) (filter (\<lambda>j. j \<noteq> i) (ids t)) P =
        count_docs (get t) (filter (\<lambda>j. j \<noteq> i) (ids t)) P"
    by (rule count_others) (simp add: get_patch)
  then show ?thesis
    using count_split [OF wf_patch [OF assms(1)] g] count_split [OF assms]
    by (simp add: ids_patch)
qed

lemma count_patch_same:
  assumes "wf t" "\<And>r. get t i = Some r \<Longrightarrow> P (f r) = P r"
  shows "count (patch t i f) P = count t P"
proof (cases "get t i")
  case None
  then have "get (patch t i f) = get t" by (auto simp: get_patch)
  then show ?thesis by (simp add: ids_patch)
next
  case (Some r)
  with count_patch [OF assms(1) Some, of f P] assms(2) show ?thesis by simp
qed

lemma count_add:
  assumes "i \<notin> set (ids t)"
  shows "count (add t i r) P = count t P + (if P r then 1 else 0)"
proof -
  have "filter (\<lambda>j. case get (add t i r) j of None \<Rightarrow> False | Some r \<Rightarrow> P r) (ids t) =
        filter (\<lambda>j. case get t j of None \<Rightarrow> False | Some r \<Rightarrow> P r) (ids t)"
    by (rule filter_cong) (use assms in \<open>auto simp: get_add\<close>)
  then show ?thesis using assms by (simp add: count_docs_def ids_add get_add)
qed

lemma count_del:
  assumes "wf t" "get t i = Some r"
  shows "count (del t i) P + (if P r then 1 else 0) = count t P"
proof -
  have "count_docs (get (del t i)) (filter (\<lambda>j. j \<noteq> i) (ids t)) P =
        count_docs (get t) (filter (\<lambda>j. j \<noteq> i) (ids t)) P"
    by (rule count_others) (simp add: get_del)
  then show ?thesis using count_split [OF assms, of P] by (simp add: ids_del)
qed

lemma count_del_none: "get t i = None \<Longrightarrow> count (del t i) P = count t P"
proof -
  assume none: "get t i = None"
  then have "i \<notin> set (ids t)" using get_ids [of t i] by simp
  then have "filter (\<lambda>j. j \<noteq> i) (ids t) = ids t" by (auto intro!: filter_True)
  moreover have "get (del t i) = get t" using none by (auto simp: get_del)
  ultimately show ?thesis by (simp add: ids_del)
qed

end

text \<open>The list-backed table keeps the laws.\<close>

lemma map_of_db_patch:
  "map_of (db_patch t i f) j = (if j = i then map_option f (map_of t i) else map_of t j)"
  by (induction t) (auto simp: db_patch_def)

lemma map_of_db_delete: "map_of (db_delete t i) j = (if j = i then None else map_of t j)"
  by (induction t) (auto simp: db_delete_def)

lemma fst_db_patch: "map fst (db_patch t i f) = map fst t"
  by (auto simp: db_patch_def)

lemma fst_db_delete: "map fst (db_delete t i) = filter (\<lambda>j. j \<noteq> i) (map fst t)"
  by (simp add: db_delete_def filter_map comp_def)

interpretation tb: doc_table db_get db_patch db_insert db_delete db_ids db_wf
proof (standard, goal_cases)
  case (1 t i f j) show ?case by (simp add: db_get_def map_of_db_patch)
next
  case (2 i t r j)
  then have "map_of t i = None" by (simp add: db_ids_def map_of_eq_None_iff)
  then show ?case by (cases "map_of t j") (auto simp: db_get_def db_insert_def map_add_def)
next
  case (3 t i j) show ?case by (simp add: db_get_def map_of_db_delete)
next
  case (4 t i f) show ?case by (simp add: db_ids_def fst_db_patch)
next
  case (5 t i r) show ?case by (simp add: db_ids_def db_insert_def)
next
  case (6 t i) show ?case by (simp add: db_ids_def fst_db_delete)
next
  case (7 t i) show ?case by (simp add: db_get_def db_ids_def map_of_eq_None_iff)
next
  case (8 t) show ?case by (simp add: db_wf_def db_ids_def)
qed

lemmas db_get_simps [simp] = tb.get_patch tb.get_del
lemmas db_ids_simps [simp] = tb.ids_patch tb.ids_add tb.ids_del
lemmas db_wf_intros [simp, intro] = tb.wf_patch tb.wf_del

section \<open>Queries\<close>

lemma db_query_iff: "(i, r) \<in> set (db_query P t) \<longleftrightarrow> (i, r) \<in> set t \<and> P r"
  by (auto simp: db_query_def)

lemma db_wf_get_iff: "db_wf t \<Longrightarrow> db_get t i = Some r \<longleftrightarrow> (i, r) \<in> set t"
  by (simp add: db_get_def db_wf_def map_of_eq_Some_iff)

lemma db_get_in_set: "db_get t i = Some r \<Longrightarrow> (i, r) \<in> set t"
  by (simp add: db_get_def map_of_SomeD)

lemma db_unique_Some:
  "db_unique ds = Inr (Some d) \<longleftrightarrow> ds = [d]"
  by (auto simp: db_unique_def split: list.splits)

lemma db_unique_None: "db_unique ds = Inr None \<longleftrightarrow> ds = []"
  by (auto simp: db_unique_def split: list.splits)

lemma db_unique_query_Some:
  assumes "db_wf t" "db_unique (db_query P t) = Inr (Some (i, r))"
  shows "db_get t i = Some r" and "P r"
proof -
  from assms(2) have "(i, r) \<in> set (db_query P t)" by (simp add: db_unique_Some)
  then have "(i, r) \<in> set t" "P r" by (auto simp: db_query_iff)
  with assms(1) show "db_get t i = Some r" "P r" by (auto simp: db_wf_get_iff)
qed

lemma db_unique_query_None:
  assumes "db_unique (db_query P t) = Inr None" "db_get t i = Some r"
  shows "\<not> P r"
  using assms db_get_in_set [OF assms(2)]
  by (force simp: db_unique_None db_query_def filter_empty_conv)

text \<open>Counting over the documents themselves.\<close>

lemma count_docs_filter:
  assumes "db_wf t"
  shows "count_docs (db_get t) (db_ids t) P = length (db_query P t)"
proof -
  have in_t: "db_get t (fst d) = Some (snd d)" if "d \<in> set t" for d
    using assms that by (simp add: db_wf_get_iff)
  have *: "filter (\<lambda>i. case db_get t i of None \<Rightarrow> False | Some r \<Rightarrow> P r) (map fst t) =
        map fst (filter (\<lambda>d. P (snd d)) t)"
    unfolding filter_map
    by (rule arg_cong [where f = "map fst"], rule filter_cong) (simp_all add: in_t)
  show ?thesis by (simp add: count_docs_def db_ids_def db_query_def *)
qed

end
