(* ===== verification/Schema.thy ===== *)
theory Schema
  imports Convex_Table Benchmark Isolation
begin

text \<open>
  The tables of the control plane (\<open>packages/backend/convex/schema.ts\<close>) that the modelled mutations
  read or write, one record per row type, and the database as a record of tables. \<open>d_nextId\<close> is the
  source of new document ids and \<open>d_scheduled\<close> lists the functions a mutation has asked
  \<open>ctx.scheduler\<close> to run, the newest last. The \<open>_creationTime\<close> of a row is a field where the code
  reads it. A mutation is a function of this record; a mutation that throws returns the error and
  leaves no trace, as a Convex transaction does.
\<close>

section \<open>Rows\<close>

datatype slot_policy = AutoSlots | FixedSlots

record machine =
  mc_name :: string
  mc_os :: os
  mc_labels :: "string list"
  mc_arch :: "string option"
  mc_cpus :: "int option"
  mc_memoryMiB :: "int option"
  mc_slotPolicy :: "slot_policy option"
  mc_configuredSlots :: "int option"
  mc_resourceRecommendedSlots :: "int option"
  mc_recommendedSlots :: "int option"
  mc_benchmark :: "machine_benchmark option"
  mc_maxSlots :: int
  mc_usedSlots :: int
  mc_lastSeen :: int
  mc_token :: string

datatype profile_state = Active | Paused

record profile =
  pf_name :: string
  pf_scaleSetName :: string
  pf_executor :: executor
  pf_imageRelease :: string
  pf_vcpus :: int
  pf_memoryMiB :: int
  pf_warmPool :: "int option"
  pf_fitPolicy :: "fit_policy option"
  pf_minRunners :: int
  pf_maxRunners :: int
  pf_egress :: "profile_egress option"
  pf_githubConfigUrl :: "string option"
  pf_githubCacheFacts :: "bool option"
  pf_runnerGroup :: "string option"
  pf_labels :: "string list option"
  pf_workerLabels :: "string list option"
  pf_state :: profile_state
  pf_updatedAt :: int

datatype lease_credential = ControllerToken | MachineCredential

record lease_holder =
  lh_credential :: lease_credential
  lh_machineId :: "nat option"
  lh_hostname :: string
  lh_instance :: string

record controller_lease =
  cl_profile :: string
  cl_epoch :: int
  cl_holder :: "lease_holder option"
  cl_acquiredAt :: "int option"
  cl_renewedAt :: "int option"
  cl_expiresAt :: int

datatype session_state = Starting | Standby | Listening | Conflict | Stopped
datatype lease_role = HolderRole | StandbyRole
datatype token_slot = CurrentSlot | NextSlot | MachineSlot

record controller_heartbeat =
  hb_profile :: string
  hb_reporter :: "string option"
  hb_hostname :: string
  hb_version :: string
  hb_scaleSetId :: "int option"
  hb_sessionState :: session_state
  hb_leaseRole :: "lease_role option"
  hb_leaseEpoch :: "int option"
  hb_lastMessageAt :: "int option"
  hb_startedAt :: "int option"
  hb_assignedJobs :: int
  hb_runningJobs :: int
  hb_lastError :: "string option"
  hb_tokenSlot :: token_slot
  hb_firstSeenAt :: int
  hb_receivedAt :: int
  hb_lastListeningAt :: "int option"

datatype job_status = JobQueued | JobAssigned | JobRunning | JobDone | JobFailed

record job =
  jb_ghJobId :: int
  jb_githubInstallationId :: "int option"
  jb_repo :: string
  jb_workflowName :: string
  jb_labels :: "string list"
  jb_status :: job_status
  jb_machineId :: "nat option"
  jb_runnerName :: "string option"
  jb_queuedAt :: int
  jb_startedAt :: "int option"
  jb_finishedAt :: "int option"
  jb_conclusion :: "string option"
  jb_attempts :: "int option"
  jb_lastError :: "string option"
  jb_nextAttemptAt :: "int option"
  jb_lastFailedMachineId :: "nat option"
  jb_creationTime :: int

datatype command_status = CmdPending | CmdClaimed | CmdCancelled | CmdFinished

record command =
  cm_machineId :: nat
  cm_jobId :: nat
  cm_jitConfig :: "string option"
  cm_image :: "string option"
  cm_runnerName :: string
  cm_runnerId :: "int option"
  cm_status :: command_status
  cm_claimedAt :: "int option"
  cm_cancelledAt :: "int option"
  cm_exitCode :: "int option"
  cm_creationTime :: int

record runner_deletion =
  rd_repo :: string
  rd_githubInstallationId :: "int option"
  rd_runnerId :: int
  rd_runnerName :: string
  rd_createdAt :: int
  rd_attempts :: int
  rd_lastError :: "string option"

datatype attempt_state =
  APending | APreparing | AReady | ARunning | ACompleted | ACancelled | AFailed

datatype retirement_outcome = RetireCancelled | RetireFailed

record retirement =
  rt_outcome :: retirement_outcome
  rt_reason :: string
  rt_requestedAt :: int

text \<open>What a JobStarted message says of the job; every field of it is a field of the row.\<close>

record job_metadata =
  jm_runnerRequestId :: "string option"
  jm_repo :: "string option"
  jm_owner :: "string option"
  jm_jobId :: "string option"
  jm_workflowRef :: "string option"
  jm_headBranch :: "string option"
  jm_displayName :: "string option"
  jm_workflowRunId :: "int option"
  jm_eventName :: "string option"
  jm_queueTime :: "int option"
  jm_assignedAt :: "int option"
  jm_runnerAssignedAt :: "int option"

definition no_metadata :: job_metadata where
  "no_metadata =
     \<lparr>jm_runnerRequestId = None, jm_repo = None, jm_owner = None, jm_jobId = None,
      jm_workflowRef = None, jm_headBranch = None, jm_displayName = None, jm_workflowRunId = None,
      jm_eventName = None, jm_queueTime = None, jm_assignedAt = None, jm_runnerAssignedAt = None\<rparr>"

record attempt =
  at_profile :: string
  at_executor :: executor
  at_imageRelease :: string
  at_vcpus :: int
  at_memoryMiB :: int
  at_runnerName :: string
  at_runnerId :: int
  at_state :: attempt_state
  at_machineId :: "nat option"
  at_selectionReason :: "string option"
  at_jitConfig :: "string option"
  at_createdAt :: int
  at_claimedAt :: "int option"
  at_readyAt :: "int option"
  at_startedAt :: "int option"
  at_finishedAt :: "int option"
  at_executorFinishedAt :: "int option"
  at_executorExitCode :: "int option"
  at_job :: job_metadata
  at_result :: "string option"
  at_lastError :: "string option"
  at_cancelReason :: "string option"
  at_runnerCleanupPending :: "bool option"
  at_retirement :: "retirement option"

record attempt_secret =
  as_attemptId :: nat
  as_jitConfig :: string
  as_createdAt :: int

record attempt_egress =
  ae_attemptId :: nat
  ae_machineId :: nat
  ae_profile :: string
  ae_recordedAt :: int
  ae_record :: egress_record

datatype experiment_state =
  EQueued | EPreparing | ERunning | ECompleted | ECancelled | EFailed

record experiment_row =
  ex_name :: string
  ex_profile :: string
  ex_imageRelease :: string
  ex_vcpus :: int
  ex_memoryMiB :: int
  ex_command :: "string list"
  ex_timeoutSeconds :: int
  ex_state :: experiment_state
  ex_machineId :: "nat option"
  ex_selectionReason :: "string option"
  ex_createdBy :: string
  ex_createdAt :: int
  ex_claimedAt :: "int option"
  ex_startedAt :: "int option"
  ex_finishedAt :: "int option"
  ex_exitCode :: "int option"
  ex_lastError :: "string option"

record worker_readiness = readiness_row +
  wr_state :: readiness_state
  wr_preparedAt :: "int option"
  wr_statusDetail :: "string option"
  wr_lastError :: "string option"

record readiness_evidence = readiness_row +
  re_statusDetail :: "string option"
  re_lastError :: "string option"

record benchmark_evidence =
  be_machineId :: nat
  be_benchmark :: stored_benchmark

record registration_token =
  rk_token :: string
  rk_createdAt :: int
  rk_usedAt :: "int option"

datatype workflow_action = ActQueued | ActInProgress | ActCompleted

record workflow_job =
  wj_action :: workflow_action
  wj_ghJobId :: int
  wj_githubInstallationId :: "int option"
  wj_repo :: string
  wj_repoIsPublic :: bool
  wj_workflowName :: string
  wj_labels :: "string list"
  wj_runnerName :: "string option"
  wj_conclusion :: "string option"

datatype delivery_status = DlvPending | DlvProcessed | DlvRejected | DlvFailed

record webhook_delivery =
  wd_deliveryId :: string
  wd_event :: string
  wd_receivedAt :: int
  wd_status :: delivery_status
  wd_workflowJob :: "workflow_job option"
  wd_attempts :: int
  wd_lastError :: "string option"
  wd_settledAt :: "int option"

datatype recovery_state = RecRequested | RecRecovered | RecAbandoned

record webhook_recovery =
  wy_guid :: string
  wy_githubDeliveryId :: int
  wy_event :: string
  wy_deliveredAt :: int
  wy_statusCode :: int
  wy_attempts :: int
  wy_firstRequestedAt :: int
  wy_lastRequestedAt :: int
  wy_nextAttemptAt :: int
  wy_state :: recovery_state
  wy_lastError :: "string option"

datatype recovery_outcome = OutPending | OutOk | OutSkippedNoApp | OutSkippedBackoff | OutError

record webhook_recovery_state =
  ws_scannedThrough :: int
  ws_lastRunAt :: int
  ws_lastSuccessAt :: "int option"
  ws_nextRunAt :: int
  ws_consecutiveFailures :: int
  ws_lastOutcome :: recovery_outcome
  ws_lastError :: "string option"
  ws_listed :: int
  ws_missing :: int
  ws_requested :: int

section \<open>The database\<close>

datatype task =
    AttemptTryAssign
  | LegacyTryAssign int
  | IssueJit nat nat string "int option" string "string list"
  | DrainRunnerDeletions
  | ProcessDelivery nat

record db =
  d_machines :: "machine docs"
  d_profiles :: "profile docs"
  d_controllerLeases :: "controller_lease docs"
  d_controllerHeartbeats :: "controller_heartbeat docs"
  d_jobs :: "job docs"
  d_commands :: "command docs"
  d_runnerDeletions :: "runner_deletion docs"
  d_attempts :: "attempt docs"
  d_attemptSecrets :: "attempt_secret docs"
  d_attemptEgress :: "attempt_egress docs"
  d_experiments :: "experiment_row docs"
  d_workerReadiness :: "worker_readiness docs"
  d_readinessEvidence :: "readiness_evidence docs"
  d_benchmarkEvidence :: "benchmark_evidence docs"
  d_registrationTokens :: "registration_token docs"
  d_webhookDeliveries :: "webhook_delivery docs"
  d_webhookRecovery :: "webhook_recovery docs"
  d_webhookRecoveryState :: "webhook_recovery_state docs"
  d_scheduled :: "task list"
  d_nextId :: nat

definition runAfter :: "task \<Rightarrow> db \<Rightarrow> db" where
  "runAfter t d = d\<lparr>d_scheduled := d_scheduled d @ [t]\<rparr>"

definition empty_db :: db where
  "empty_db =
     \<lparr>d_machines = [], d_profiles = [], d_controllerLeases = [], d_controllerHeartbeats = [],
      d_jobs = [], d_commands = [], d_runnerDeletions = [], d_attempts = [], d_attemptSecrets = [],
      d_attemptEgress = [], d_experiments = [], d_workerReadiness = [], d_readinessEvidence = [],
      d_benchmarkEvidence = [], d_registrationTokens = [], d_webhookDeliveries = [],
      d_webhookRecovery = [], d_webhookRecoveryState = [], d_scheduled = [], d_nextId = 0\<rparr>"

definition WORKER_OFFLINE_AFTER_MS :: int where
  "WORKER_OFFLINE_AFTER_MS = 2 * 60000"

section \<open>Table writes\<close>

definition patch_machine :: "nat \<Rightarrow> (machine \<Rightarrow> machine) \<Rightarrow> db \<Rightarrow> db" where
  "patch_machine i f d = d\<lparr>d_machines := db_patch (d_machines d) i f\<rparr>"

definition patch_attempt :: "nat \<Rightarrow> (attempt \<Rightarrow> attempt) \<Rightarrow> db \<Rightarrow> db" where
  "patch_attempt i f d = d\<lparr>d_attempts := db_patch (d_attempts d) i f\<rparr>"

definition patch_experiment :: "nat \<Rightarrow> (experiment_row \<Rightarrow> experiment_row) \<Rightarrow> db \<Rightarrow> db" where
  "patch_experiment i f d = d\<lparr>d_experiments := db_patch (d_experiments d) i f\<rparr>"

definition patch_job :: "nat \<Rightarrow> (job \<Rightarrow> job) \<Rightarrow> db \<Rightarrow> db" where
  "patch_job i f d = d\<lparr>d_jobs := db_patch (d_jobs d) i f\<rparr>"

definition patch_command :: "nat \<Rightarrow> (command \<Rightarrow> command) \<Rightarrow> db \<Rightarrow> db" where
  "patch_command i f d = d\<lparr>d_commands := db_patch (d_commands d) i f\<rparr>"

definition delete_command :: "nat \<Rightarrow> db \<Rightarrow> db" where
  "delete_command i d = d\<lparr>d_commands := db_delete (d_commands d) i\<rparr>"

definition delete_secret_row :: "nat \<Rightarrow> db \<Rightarrow> db" where
  "delete_secret_row i d = d\<lparr>d_attemptSecrets := db_delete (d_attemptSecrets d) i\<rparr>"

section \<open>Slot accounting\<close>

text \<open>
  The invariant the reconciler restores: the used slots of a Worker are the Attempts, Experiments
  and legacy Jobs that hold one of them.
\<close>

fun active_attempt_state :: "attempt_state \<Rightarrow> bool" where
  "active_attempt_state APending = True"
| "active_attempt_state APreparing = True"
| "active_attempt_state AReady = True"
| "active_attempt_state ARunning = True"
| "active_attempt_state _ = False"

fun active_experiment_state :: "experiment_state \<Rightarrow> bool" where
  "active_experiment_state EQueued = True"
| "active_experiment_state EPreparing = True"
| "active_experiment_state ERunning = True"
| "active_experiment_state _ = False"

fun active_job_status :: "job_status \<Rightarrow> bool" where
  "active_job_status JobAssigned = True"
| "active_job_status JobRunning = True"
| "active_job_status _ = False"

definition attempt_on :: "nat \<Rightarrow> attempt \<Rightarrow> bool" where
  "attempt_on m a \<longleftrightarrow> active_attempt_state (at_state a) \<and> at_machineId a = Some m"

definition experiment_on :: "nat \<Rightarrow> experiment_row \<Rightarrow> bool" where
  "experiment_on m e \<longleftrightarrow> active_experiment_state (ex_state e) \<and> ex_machineId e = Some m"

definition job_on :: "nat \<Rightarrow> job \<Rightarrow> bool" where
  "job_on m j \<longleftrightarrow> active_job_status (jb_status j) \<and> jb_machineId j = Some m"

definition work_on :: "nat \<Rightarrow> db \<Rightarrow> int" where
  "work_on m d = int (count_rows (d_attempts d) (attempt_on m)) +
     int (count_rows (d_experiments d) (experiment_on m)) + int (count_rows (d_jobs d) (job_on m))"

definition db_ok :: "db \<Rightarrow> bool" where
  "db_ok d \<longleftrightarrow> db_wf (d_machines d) \<and> db_wf (d_attempts d) \<and> db_wf (d_experiments d) \<and>
     db_wf (d_jobs d) \<and> db_wf (d_attemptSecrets d) \<and> db_wf (d_profiles d)"

definition slots_ok :: "db \<Rightarrow> bool" where
  "slots_ok d \<longleftrightarrow> (\<forall>(m, row) \<in> set (d_machines d). mc_usedSlots row = work_on m d)"

section \<open>Lemmas\<close>

lemmas table_defs [model_defs] =
  patch_machine_def patch_attempt_def patch_experiment_def patch_job_def patch_command_def
  delete_command_def delete_secret_row_def runAfter_def

text \<open>Each write changes its own table only.\<close>

lemma patch_machine_tables [simp]:
  "d_machines (patch_machine i f d) = db_patch (d_machines d) i f"
  "d_profiles (patch_machine i f d) = d_profiles d"
  "d_controllerLeases (patch_machine i f d) = d_controllerLeases d"
  "d_controllerHeartbeats (patch_machine i f d) = d_controllerHeartbeats d"
  "d_jobs (patch_machine i f d) = d_jobs d"
  "d_commands (patch_machine i f d) = d_commands d"
  "d_runnerDeletions (patch_machine i f d) = d_runnerDeletions d"
  "d_attempts (patch_machine i f d) = d_attempts d"
  "d_attemptSecrets (patch_machine i f d) = d_attemptSecrets d"
  "d_attemptEgress (patch_machine i f d) = d_attemptEgress d"
  "d_experiments (patch_machine i f d) = d_experiments d"
  "d_workerReadiness (patch_machine i f d) = d_workerReadiness d"
  "d_readinessEvidence (patch_machine i f d) = d_readinessEvidence d"
  "d_benchmarkEvidence (patch_machine i f d) = d_benchmarkEvidence d"
  "d_registrationTokens (patch_machine i f d) = d_registrationTokens d"
  "d_webhookDeliveries (patch_machine i f d) = d_webhookDeliveries d"
  "d_webhookRecovery (patch_machine i f d) = d_webhookRecovery d"
  "d_webhookRecoveryState (patch_machine i f d) = d_webhookRecoveryState d"
  "d_scheduled (patch_machine i f d) = d_scheduled d"
  "d_nextId (patch_machine i f d) = d_nextId d"
  by (simp_all add: patch_machine_def)

lemma patch_attempt_tables [simp]:
  "d_machines (patch_attempt i f d) = d_machines d"
  "d_profiles (patch_attempt i f d) = d_profiles d"
  "d_controllerLeases (patch_attempt i f d) = d_controllerLeases d"
  "d_controllerHeartbeats (patch_attempt i f d) = d_controllerHeartbeats d"
  "d_jobs (patch_attempt i f d) = d_jobs d"
  "d_commands (patch_attempt i f d) = d_commands d"
  "d_runnerDeletions (patch_attempt i f d) = d_runnerDeletions d"
  "d_attempts (patch_attempt i f d) = db_patch (d_attempts d) i f"
  "d_attemptSecrets (patch_attempt i f d) = d_attemptSecrets d"
  "d_attemptEgress (patch_attempt i f d) = d_attemptEgress d"
  "d_experiments (patch_attempt i f d) = d_experiments d"
  "d_workerReadiness (patch_attempt i f d) = d_workerReadiness d"
  "d_readinessEvidence (patch_attempt i f d) = d_readinessEvidence d"
  "d_benchmarkEvidence (patch_attempt i f d) = d_benchmarkEvidence d"
  "d_registrationTokens (patch_attempt i f d) = d_registrationTokens d"
  "d_webhookDeliveries (patch_attempt i f d) = d_webhookDeliveries d"
  "d_webhookRecovery (patch_attempt i f d) = d_webhookRecovery d"
  "d_webhookRecoveryState (patch_attempt i f d) = d_webhookRecoveryState d"
  "d_scheduled (patch_attempt i f d) = d_scheduled d"
  "d_nextId (patch_attempt i f d) = d_nextId d"
  by (simp_all add: patch_attempt_def)

lemma patch_experiment_tables [simp]:
  "d_machines (patch_experiment i f d) = d_machines d"
  "d_profiles (patch_experiment i f d) = d_profiles d"
  "d_controllerLeases (patch_experiment i f d) = d_controllerLeases d"
  "d_controllerHeartbeats (patch_experiment i f d) = d_controllerHeartbeats d"
  "d_jobs (patch_experiment i f d) = d_jobs d"
  "d_commands (patch_experiment i f d) = d_commands d"
  "d_runnerDeletions (patch_experiment i f d) = d_runnerDeletions d"
  "d_attempts (patch_experiment i f d) = d_attempts d"
  "d_attemptSecrets (patch_experiment i f d) = d_attemptSecrets d"
  "d_attemptEgress (patch_experiment i f d) = d_attemptEgress d"
  "d_experiments (patch_experiment i f d) = db_patch (d_experiments d) i f"
  "d_workerReadiness (patch_experiment i f d) = d_workerReadiness d"
  "d_readinessEvidence (patch_experiment i f d) = d_readinessEvidence d"
  "d_benchmarkEvidence (patch_experiment i f d) = d_benchmarkEvidence d"
  "d_registrationTokens (patch_experiment i f d) = d_registrationTokens d"
  "d_webhookDeliveries (patch_experiment i f d) = d_webhookDeliveries d"
  "d_webhookRecovery (patch_experiment i f d) = d_webhookRecovery d"
  "d_webhookRecoveryState (patch_experiment i f d) = d_webhookRecoveryState d"
  "d_scheduled (patch_experiment i f d) = d_scheduled d"
  "d_nextId (patch_experiment i f d) = d_nextId d"
  by (simp_all add: patch_experiment_def)

lemma patch_job_tables [simp]:
  "d_machines (patch_job i f d) = d_machines d"
  "d_profiles (patch_job i f d) = d_profiles d"
  "d_controllerLeases (patch_job i f d) = d_controllerLeases d"
  "d_controllerHeartbeats (patch_job i f d) = d_controllerHeartbeats d"
  "d_jobs (patch_job i f d) = db_patch (d_jobs d) i f"
  "d_commands (patch_job i f d) = d_commands d"
  "d_runnerDeletions (patch_job i f d) = d_runnerDeletions d"
  "d_attempts (patch_job i f d) = d_attempts d"
  "d_attemptSecrets (patch_job i f d) = d_attemptSecrets d"
  "d_attemptEgress (patch_job i f d) = d_attemptEgress d"
  "d_experiments (patch_job i f d) = d_experiments d"
  "d_workerReadiness (patch_job i f d) = d_workerReadiness d"
  "d_readinessEvidence (patch_job i f d) = d_readinessEvidence d"
  "d_benchmarkEvidence (patch_job i f d) = d_benchmarkEvidence d"
  "d_registrationTokens (patch_job i f d) = d_registrationTokens d"
  "d_webhookDeliveries (patch_job i f d) = d_webhookDeliveries d"
  "d_webhookRecovery (patch_job i f d) = d_webhookRecovery d"
  "d_webhookRecoveryState (patch_job i f d) = d_webhookRecoveryState d"
  "d_scheduled (patch_job i f d) = d_scheduled d"
  "d_nextId (patch_job i f d) = d_nextId d"
  by (simp_all add: patch_job_def)

lemma patch_command_tables [simp]:
  "d_machines (patch_command i f d) = d_machines d"
  "d_profiles (patch_command i f d) = d_profiles d"
  "d_controllerLeases (patch_command i f d) = d_controllerLeases d"
  "d_controllerHeartbeats (patch_command i f d) = d_controllerHeartbeats d"
  "d_jobs (patch_command i f d) = d_jobs d"
  "d_commands (patch_command i f d) = db_patch (d_commands d) i f"
  "d_runnerDeletions (patch_command i f d) = d_runnerDeletions d"
  "d_attempts (patch_command i f d) = d_attempts d"
  "d_attemptSecrets (patch_command i f d) = d_attemptSecrets d"
  "d_attemptEgress (patch_command i f d) = d_attemptEgress d"
  "d_experiments (patch_command i f d) = d_experiments d"
  "d_workerReadiness (patch_command i f d) = d_workerReadiness d"
  "d_readinessEvidence (patch_command i f d) = d_readinessEvidence d"
  "d_benchmarkEvidence (patch_command i f d) = d_benchmarkEvidence d"
  "d_registrationTokens (patch_command i f d) = d_registrationTokens d"
  "d_webhookDeliveries (patch_command i f d) = d_webhookDeliveries d"
  "d_webhookRecovery (patch_command i f d) = d_webhookRecovery d"
  "d_webhookRecoveryState (patch_command i f d) = d_webhookRecoveryState d"
  "d_scheduled (patch_command i f d) = d_scheduled d"
  "d_nextId (patch_command i f d) = d_nextId d"
  by (simp_all add: patch_command_def)

lemma delete_command_tables [simp]:
  "d_machines (delete_command i d) = d_machines d"
  "d_profiles (delete_command i d) = d_profiles d"
  "d_controllerLeases (delete_command i d) = d_controllerLeases d"
  "d_controllerHeartbeats (delete_command i d) = d_controllerHeartbeats d"
  "d_jobs (delete_command i d) = d_jobs d"
  "d_commands (delete_command i d) = db_delete (d_commands d) i"
  "d_runnerDeletions (delete_command i d) = d_runnerDeletions d"
  "d_attempts (delete_command i d) = d_attempts d"
  "d_attemptSecrets (delete_command i d) = d_attemptSecrets d"
  "d_attemptEgress (delete_command i d) = d_attemptEgress d"
  "d_experiments (delete_command i d) = d_experiments d"
  "d_workerReadiness (delete_command i d) = d_workerReadiness d"
  "d_readinessEvidence (delete_command i d) = d_readinessEvidence d"
  "d_benchmarkEvidence (delete_command i d) = d_benchmarkEvidence d"
  "d_registrationTokens (delete_command i d) = d_registrationTokens d"
  "d_webhookDeliveries (delete_command i d) = d_webhookDeliveries d"
  "d_webhookRecovery (delete_command i d) = d_webhookRecovery d"
  "d_webhookRecoveryState (delete_command i d) = d_webhookRecoveryState d"
  "d_scheduled (delete_command i d) = d_scheduled d"
  "d_nextId (delete_command i d) = d_nextId d"
  by (simp_all add: delete_command_def)

lemma delete_secret_row_tables [simp]:
  "d_machines (delete_secret_row i d) = d_machines d"
  "d_profiles (delete_secret_row i d) = d_profiles d"
  "d_controllerLeases (delete_secret_row i d) = d_controllerLeases d"
  "d_controllerHeartbeats (delete_secret_row i d) = d_controllerHeartbeats d"
  "d_jobs (delete_secret_row i d) = d_jobs d"
  "d_commands (delete_secret_row i d) = d_commands d"
  "d_runnerDeletions (delete_secret_row i d) = d_runnerDeletions d"
  "d_attempts (delete_secret_row i d) = d_attempts d"
  "d_attemptSecrets (delete_secret_row i d) = db_delete (d_attemptSecrets d) i"
  "d_attemptEgress (delete_secret_row i d) = d_attemptEgress d"
  "d_experiments (delete_secret_row i d) = d_experiments d"
  "d_workerReadiness (delete_secret_row i d) = d_workerReadiness d"
  "d_readinessEvidence (delete_secret_row i d) = d_readinessEvidence d"
  "d_benchmarkEvidence (delete_secret_row i d) = d_benchmarkEvidence d"
  "d_registrationTokens (delete_secret_row i d) = d_registrationTokens d"
  "d_webhookDeliveries (delete_secret_row i d) = d_webhookDeliveries d"
  "d_webhookRecovery (delete_secret_row i d) = d_webhookRecovery d"
  "d_webhookRecoveryState (delete_secret_row i d) = d_webhookRecoveryState d"
  "d_scheduled (delete_secret_row i d) = d_scheduled d"
  "d_nextId (delete_secret_row i d) = d_nextId d"
  by (simp_all add: delete_secret_row_def)

lemma runAfter_tables [simp]:
  "d_machines (runAfter t d) = d_machines d"
  "d_profiles (runAfter t d) = d_profiles d"
  "d_controllerLeases (runAfter t d) = d_controllerLeases d"
  "d_controllerHeartbeats (runAfter t d) = d_controllerHeartbeats d"
  "d_jobs (runAfter t d) = d_jobs d"
  "d_commands (runAfter t d) = d_commands d"
  "d_runnerDeletions (runAfter t d) = d_runnerDeletions d"
  "d_attempts (runAfter t d) = d_attempts d"
  "d_attemptSecrets (runAfter t d) = d_attemptSecrets d"
  "d_attemptEgress (runAfter t d) = d_attemptEgress d"
  "d_experiments (runAfter t d) = d_experiments d"
  "d_workerReadiness (runAfter t d) = d_workerReadiness d"
  "d_readinessEvidence (runAfter t d) = d_readinessEvidence d"
  "d_benchmarkEvidence (runAfter t d) = d_benchmarkEvidence d"
  "d_registrationTokens (runAfter t d) = d_registrationTokens d"
  "d_webhookDeliveries (runAfter t d) = d_webhookDeliveries d"
  "d_webhookRecovery (runAfter t d) = d_webhookRecovery d"
  "d_webhookRecoveryState (runAfter t d) = d_webhookRecoveryState d"
  "d_scheduled (runAfter t d) = d_scheduled d @ [t]"
  "d_nextId (runAfter t d) = d_nextId d"
  by (simp_all add: runAfter_def)

lemma slots_ok_iff:
  assumes "db_ok d"
  shows "slots_ok d \<longleftrightarrow> (\<forall>m row. db_get (d_machines d) m = Some row \<longrightarrow> mc_usedSlots row = work_on m d)"
  using assms by (auto simp: slots_ok_def db_ok_def db_wf_get_iff)

lemma work_on_cong:
  assumes "d_attempts d = d_attempts e" "d_experiments d = d_experiments e" "d_jobs d = d_jobs e"
  shows "work_on m d = work_on m e"
  using assms by (simp add: work_on_def)

lemma work_on_patch_attempt:
  assumes "db_ok d" "db_get (d_attempts d) i = Some a"
  shows "work_on m (patch_attempt i f d) =
    work_on m d - of_bool (attempt_on m a) + of_bool (attempt_on m (f a))"
proof -
  have "db_wf (d_attempts d)" using assms(1) by (simp add: db_ok_def)
  from tb.count_patch [OF this assms(2), of f "attempt_on m"] show ?thesis
    by (auto simp: work_on_def patch_attempt_def split: if_splits)
qed

lemma work_on_patch_experiment:
  assumes "db_ok d" "db_get (d_experiments d) i = Some e"
  shows "work_on m (patch_experiment i f d) =
    work_on m d - of_bool (experiment_on m e) + of_bool (experiment_on m (f e))"
proof -
  have "db_wf (d_experiments d)" using assms(1) by (simp add: db_ok_def)
  from tb.count_patch [OF this assms(2), of f "experiment_on m"] show ?thesis
    by (auto simp: work_on_def patch_experiment_def split: if_splits)
qed

lemma work_on_patch_job:
  assumes "db_ok d" "db_get (d_jobs d) i = Some j"
  shows "work_on m (patch_job i f d) = work_on m d - of_bool (job_on m j) + of_bool (job_on m (f j))"
proof -
  have "db_wf (d_jobs d)" using assms(1) by (simp add: db_ok_def)
  from tb.count_patch [OF this assms(2), of f "job_on m"] show ?thesis
    by (auto simp: work_on_def patch_job_def split: if_splits)
qed

lemma db_patch_None: "db_get t i = None \<Longrightarrow> db_patch t i f = t"
  by (induction t) (auto simp: db_patch_def db_get_def split: if_splits)

lemma work_on_patch_attempt_same:
  assumes "db_ok d" "\<And>a. db_get (d_attempts d) i = Some a \<Longrightarrow> attempt_on m (f a) = attempt_on m a"
  shows "work_on m (patch_attempt i f d) = work_on m d"
  using assms work_on_patch_attempt [of d i _ m f]
  by (cases "db_get (d_attempts d) i") (auto simp: patch_attempt_def db_patch_None work_on_def)

lemma work_on_nonneg: "0 \<le> work_on m d"
  by (simp add: work_on_def)

lemma work_on_pos_attempt:
  assumes "db_ok d" "db_get (d_attempts d) i = Some a" "attempt_on m a"
  shows "1 \<le> work_on m d"
  using work_on_patch_attempt [OF assms(1,2), of m "\<lambda>a. a\<lparr>at_machineId := None\<rparr>"]
    work_on_nonneg [of m "patch_attempt i (\<lambda>a. a\<lparr>at_machineId := None\<rparr>) d"] assms(3)
  by (simp add: attempt_on_def)

lemma work_on_pos_experiment:
  assumes "db_ok d" "db_get (d_experiments d) i = Some e" "experiment_on m e"
  shows "1 \<le> work_on m d"
  using work_on_patch_experiment [OF assms(1,2), of m "\<lambda>e. e\<lparr>ex_machineId := None\<rparr>"]
    work_on_nonneg [of m "patch_experiment i (\<lambda>e. e\<lparr>ex_machineId := None\<rparr>) d"] assms(3)
  by (simp add: experiment_on_def)

lemma work_on_pos_job:
  assumes "db_ok d" "db_get (d_jobs d) i = Some j" "job_on m j"
  shows "1 \<le> work_on m d"
  using work_on_patch_job [OF assms(1,2), of m "\<lambda>j. j\<lparr>jb_machineId := None\<rparr>"]
    work_on_nonneg [of m "patch_job i (\<lambda>j. j\<lparr>jb_machineId := None\<rparr>) d"] assms(3)
  by (simp add: job_on_def)

lemma db_ok_patches [simp, intro]:
  "db_ok d \<Longrightarrow> db_ok (patch_machine i f d)" "db_ok d \<Longrightarrow> db_ok (patch_attempt i g d)"
  "db_ok d \<Longrightarrow> db_ok (patch_experiment i h d)" "db_ok d \<Longrightarrow> db_ok (patch_job i k d)"
  "db_ok d \<Longrightarrow> db_ok (patch_command i l d)" "db_ok d \<Longrightarrow> db_ok (delete_command i d)"
  "db_ok d \<Longrightarrow> db_ok (delete_secret_row i d)" "db_ok d \<Longrightarrow> db_ok (runAfter t d)"
  by (auto simp: db_ok_def table_defs)

lemma slots_ok_frame:
  assumes "slots_ok d" "d_machines e = d_machines d" "\<And>m. work_on m e = work_on m d"
  shows "slots_ok e"
  using assms by (simp add: slots_ok_def)

lemma slots_ok_tables:
  assumes "slots_ok d" "d_machines e = d_machines d" "d_attempts e = d_attempts d"
    "d_experiments e = d_experiments d" "d_jobs e = d_jobs d"
  shows "slots_ok e"
  using assms by (simp add: slots_ok_def work_on_def)

lemma slots_ok_other_tables [simp]:
  "slots_ok (runAfter t d) = slots_ok d" "slots_ok (delete_secret_row i d) = slots_ok d"
  "slots_ok (patch_command i f d) = slots_ok d" "slots_ok (delete_command i d) = slots_ok d"
  by (auto simp: slots_ok_def work_on_def table_defs)

lemma slots_ok_patch_attempt_same:
  assumes "db_ok d" "slots_ok d"
    and "\<And>m a. db_get (d_attempts d) i = Some a \<Longrightarrow> attempt_on m (f a) = attempt_on m a"
  shows "slots_ok (patch_attempt i f d)"
  by (rule slots_ok_frame [OF assms(2)])
     (simp_all add: work_on_patch_attempt_same [OF assms(1) assms(3)])

lemma slots_ok_patch_experiment_same:
  assumes "db_ok d" "slots_ok d" "db_get (d_experiments d) i = Some e"
    and "\<And>m. experiment_on m (f e) = experiment_on m e"
  shows "slots_ok (patch_experiment i f d)"
  by (rule slots_ok_frame [OF assms(2)])
     (simp_all add: work_on_patch_experiment [OF assms(1,3)] assms(4))

lemma slots_ok_patch_machine_same:
  assumes "slots_ok d" "\<And>row. mc_usedSlots (f row) = mc_usedSlots row"
  shows "slots_ok (patch_machine i f d)"
  using assms by (fastforce simp: slots_ok_def work_on_def patch_machine_def db_patch_def)

end
