(* ===== verification/Fleet_Sample.thy ===== *)
theory Fleet_Sample
  imports Schema
begin

text \<open>
  A small fleet the witnesses evaluate the model on: one Linux Worker with two slots, one active
  Docker Profile the Worker has proved, and one Attempt of the Profile waiting for a Worker.
\<close>

definition no_facts :: readiness_facts where
  "no_facts = \<lparr>rf_isolation = None, rf_boundary = None, rf_checks = None, rf_cacheScope = None,
     rf_cacheSharedWritable = None, rf_hardware = None, rf_storage = None, rf_network = None,
     rf_warmPool = None, rf_runnerVersion = None\<rparr>"

definition sample_machine :: machine where
  "sample_machine = \<lparr>mc_name = ''w'', mc_os = Linux, mc_labels = [], mc_arch = None, mc_cpus = Some 8,
     mc_memoryMiB = Some 16384, mc_slotPolicy = None, mc_configuredSlots = None,
     mc_resourceRecommendedSlots = None, mc_recommendedSlots = None, mc_benchmark = None,
     mc_maxSlots = 2, mc_usedSlots = 0, mc_lastSeen = 1000, mc_token = ''t''\<rparr>"

definition sample_profile :: profile where
  "sample_profile = \<lparr>pf_name = ''p'', pf_scaleSetName = ''s'', pf_executor = Docker,
     pf_imageRelease = ''i'', pf_vcpus = 2, pf_memoryMiB = 4096, pf_warmPool = None,
     pf_fitPolicy = None, pf_minRunners = 0, pf_maxRunners = 4, pf_egress = None,
     pf_githubConfigUrl = None, pf_githubCacheFacts = None, pf_runnerGroup = None,
     pf_labels = None, pf_workerLabels = None, pf_state = Active, pf_updatedAt = 0\<rparr>"

definition sample_readiness :: worker_readiness where
  "sample_readiness = \<lparr>rr_machineId = 1, rr_profile = ''p'', rr_executor = Docker,
     rr_imageRelease = ''i'', rr_vcpus = Some 2, rr_memoryMiB = Some 4096, rr_checkedAt = 900,
     rr_facts = no_facts, wr_state = Ready, wr_preparedAt = Some 900, wr_statusDetail = None,
     wr_lastError = None\<rparr>"

definition sample_attempt :: attempt where
  "sample_attempt = \<lparr>at_profile = ''p'', at_executor = Docker, at_imageRelease = ''i'', at_vcpus = 2,
     at_memoryMiB = 4096, at_runnerName = ''r'', at_runnerId = 7, at_state = APending,
     at_machineId = None, at_selectionReason = None, at_jitConfig = None, at_createdAt = 500,
     at_claimedAt = None, at_readyAt = None, at_startedAt = None, at_finishedAt = None,
     at_executorFinishedAt = None, at_executorExitCode = None, at_job = no_metadata,
     at_result = None, at_lastError = None, at_cancelReason = None, at_runnerCleanupPending = None,
     at_retirement = None\<rparr>"

definition sample_secret :: attempt_secret where
  "sample_secret = \<lparr>as_attemptId = 4, as_jitConfig = ''jit'', as_createdAt = 500\<rparr>"

definition sample_db :: db where
  "sample_db = empty_db\<lparr>d_machines := [(1, sample_machine)], d_profiles := [(2, sample_profile)],
     d_workerReadiness := [(3, sample_readiness)], d_attempts := [(4, sample_attempt)],
     d_attemptSecrets := [(5, sample_secret)], d_nextId := 6\<rparr>"

lemma sample_db_ok: "db_ok sample_db" "slots_ok sample_db"
  by code_simp+

end
