(* ===== verification/AttemptScheduler.thy ===== *)
theory AttemptScheduler
  imports Schema HostLabels Fleet_Sample
begin

text \<open>
  The scheduler of Attempts and Experiments (\<open>packages/backend/convex/attemptScheduler.ts\<close>): slot
  release, the readiness rule, the snapshot, placement and \<open>tryAssign\<close>. The maps of the snapshot
  that the code reads with \<open>?? 0\<close> or \<open>?? []\<close> are total functions with that default, and the key
  \<open>machineId:profile\<close> is a pair. \<open>localeCompare\<close> is a parameter. Pressures are exact rationals.

  The lemmas show that placement only uses Workers that prove the exact contract now, that it
  never reserves more than the CPUs, memory and slots of a Worker, that the Worker it chooses is a
  least loaded one, that unplaced work has no eligible Worker left, and that \<open>tryAssign\<close> keeps the
  slot accounting.
\<close>

definition READINESS_STALE_AFTER_MS :: int where
  "READINESS_STALE_AFTER_MS = 12 * 60 * 60000"

section \<open>Slots\<close>

definition releaseMachineSlot :: "nat option \<Rightarrow> db \<Rightarrow> db" where
  "releaseMachineSlot machineId d =
     (case machineId of
        None \<Rightarrow> d
      | Some m \<Rightarrow>
          (case db_get (d_machines d) m of
             None \<Rightarrow> d
           | Some row \<Rightarrow> patch_machine m (mc_usedSlots_update (\<lambda>_. max 0 (mc_usedSlots row - 1))) d))"

definition releaseAttemptSlot :: "attempt \<Rightarrow> db \<Rightarrow> db" where
  "releaseAttemptSlot attempt d = releaseMachineSlot (at_machineId attempt) d"

section \<open>Readiness\<close>

definition isSchedulableReadiness ::
  "worker_readiness \<Rightarrow> readiness_evidence option \<Rightarrow> machine option \<Rightarrow> executor \<Rightarrow> string \<Rightarrow>
   string list option \<Rightarrow> profile_egress \<Rightarrow> int \<Rightarrow> bool" where
  "isSchedulableReadiness readiness evidence machine ex imageRelease workerLabels profileEgress now =
     (case machine of
        None \<Rightarrow> False
      | Some row \<Rightarrow>
          wr_state readiness = Ready \<and>
          carriesHostLabels workerLabels (Some (mc_labels row)) \<and>
          rr_executor readiness = ex \<and>
          rr_imageRelease readiness = imageRelease \<and>
          now - rr_checkedAt readiness < READINESS_STALE_AFTER_MS \<and>
          readinessAdmissionError readiness evidence profileEgress = None \<and>
          now - mc_lastSeen row < WORKER_OFFLINE_AFTER_MS)"

section \<open>The snapshot\<close>

record work_contract =
  wk_profile :: string
  wk_executor :: executor
  wk_imageRelease :: string
  wk_vcpus :: int
  wk_memoryMiB :: int
  wk_createdAt :: int

definition attempt_work :: "attempt \<Rightarrow> work_contract" where
  "attempt_work a = \<lparr>wk_profile = at_profile a, wk_executor = at_executor a,
     wk_imageRelease = at_imageRelease a, wk_vcpus = at_vcpus a, wk_memoryMiB = at_memoryMiB a,
     wk_createdAt = at_createdAt a\<rparr>"

text \<open>The executor of every Experiment is Firecracker.\<close>

definition experiment_work :: "experiment_row \<Rightarrow> work_contract" where
  "experiment_work e = \<lparr>wk_profile = ex_profile e, wk_executor = Firecracker,
     wk_imageRelease = ex_imageRelease e, wk_vcpus = ex_vcpus e, wk_memoryMiB = ex_memoryMiB e,
     wk_createdAt = ex_createdAt e\<rparr>"

record reservation =
  rv_vcpus :: int
  rv_memoryMiB :: int
  rv_count :: int

definition no_reservation :: reservation where
  "no_reservation = \<lparr>rv_vcpus = 0, rv_memoryMiB = 0, rv_count = 0\<rparr>"

definition add_reservation :: "int \<Rightarrow> int \<Rightarrow> int \<Rightarrow> reservation \<Rightarrow> reservation" where
  "add_reservation vcpus memoryMiB count r =
     \<lparr>rv_vcpus = rv_vcpus r + vcpus, rv_memoryMiB = rv_memoryMiB r + memoryMiB,
      rv_count = rv_count r + count\<rparr>"

record snapshot =
  sn_now :: int
  sn_pendingAttempts :: "attempt docs"
  sn_queuedExperiments :: "experiment_row docs"
  sn_activeProfileByName :: "string \<rightharpoonup> profile"
  sn_machineById :: "nat \<rightharpoonup> machine"
  sn_readyByProfile :: "string \<Rightarrow> worker_readiness list"
  sn_evidenceByMachineProfile :: "nat \<times> string \<rightharpoonup> readiness_evidence"
  sn_reservedByMachine :: "nat \<Rightarrow> reservation"
  sn_idleWarmByMachineProfile :: "nat \<times> string \<Rightarrow> int"
  sn_usedSlotsByMachine :: "nat \<rightharpoonup> int"

text \<open>
  The work that holds resources: where it runs, its contract, and whether it is over. The loop
  counts it per Worker and per Worker and Profile.
\<close>

type_synonym load = "nat option \<times> work_contract \<times> bool"

definition attempt_load :: "attempt \<Rightarrow> load" where
  "attempt_load a = (at_machineId a, attempt_work a, \<not> active_attempt_state (at_state a))"

definition experiment_load :: "experiment_row \<Rightarrow> load" where
  "experiment_load e = (ex_machineId e, experiment_work e, \<not> active_experiment_state (ex_state e))"

fun reserve_loads ::
  "load list \<Rightarrow> (nat \<Rightarrow> reservation) \<times> (nat \<times> string \<Rightarrow> int) \<Rightarrow>
   (nat \<Rightarrow> reservation) \<times> (nat \<times> string \<Rightarrow> int)" where
  "reserve_loads [] acc = acc"
| "reserve_loads ((machineId, work, finished) # loads) (reserved, active) =
     (case machineId of
        None \<Rightarrow> reserve_loads loads (reserved, active)
      | Some m \<Rightarrow>
          if finished then reserve_loads loads (reserved, active)
          else reserve_loads loads
            (reserved(m := add_reservation (wk_vcpus work) (wk_memoryMiB work) 1 (reserved m)),
             active((m, wk_profile work) := active (m, wk_profile work) + 1)))"

text \<open>
  The idle warm guests of one readiness row that counts, or 0: the row is of a Worker that
  reports, for the exact contract and warm target of an active Profile. The counts are integers: a
  ready report with others is refused.
\<close>

definition warm_profile ::
  "(string \<rightharpoonup> profile) \<Rightarrow> (nat \<rightharpoonup> machine) \<Rightarrow> worker_readiness \<Rightarrow> profile option" where
  "warm_profile profiles machineById readiness =
     (case rf_warmPool (rr_facts readiness) of
        None \<Rightarrow> None
      | Some pool \<Rightarrow>
          if machineById (rr_machineId readiness) = None then None
          else case profiles (rr_profile readiness) of
            None \<Rightarrow> None
          | Some p \<Rightarrow>
              if pf_executor p \<noteq> rr_executor readiness \<or>
                 pf_imageRelease p \<noteq> rr_imageRelease readiness \<or>
                 (rr_vcpus readiness \<noteq> None \<and> rr_vcpus readiness \<noteq> Some (pf_vcpus p)) \<or>
                 (rr_memoryMiB readiness \<noteq> None \<and> rr_memoryMiB readiness \<noteq> Some (pf_memoryMiB p)) \<or>
                 wp_target pool \<noteq> js_int (or_else (pf_warmPool p) 0)
              then None else Some p)"

definition warm_guests :: "worker_readiness \<Rightarrow> int" where
  "warm_guests readiness =
     (case rf_warmPool (rr_facts readiness) of
        None \<Rightarrow> 0
      | Some pool \<Rightarrow> int_val (wp_parked pool) + int_val (wp_claimed pool))"

fun reserve_warm ::
  "(string \<rightharpoonup> profile) \<Rightarrow> (nat \<rightharpoonup> machine) \<Rightarrow> (nat \<times> string \<Rightarrow> int) \<Rightarrow> worker_readiness list \<Rightarrow>
   (nat \<Rightarrow> reservation) \<times> (nat \<times> string \<Rightarrow> int) \<Rightarrow> (nat \<Rightarrow> reservation) \<times> (nat \<times> string \<Rightarrow> int)" where
  "reserve_warm profiles machineById active [] acc = acc"
| "reserve_warm profiles machineById active (readiness # rest) (reserved, idleWarm) =
     (case warm_profile profiles machineById readiness of
        None \<Rightarrow> reserve_warm profiles machineById active rest (reserved, idleWarm)
      | Some p \<Rightarrow>
          let m = rr_machineId readiness; key = (m, rr_profile readiness);
              idle = max 0 (warm_guests readiness - active key)
          in if idle = 0 then reserve_warm profiles machineById active rest (reserved, idleWarm)
             else reserve_warm profiles machineById active rest
               (reserved(m := add_reservation (idle * pf_vcpus p) (idle * pf_memoryMiB p) idle (reserved m)),
                idleWarm(key := idle)))"

definition online_machines :: "int \<Rightarrow> db \<Rightarrow> machine docs" where
  "online_machines now d = db_query (\<lambda>row. mc_lastSeen row > now - WORKER_OFFLINE_AFTER_MS) (d_machines d)"

definition profile_readiness :: "db \<Rightarrow> string \<Rightarrow> worker_readiness list" where
  "profile_readiness d name =
     concat (map (\<lambda>state. map snd (db_query (\<lambda>r. rr_profile r = name \<and> wr_state r = state)
                                   (d_workerReadiness d)))
                 [Preparing, Ready, Degraded, ReadinessFailed])"

definition evidence_row :: "db \<Rightarrow> worker_readiness \<Rightarrow> readiness_evidence option res" where
  "evidence_row d readiness =
     res_bind (db_unique (db_query
         (\<lambda>e. rr_machineId e = rr_machineId readiness \<and> rr_profile e = rr_profile readiness)
         (d_readinessEvidence d)))
       (\<lambda>row. Inr (map_option snd row))"

definition loadSchedulerSnapshot ::
  "db \<Rightarrow> int \<Rightarrow> attempt docs \<Rightarrow> experiment_row docs \<Rightarrow> snapshot res" where
  "loadSchedulerSnapshot d now pendingAttempts queuedExperiments =
     (let attemptRanges = concat (map (\<lambda>state. db_query (\<lambda>a. at_state a = state) (d_attempts d))
                                      [APreparing, AReady, ARunning]);
          experimentRanges = concat (map (\<lambda>state. db_query (\<lambda>e. ex_state e = state) (d_experiments d))
                                         [EPreparing, ERunning]);
          machines = online_machines now d;
          profiles = db_query (\<lambda>p. pf_state p = Active) (d_profiles d);
          allReadiness = concat (map (\<lambda>p. profile_readiness d (pf_name (snd p))) profiles);
          ready = filter (\<lambda>r. wr_state r = Ready) allReadiness
      in res_bind (res_map (evidence_row d) ready) (\<lambda>rows.
           let evidenceRows = List.map_filter id rows;
               activeProfileByName = map_of (rev (map (\<lambda>p. (pf_name (snd p), snd p)) profiles));
               machineById = db_get machines;
               (worked, active) = reserve_loads
                 (map (attempt_load \<circ> snd) (pendingAttempts @ attemptRanges) @
                  map (experiment_load \<circ> snd) (queuedExperiments @ experimentRanges))
                 (\<lambda>_. no_reservation, \<lambda>_. 0);
               (reserved, idleWarm) = reserve_warm activeProfileByName machineById active allReadiness
                 (worked, \<lambda>_. 0)
           in Inr \<lparr>sn_now = now,
                   sn_pendingAttempts = pendingAttempts,
                   sn_queuedExperiments = queuedExperiments,
                   sn_activeProfileByName = activeProfileByName,
                   sn_machineById = machineById,
                   sn_readyByProfile = (\<lambda>name. filter (\<lambda>r. rr_profile r = name) ready),
                   sn_evidenceByMachineProfile =
                     map_of (rev (map (\<lambda>e. ((rr_machineId e, rr_profile e), e)) evidenceRows)),
                   sn_reservedByMachine = reserved,
                   sn_idleWarmByMachineProfile = idleWarm,
                   sn_usedSlotsByMachine = (\<lambda>m. map_option mc_usedSlots (machineById m))\<rparr>))"

section \<open>Placement\<close>

definition matchesActiveProfile :: "snapshot \<Rightarrow> work_contract \<Rightarrow> bool" where
  "matchesActiveProfile snapshot work =
     (case sn_activeProfileByName snapshot (wk_profile work) of
        None \<Rightarrow> False
      | Some p \<Rightarrow> pf_executor p = wk_executor work \<and> pf_imageRelease p = wk_imageRelease work \<and>
                  pf_vcpus p = wk_vcpus work \<and> pf_memoryMiB p = wk_memoryMiB work)"

record candidate =
  cd_id :: nat
  cd_machine :: machine
  cd_usesWarm :: bool
  cd_resourcePressure :: rat
  cd_score :: int
  cd_source :: score_source

text \<open>The usable share of a host dimension: 90 percent of it, or all of it for work as large.\<close>

definition usable :: "int option \<Rightarrow> int \<Rightarrow> int option" where
  "usable amount wanted = map_option (\<lambda>n. if n \<le> wanted then n else n * 9 div 10) amount"

definition exceeds :: "int \<Rightarrow> int option \<Rightarrow> bool" where
  "exceeds n limit = (case limit of None \<Rightarrow> False | Some l \<Rightarrow> n > l)"

definition pressure :: "int \<Rightarrow> int option \<Rightarrow> rat" where
  "pressure n limit = (case limit of None \<Rightarrow> 0 | Some l \<Rightarrow> of_int n / of_int l)"

definition usesWarm :: "snapshot \<Rightarrow> work_contract \<Rightarrow> nat \<Rightarrow> bool" where
  "usesWarm snapshot work m \<longleftrightarrow> sn_idleWarmByMachineProfile snapshot (m, wk_profile work) > 0"

definition occupiedGuests :: "snapshot \<Rightarrow> nat \<Rightarrow> machine \<Rightarrow> int" where
  "occupiedGuests snapshot m machine =
     max (rv_count (sn_reservedByMachine snapshot m))
         (or_else (sn_usedSlotsByMachine snapshot m) (mc_usedSlots machine))"

text \<open>Whether the work fits on the Worker beside what it already holds.\<close>

definition fits :: "snapshot \<Rightarrow> work_contract \<Rightarrow> worker_readiness \<Rightarrow> nat \<Rightarrow> machine \<Rightarrow> bool" where
  "fits snapshot work readiness m machine =
     (let reserved = sn_reservedByMachine snapshot m;
          warm = usesWarm snapshot work m;
          additionalVCPUs = (if warm then 0 else wk_vcpus work);
          additionalMemoryMiB = (if warm then 0 else wk_memoryMiB work);
          additionalGuests = (if warm then 0 else 1);
          occupied = occupiedGuests snapshot m machine
      in \<not> (occupied + additionalGuests > mc_maxSlots machine \<or>
             exceeds (rv_vcpus reserved + additionalVCPUs) (usable (mc_cpus machine) (wk_vcpus work)) \<or>
             exceeds (rv_memoryMiB reserved + additionalMemoryMiB)
                     (usable (mc_memoryMiB machine) (wk_memoryMiB work)) \<or>
             \<not> hasSnapshotHeadroomForGuests (rf_storage (rr_facts readiness)) (occupied + additionalGuests)))"

definition resourcePressure :: "snapshot \<Rightarrow> work_contract \<Rightarrow> nat \<Rightarrow> machine \<Rightarrow> rat" where
  "resourcePressure snapshot work m machine =
     (let reserved = sn_reservedByMachine snapshot m
      in max (max (pressure (rv_vcpus reserved) (usable (mc_cpus machine) (wk_vcpus work)))
                  (pressure (rv_memoryMiB reserved) (usable (mc_memoryMiB machine) (wk_memoryMiB work))))
             (of_int (occupiedGuests snapshot m machine) / of_int (mc_maxSlots machine)))"

definition eligible :: "snapshot \<Rightarrow> work_contract \<Rightarrow> worker_readiness \<Rightarrow> bool" where
  "eligible snapshot work readiness =
     (let profile = sn_activeProfileByName snapshot (wk_profile work)
      in isSchedulableReadiness readiness
           (sn_evidenceByMachineProfile snapshot (rr_machineId readiness, rr_profile readiness))
           (sn_machineById snapshot (rr_machineId readiness))
           (wk_executor work) (wk_imageRelease work)
           (case profile of None \<Rightarrow> None | Some p \<Rightarrow> pf_workerLabels p)
           (profileEgressOf (case profile of None \<Rightarrow> None | Some p \<Rightarrow> pf_egress p))
           (sn_now snapshot))"

definition fit_policy_of :: "snapshot \<Rightarrow> work_contract \<Rightarrow> fit_policy" where
  "fit_policy_of snapshot work =
     (case sn_activeProfileByName snapshot (wk_profile work) of
        None \<Rightarrow> Balanced
      | Some p \<Rightarrow> or_else (pf_fitPolicy p) Balanced)"

definition candidate_of :: "snapshot \<Rightarrow> work_contract \<Rightarrow> worker_readiness \<Rightarrow> candidate option" where
  "candidate_of snapshot work readiness =
     (if \<not> eligible snapshot work readiness then None
      else case sn_machineById snapshot (rr_machineId readiness) of
        None \<Rightarrow> None
      | Some machine \<Rightarrow>
          let m = rr_machineId readiness;
              score = benchmarkScore (map_option summary_of (mc_benchmark machine))
                        (fit_policy_of snapshot work) (sn_now snapshot)
          in if \<not> fits snapshot work readiness m machine then None
             else Some \<lparr>cd_id = m, cd_machine = machine, cd_usesWarm = usesWarm snapshot work m,
                        cd_resourcePressure = resourcePressure snapshot work m machine,
                        cd_score = fst score, cd_source = snd score\<rparr>)"

definition candidate_cmp :: "(string \<Rightarrow> string \<Rightarrow> int) \<Rightarrow> candidate \<Rightarrow> candidate \<Rightarrow> int" where
  "candidate_cmp localeCompare left right =
     (if cd_resourcePressure left < cd_resourcePressure right then - 1
      else if cd_resourcePressure left > cd_resourcePressure right then 1
      else if cd_score left \<noteq> cd_score right then cd_score right - cd_score left
      else localeCompare (mc_name (cd_machine left)) (mc_name (cd_machine right)))"

definition candidates ::
  "(string \<Rightarrow> string \<Rightarrow> int) \<Rightarrow> snapshot \<Rightarrow> work_contract \<Rightarrow> candidate list" where
  "candidates localeCompare snapshot work =
     js_sort (candidate_cmp localeCompare)
       (List.map_filter (candidate_of snapshot work) (sn_readyByProfile snapshot (wk_profile work)))"

text \<open>\<open>toFixed(3)\<close> of a non-negative number.\<close>

definition to_fixed_3 :: "rat \<Rightarrow> string" where
  "to_fixed_3 x =
     (let n = nat (js_round (x * 1000)); frac = show_nat (n mod 1000)
      in show_nat (n div 1000) @ ''.'' @ replicate (3 - length frac) CHR ''0'' @ frac)"

fun fit_policy_name :: "fit_policy \<Rightarrow> string" where
  "fit_policy_name Balanced = ''balanced''"
| "fit_policy_name FitCpu = ''cpu''"
| "fit_policy_name FitNetwork = ''network''"
| "fit_policy_name FitIo = ''io''"

fun score_source_name :: "score_source \<Rightarrow> string" where
  "score_source_name Missing = ''missing''"
| "score_source_name Stale = ''stale''"
| "score_source_name Fresh = ''fresh''"

definition selection_reason :: "fit_policy \<Rightarrow> candidate \<Rightarrow> nat \<Rightarrow> string" where
  "selection_reason policy c n =
     ''hard compatibility passed; pressure='' @ to_fixed_3 (cd_resourcePressure c) @ ''; '' @
     fit_policy_name policy @ '' benchmark='' @ show_int (cd_score c) @ ''/100 ('' @
     score_source_name (cd_source c) @ ''); eligible='' @ show_nat n"

definition take_slot :: "snapshot \<Rightarrow> work_contract \<Rightarrow> candidate \<Rightarrow> snapshot" where
  "take_slot snapshot work c =
     (let m = cd_id c; key = (m, wk_profile work)
      in snapshot
         \<lparr>sn_usedSlotsByMachine := (sn_usedSlotsByMachine snapshot)
            (m \<mapsto> or_else (sn_usedSlotsByMachine snapshot m) 0 + 1),
          sn_idleWarmByMachineProfile :=
            (if cd_usesWarm c
             then (sn_idleWarmByMachineProfile snapshot)(key := sn_idleWarmByMachineProfile snapshot key - 1)
             else sn_idleWarmByMachineProfile snapshot),
          sn_reservedByMachine :=
            (if cd_usesWarm c then sn_reservedByMachine snapshot
             else (sn_reservedByMachine snapshot)
               (m := add_reservation (wk_vcpus work) (wk_memoryMiB work) 1 (sn_reservedByMachine snapshot m)))\<rparr>)"

datatype work_item = AttemptItem nat | ExperimentItem nat

type_synonym placement = "work_item \<times> (nat \<times> string) option"

fun placeInOrder ::
  "(string \<Rightarrow> string \<Rightarrow> int) \<Rightarrow> snapshot \<Rightarrow> (work_item \<times> work_contract) list \<Rightarrow>
   placement list \<times> snapshot" where
  "placeInOrder localeCompare snapshot [] = ([], snapshot)"
| "placeInOrder localeCompare snapshot ((item, work) # items) =
     (case candidates localeCompare snapshot work of
        [] \<Rightarrow> (let (placements, final) = placeInOrder localeCompare snapshot items
               in ((item, None) # placements, final))
      | c # cs \<Rightarrow>
          (let reason = selection_reason (fit_policy_of snapshot work) c (length (c # cs));
               (placements, final) = placeInOrder localeCompare (take_slot snapshot work c) items
           in ((item, Some (cd_id c, reason)) # placements, final)))"

definition unassignedQueue :: "snapshot \<Rightarrow> (work_item \<times> work_contract) list" where
  "unassignedQueue snapshot =
     js_sort (\<lambda>left right. wk_createdAt (snd left) - wk_createdAt (snd right))
       (filter (\<lambda>item. matchesActiveProfile snapshot (snd item))
         (map (\<lambda>(i, a). (AttemptItem i, attempt_work a))
              (filter (\<lambda>(i, a). at_machineId a = None) (sn_pendingAttempts snapshot)) @
          map (\<lambda>(i, e). (ExperimentItem i, experiment_work e))
              (filter (\<lambda>(i, e). ex_machineId e = None) (sn_queuedExperiments snapshot))))"

section \<open>\<open>tryAssign\<close>\<close>

fun assign :: "placement \<Rightarrow> db \<Rightarrow> db" where
  "assign (item, None) d = d"
| "assign (AttemptItem i, Some (m, reason)) d =
     patch_attempt i (\<lambda>a. a\<lparr>at_machineId := Some m, at_selectionReason := Some reason\<rparr>) d"
| "assign (ExperimentItem i, Some (m, reason)) d =
     patch_experiment i (\<lambda>e. e\<lparr>ex_machineId := Some m, ex_selectionReason := Some reason\<rparr>) d"

definition write_used_slots :: "snapshot \<Rightarrow> nat \<times> machine \<Rightarrow> db \<Rightarrow> db" where
  "write_used_slots final = (\<lambda>(m, machine) d.
     case sn_usedSlotsByMachine final m of
       None \<Rightarrow> d
     | Some used \<Rightarrow> if mc_usedSlots machine \<noteq> used
                    then patch_machine m (mc_usedSlots_update (\<lambda>_. used)) d else d)"

definition tryAssign :: "(string \<Rightarrow> string \<Rightarrow> int) \<Rightarrow> int \<Rightarrow> db \<Rightarrow> (nat \<times> db) res" where
  "tryAssign localeCompare now d =
     (let pendingAttempts = db_query (\<lambda>a. at_state a = APending) (d_attempts d);
          queuedExperiments = db_query (\<lambda>e. ex_state e = EQueued) (d_experiments d)
      in if \<not> list_ex (\<lambda>(i, a). at_machineId a = None) pendingAttempts \<and>
            \<not> list_ex (\<lambda>(i, e). ex_machineId e = None) queuedExperiments
         then Inr (0, d)
         else res_bind (loadSchedulerSnapshot d now pendingAttempts queuedExperiments) (\<lambda>snapshot.
           let (placements, final) = placeInOrder localeCompare snapshot (unassignedQueue snapshot);
               assigned = length (filter (\<lambda>p. snd p \<noteq> None) placements)
           in Inr (assigned, fold (write_used_slots final) (online_machines now d) (fold assign placements d))))"

section \<open>Slot lemmas\<close>

lemma releaseMachineSlot_tables [simp]:
  "d_attempts (releaseMachineSlot m d) = d_attempts d"
  "d_experiments (releaseMachineSlot m d) = d_experiments d"
  "d_jobs (releaseMachineSlot m d) = d_jobs d"
  "d_attemptSecrets (releaseMachineSlot m d) = d_attemptSecrets d"
  "d_profiles (releaseMachineSlot m d) = d_profiles d"
  "d_commands (releaseMachineSlot m d) = d_commands d"
  "db_ids (d_machines (releaseMachineSlot m d)) = db_ids (d_machines d)"
  by (auto simp: releaseMachineSlot_def patch_machine_def split: option.splits)

lemma releaseMachineSlot_ok [simp, intro]: "db_ok d \<Longrightarrow> db_ok (releaseMachineSlot m d)"
  by (auto simp: releaseMachineSlot_def split: option.splits)

lemma work_on_release [simp]: "work_on k (releaseMachineSlot m d) = work_on k d"
  by (rule work_on_cong) simp_all

lemma get_releaseMachineSlot:
  "db_get (d_machines (releaseMachineSlot (Some m) d)) k =
     (if k = m then map_option (\<lambda>row. row\<lparr>mc_usedSlots := max 0 (mc_usedSlots row - 1)\<rparr>)
                     (db_get (d_machines d) m)
      else db_get (d_machines d) k)"
  by (auto simp: releaseMachineSlot_def patch_machine_def split: option.splits)

text \<open>
  Work that ends gives its slot back: releasing the Worker's slot and moving the row to a state
  that holds none keeps the accounting. \<open>e\<close> is the database after the row is written.
\<close>

lemma slots_ok_release:
  assumes ok: "db_ok d" "slots_ok d" and e: "db_ok e"
    and machines: "d_machines e = d_machines (releaseMachineSlot mid d)"
    and held: "\<And>m. mid = Some m \<Longrightarrow> 1 \<le> work_on m d"
    and work: "\<And>m. work_on m e = work_on m d - of_bool (mid = Some m)"
  shows "slots_ok e"
  unfolding slots_ok_iff [OF e]
proof (intro allI impI)
  fix m row assume row: "db_get (d_machines e) m = Some row"
  show "mc_usedSlots row = work_on m e"
  proof (cases mid)
    case None
    then show ?thesis
      using row work [of m] ok by (simp add: machines releaseMachineSlot_def slots_ok_iff)
  next
    case (Some k)
    show ?thesis
    proof (cases "m = k")
      case True
      with Some row obtain r where r: "db_get (d_machines d) m = Some r"
        "mc_usedSlots row = max 0 (mc_usedSlots r - 1)"
        by (auto simp: machines get_releaseMachineSlot)
      moreover have "mc_usedSlots r = work_on m d" using ok r(1) by (auto simp: slots_ok_iff)
      ultimately show ?thesis using work [of m] held Some True by simp
    next
      case False
      then show ?thesis
        using row work [of m] ok Some by (auto simp: machines get_releaseMachineSlot slots_ok_iff)
    qed
  qed
qed

lemma slots_ok_end_attempt:
  assumes "db_ok d" "slots_ok d" "db_get (d_attempts d) i = Some a"
    and "active_attempt_state (at_state a)" "\<And>m. \<not> attempt_on m (f a)"
  shows "slots_ok (patch_attempt i f (releaseMachineSlot (at_machineId a) d))"
proof (rule slots_ok_release [OF assms(1,2), where mid = "at_machineId a"])
  show "1 \<le> work_on m d" if "at_machineId a = Some m" for m
    using assms that by (intro work_on_pos_attempt [OF assms(1,3)]) (simp add: attempt_on_def)
  show "work_on m (patch_attempt i f (releaseMachineSlot (at_machineId a) d)) =
      work_on m d - of_bool (at_machineId a = Some m)" for m
    using assms by (subst work_on_patch_attempt) (auto simp: attempt_on_def)
qed (use assms in simp_all)

lemma slots_ok_end_experiment:
  assumes "db_ok d" "slots_ok d" "db_get (d_experiments d) i = Some e"
    and "active_experiment_state (ex_state e)" "\<And>m. \<not> experiment_on m (f e)"
  shows "slots_ok (patch_experiment i f (releaseMachineSlot (ex_machineId e) d))"
proof (rule slots_ok_release [OF assms(1,2), where mid = "ex_machineId e"])
  show "1 \<le> work_on m d" if "ex_machineId e = Some m" for m
    using assms that by (intro work_on_pos_experiment [OF assms(1,3)]) (simp add: experiment_on_def)
  show "work_on m (patch_experiment i f (releaseMachineSlot (ex_machineId e) d)) =
      work_on m d - of_bool (ex_machineId e = Some m)" for m
    using assms by (subst work_on_patch_experiment) (auto simp: experiment_on_def)
qed (use assms in simp_all)

section \<open>Placement lemmas\<close>

lemma candidate_cmp_comparator:
  assumes "comparator lc"
  shows "comparator (candidate_cmp lc)"
proof
  show "candidate_cmp lc x y \<le> 0 \<or> candidate_cmp lc y x \<le> 0" for x y
    using comparator.cmp_total [OF assms] by (auto simp: candidate_cmp_def)
  show "candidate_cmp lc x z \<le> 0" if "candidate_cmp lc x y \<le> 0" "candidate_cmp lc y z \<le> 0" for x y z
    using that comparator.cmp_trans [OF assms]
    by (auto simp: candidate_cmp_def split: if_splits)
qed

lemma candidate_of_Some:
  "candidate_of s work r = Some c \<longleftrightarrow>
     eligible s work r \<and>
     (\<exists>machine. sn_machineById s (rr_machineId r) = Some machine \<and>
        fits s work r (rr_machineId r) machine \<and>
        c = \<lparr>cd_id = rr_machineId r, cd_machine = machine, cd_usesWarm = usesWarm s work (rr_machineId r),
             cd_resourcePressure = resourcePressure s work (rr_machineId r) machine,
             cd_score = fst (benchmarkScore (map_option summary_of (mc_benchmark machine))
                               (fit_policy_of s work) (sn_now s)),
             cd_source = snd (benchmarkScore (map_option summary_of (mc_benchmark machine))
                               (fit_policy_of s work) (sn_now s))\<rparr>)"
  by (auto simp: candidate_of_def Let_def split: option.splits)

lemma set_candidates:
  "c \<in> set (candidates lc s work) \<longleftrightarrow>
     (\<exists>r \<in> set (sn_readyByProfile s (wk_profile work)). candidate_of s work r = Some c)"
  by (auto simp: candidates_def List.map_filter_def image_iff)

lemma candidates_Nil:
  "candidates lc s work = [] \<longleftrightarrow>
     (\<forall>r \<in> set (sn_readyByProfile s (wk_profile work)). candidate_of s work r = None)"
proof -
  have "candidates lc s work = [] \<longleftrightarrow> (\<forall>c. c \<notin> set (candidates lc s work))"
    by (metis list.set_cases list.set_intros(1) neq_Nil_conv)
  then show ?thesis unfolding set_candidates by (auto) (metis option.exhaust)
qed

lemma candidates_least:
  assumes "comparator lc" "candidates lc s work = c # cs"
    and "r \<in> set (sn_readyByProfile s (wk_profile work))" "candidate_of s work r = Some c'"
  shows "candidate_cmp lc c c' \<le> 0"
proof -
  have "c' \<in> set (candidates lc s work)" using assms(3,4) by (auto simp: set_candidates)
  then show ?thesis
    using comparator.js_sort_head(2) [OF candidate_cmp_comparator [OF assms(1)]]
      assms(2) by (fastforce simp: candidates_def)
qed

lemma take_slot_fields [simp]:
  "sn_now (take_slot s work c) = sn_now s"
  "sn_activeProfileByName (take_slot s work c) = sn_activeProfileByName s"
  "sn_machineById (take_slot s work c) = sn_machineById s"
  "sn_readyByProfile (take_slot s work c) = sn_readyByProfile s"
  "sn_evidenceByMachineProfile (take_slot s work c) = sn_evidenceByMachineProfile s"
  by (simp_all add: take_slot_def Let_def)

lemma eligible_take_slot [simp]: "eligible (take_slot s work c) w r = eligible s w r"
  by (simp add: eligible_def)

text \<open>A fact about one placement step lifts to every placement of a run.\<close>

lemma placeInOrder_append:
  "placeInOrder lc s (xs @ ys) =
     (let (ps, s1) = placeInOrder lc s xs; (qs, s2) = placeInOrder lc s1 ys in (ps @ qs, s2))"
  by (induction lc s xs rule: placeInOrder.induct) (auto simp: Let_def split: list.splits prod.splits)

lemma placeInOrder_invariant:
  assumes "P s" and "\<And>s item work c cs. P s \<Longrightarrow> (item, work) \<in> set items \<Longrightarrow>
    candidates lc s work = c # cs \<Longrightarrow> P (take_slot s work c)"
  shows "P (snd (placeInOrder lc s items))"
  using assms
proof (induction items arbitrary: s)
  case (Cons iw items)
  obtain item work where iw: "iw = (item, work)" by fastforce
  have step: "P (snd (placeInOrder lc s' items))" if "P s'" for s'
    by (rule Cons.IH [OF that], erule Cons.prems(2)) auto
  show ?case
  proof (cases "candidates lc s work")
    case Nil
    then show ?thesis using step [OF Cons.prems(1)] by (simp add: iw Let_def case_prod_beta)
  next
    case 2: (Cons c cs)
    have "P (take_slot s work c)" by (rule Cons.prems(2) [of s item, OF Cons.prems(1) _ 2]) (simp add: iw)
    then show ?thesis using step 2 by (simp add: iw Let_def case_prod_beta)
  qed
qed simp

lemma placeInOrder_sound:
  assumes "(item, Some (m, reason)) \<in> set (fst (placeInOrder lc s items))"
  shows "\<exists>work r. (item, work) \<in> set items \<and> r \<in> set (sn_readyByProfile s (wk_profile work)) \<and>
    rr_machineId r = m \<and> eligible s work r"
  using assms
proof (induction lc s items rule: placeInOrder.induct)
  case (2 lc s it work items)
  show ?case
  proof (cases "candidates lc s work")
    case Nil
    with 2 show ?thesis by (fastforce simp: Let_def case_prod_beta)
  next
    case (Cons c cs)
    then obtain r where r: "r \<in> set (sn_readyByProfile s (wk_profile work))" "candidate_of s work r = Some c"
      using set_candidates [of c lc s work] by auto
    then have "rr_machineId r = cd_id c" "eligible s work r" by (auto simp: candidate_of_Some)
    with r Cons 2 show ?thesis by (fastforce simp: Let_def case_prod_beta)
  qed
qed simp

lemma map_fst_placeInOrder: "map fst (fst (placeInOrder lc s items)) = map fst items"
  by (induction lc s items rule: placeInOrder.induct)
     (auto simp: Let_def case_prod_beta split: list.splits)

section \<open>Capacity lemmas\<close>

lemma usable_le: "0 \<le> n \<Longrightarrow> usable (Some n) w = Some u \<Longrightarrow> u \<le> n"
  by (auto simp: usable_def)

definition within_envelope :: "snapshot \<Rightarrow> nat \<Rightarrow> machine \<Rightarrow> bool" where
  "within_envelope s m machine \<longleftrightarrow>
     (\<forall>c. mc_cpus machine = Some c \<and> 0 \<le> c \<longrightarrow> rv_vcpus (sn_reservedByMachine s m) \<le> c) \<and>
     (\<forall>c. mc_memoryMiB machine = Some c \<and> 0 \<le> c \<longrightarrow> rv_memoryMiB (sn_reservedByMachine s m) \<le> c) \<and>
     rv_count (sn_reservedByMachine s m) \<le> mc_maxSlots machine"

lemma candidate_fits:
  assumes "candidates lc s work = c # cs"
  shows "\<exists>r machine. rr_machineId r = cd_id c \<and> cd_usesWarm c = usesWarm s work (cd_id c) \<and>
    sn_machineById s (cd_id c) = Some machine \<and> fits s work r (cd_id c) machine"
proof -
  from assms have "c \<in> set (candidates lc s work)" by simp
  then show ?thesis by (auto simp: set_candidates candidate_of_Some)
qed

lemma not_exceeds_usable:
  assumes "\<not> exceeds n (usable amount w)" "amount = Some a" "0 \<le> a"
  shows "n \<le> a"
proof -
  obtain u where "usable (Some a) w = Some u" by (simp add: usable_def)
  then show ?thesis using assms usable_le by (fastforce simp: exceeds_def)
qed

lemma take_slot_envelope:
  assumes "candidates lc s work = c # cs" "sn_machineById s (cd_id c) = Some machine"
  shows "within_envelope (take_slot s work c) (cd_id c) machine"
proof -
  obtain r where r: "cd_usesWarm c = usesWarm s work (cd_id c)" "fits s work r (cd_id c) machine"
    using candidate_fits [OF assms(1)] assms(2) by auto
  then show ?thesis
    unfolding within_envelope_def take_slot_def Let_def fits_def occupiedGuests_def
    by (auto simp: add_reservation_def dest: not_exceeds_usable)
qed

lemma take_slot_envelope_other:
  assumes "within_envelope s m machine" "m \<noteq> cd_id c"
  shows "within_envelope (take_slot s work c) m machine"
  using assms by (auto simp: within_envelope_def take_slot_def Let_def)

lemma placeInOrder_envelope:
  assumes "sn_machineById s m = Some machine"
    and "m \<in> {k. \<exists>item reason. (item, Some (k, reason)) \<in> set (fst (placeInOrder lc s items))} \<or>
         within_envelope s m machine"
  shows "within_envelope (snd (placeInOrder lc s items)) m machine"
  using assms
proof (induction items arbitrary: s)
  case (Cons iw items)
  obtain item work where iw: "iw = (item, work)" by fastforce
  show ?case
  proof (cases "candidates lc s work")
    case Nil
    with Cons show ?thesis by (auto simp: iw Let_def case_prod_beta)
  next
    case c: (Cons c cs)
    let ?s = "take_slot s work c"
    have "sn_machineById ?s m = Some machine" using Cons.prems by simp
    moreover have "m \<in> {k. \<exists>item reason. (item, Some (k, reason)) \<in> set (fst (placeInOrder lc ?s items))} \<or>
         within_envelope ?s m machine"
      using Cons.prems take_slot_envelope [OF c] take_slot_envelope_other
      by (cases "m = cd_id c") (auto simp: iw c Let_def case_prod_beta)
    ultimately show ?thesis using Cons.IH by (simp add: iw c Let_def case_prod_beta)
  qed
qed simp

text \<open>
  Slots. A warm guest is already counted in the reservation, so placing work on one does not count
  again; the used slots stay within \<open>maxSlots\<close> as long as the used slots and the idle warm guests
  of the Worker are covered by the reservation count.
\<close>

definition warm_covered :: "snapshot \<Rightarrow> nat \<Rightarrow> bool" where
  "warm_covered s m \<longleftrightarrow>
     (\<forall>ps. distinct ps \<longrightarrow>
        or_else (sn_usedSlotsByMachine s m) 0 + (\<Sum>p\<leftarrow>ps. sn_idleWarmByMachineProfile s (m, p)) \<le>
        rv_count (sn_reservedByMachine s m))"

lemma warm_coveredD:
  "warm_covered s m \<Longrightarrow> distinct ps \<Longrightarrow>
     or_else (sn_usedSlotsByMachine s m) 0 + (\<Sum>p\<leftarrow>ps. sn_idleWarmByMachineProfile s (m, p)) \<le>
     rv_count (sn_reservedByMachine s m)"
  by (auto simp: warm_covered_def)

lemma sum_list_decrement:
  assumes "distinct ps"
  shows "(\<Sum>p\<leftarrow>ps. (f(k := f k - 1)) (m, p)) = (\<Sum>p\<leftarrow>ps. f (m, p)) - (if fst k = m \<and> snd k \<in> set ps then 1 else (0 :: int))"
  using assms by (induction ps) auto

lemma take_slot_warm_covered:
  assumes w: "warm_covered s m" and c: "cd_usesWarm c = usesWarm s work (cd_id c)"
  shows "warm_covered (take_slot s work c) m"
proof (cases "cd_id c = m")
  case False
  then show ?thesis
    using w by (auto simp: warm_covered_def take_slot_def Let_def sum_list_decrement)
next
  case m: True
  show ?thesis
  proof (cases "usesWarm s work m")
    case False
    then show ?thesis
      using w m c by (auto simp: warm_covered_def take_slot_def Let_def add_reservation_def)
  next
    case warm: True
    let ?p = "wk_profile work"
    show ?thesis
      unfolding warm_covered_def
    proof (intro allI impI)
      fix ps :: "string list" assume d: "distinct ps"
      have "?p \<notin> set ps \<Longrightarrow> or_else (sn_usedSlotsByMachine s m) 0 + 1 +
          (\<Sum>p\<leftarrow>ps. sn_idleWarmByMachineProfile s (m, p)) \<le> rv_count (sn_reservedByMachine s m)"
        using warm_coveredD [OF w, of "?p # ps"] d warm by (simp add: usesWarm_def)
      moreover note warm_coveredD [OF w d]
      ultimately show "or_else (sn_usedSlotsByMachine (take_slot s work c) m) 0 +
          (\<Sum>p\<leftarrow>ps. sn_idleWarmByMachineProfile (take_slot s work c) (m, p)) \<le>
          rv_count (sn_reservedByMachine (take_slot s work c) m)"
        using m c warm d by (auto simp: take_slot_def Let_def sum_list_decrement fun_upd_same simp del: fun_upd_apply)
    qed
  qed
qed


lemma take_slot_used:
  assumes "warm_covered s (cd_id c)" "candidates lc s work = c # cs"
    "sn_machineById s (cd_id c) = Some machine" "sn_usedSlotsByMachine s (cd_id c) \<noteq> None"
  shows "or_else (sn_usedSlotsByMachine (take_slot s work c) (cd_id c)) 0 \<le> mc_maxSlots machine"
proof -
  obtain r where r: "cd_usesWarm c = usesWarm s work (cd_id c)" "fits s work r (cd_id c) machine"
    using candidate_fits [OF assms(2)] assms(3) by auto
  obtain u where u: "sn_usedSlotsByMachine s (cd_id c) = Some u" using assms(4) by blast
  show ?thesis
  proof (cases "usesWarm s work (cd_id c)")
    case True
    then have "u + 1 \<le> rv_count (sn_reservedByMachine s (cd_id c))"
      using warm_coveredD [OF assms(1), of "[wk_profile work]"] u by (simp add: usesWarm_def)
    with True r u show ?thesis
      by (simp add: take_slot_def Let_def fits_def occupiedGuests_def)
  next
    case False
    with r u show ?thesis
      by (auto simp: take_slot_def Let_def fits_def occupiedGuests_def)
  qed
qed

lemma take_slot_used_other:
  "m \<noteq> cd_id c \<Longrightarrow> sn_usedSlotsByMachine (take_slot s work c) m = sn_usedSlotsByMachine s m"
  by (simp add: take_slot_def Let_def)

lemma take_slot_used_defined:
  "sn_usedSlotsByMachine s m \<noteq> None \<Longrightarrow> sn_usedSlotsByMachine (take_slot s work c) m \<noteq> None"
  by (simp add: take_slot_def Let_def)

text \<open>Under that cover no Worker that takes work ends above its \<open>maxSlots\<close>.\<close>

lemma placeInOrder_used:
  assumes "sn_machineById s m = Some machine" "warm_covered s m" "sn_usedSlotsByMachine s m \<noteq> None"
    and "m \<in> {k. \<exists>item reason. (item, Some (k, reason)) \<in> set (fst (placeInOrder lc s items))} \<or>
         or_else (sn_usedSlotsByMachine s m) 0 \<le> mc_maxSlots machine"
  shows "or_else (sn_usedSlotsByMachine (snd (placeInOrder lc s items)) m) 0 \<le> mc_maxSlots machine"
  using assms
proof (induction items arbitrary: s)
  case (Cons iw items)
  obtain item work where iw: "iw = (item, work)" by fastforce
  show ?case
  proof (cases "candidates lc s work")
    case Nil
    with Cons show ?thesis by (auto simp: iw Let_def case_prod_beta)
  next
    case c: (Cons c cs)
    let ?s = "take_slot s work c"
    have "cd_usesWarm c = usesWarm s work (cd_id c)" using candidate_fits [OF c] by auto
    then have "warm_covered ?s m" using Cons.prems(2) by (rule take_slot_warm_covered [rotated])
    moreover have "sn_machineById ?s m = Some machine" "sn_usedSlotsByMachine ?s m \<noteq> None"
      using Cons.prems(1,3) take_slot_used_defined by auto
    moreover have "m \<in> {k. \<exists>item reason. (item, Some (k, reason)) \<in> set (fst (placeInOrder lc ?s items))} \<or>
         or_else (sn_usedSlotsByMachine ?s m) 0 \<le> mc_maxSlots machine"
    proof (cases "m = cd_id c")
      case True
      then show ?thesis using take_slot_used [OF _ c] Cons.prems(1-3) by blast
    next
      case False
      then show ?thesis
        using Cons.prems(4) by (auto simp: iw c Let_def case_prod_beta take_slot_used_other)
    qed
    ultimately show ?thesis using Cons.IH by (simp add: iw c Let_def case_prod_beta)
  qed
qed simp

section \<open>Accounting of \<open>tryAssign\<close>\<close>

definition placed_on :: "nat \<Rightarrow> placement list \<Rightarrow> int" where
  "placed_on m ps = int (length (filter (\<lambda>p. map_option fst (snd p) = Some m) ps))"

lemma placed_on_simps [simp]:
  "placed_on m [] = 0"
  "placed_on m ((item, None) # ps) = placed_on m ps"
  "placed_on m ((item, Some (k, reason)) # ps) = placed_on m ps + of_bool (k = m)"
  by (simp_all add: placed_on_def)

lemma placed_on_nonneg: "0 \<le> placed_on m ps"
  by (simp add: placed_on_def)

lemma placed_on_pos: "(item, Some (m, reason)) \<in> set ps \<Longrightarrow> 1 \<le> placed_on m ps"
  unfolding placed_on_def by (induction ps) auto

lemma list_ex_placed:
  "list_ex (\<lambda>p. map_option fst (snd p) = Some m) ps \<Longrightarrow> \<exists>item reason. (item, Some (m, reason)) \<in> set ps"
  unfolding list_ex_iff by (auto simp: map_option_eq_Some) (metis prod.collapse)

lemma placeInOrder_used_count:
  assumes "sn_usedSlotsByMachine s m = Some u"
  shows "sn_usedSlotsByMachine (snd (placeInOrder lc s items)) m =
    Some (u + placed_on m (fst (placeInOrder lc s items)))"
  using assms
proof (induction items arbitrary: s u)
  case (Cons iw items)
  obtain item work where iw: "iw = (item, work)" by fastforce
  show ?case
  proof (cases "candidates lc s work")
    case Nil
    with Cons show ?thesis by (simp add: iw Let_def case_prod_beta)
  next
    case c: (Cons c cs)
    have "sn_usedSlotsByMachine (take_slot s work c) m = Some (u + of_bool (cd_id c = m))"
      using Cons.prems by (auto simp: take_slot_def Let_def)
    from Cons.IH [OF this] show ?thesis by (simp add: iw c Let_def case_prod_beta)
  qed
qed simp

text \<open>The rows a placement is about: waiting, and on no Worker.\<close>

fun unplaced :: "db \<Rightarrow> work_item \<Rightarrow> bool" where
  "unplaced d (AttemptItem i) \<longleftrightarrow>
     (\<exists>a. db_get (d_attempts d) i = Some a \<and> at_state a = APending \<and> at_machineId a = None)"
| "unplaced d (ExperimentItem i) \<longleftrightarrow>
     (\<exists>e. db_get (d_experiments d) i = Some e \<and> ex_state e = EQueued \<and> ex_machineId e = None)"

lemma assign_ok [simp]: "db_ok d \<Longrightarrow> db_ok (assign p d)"
  by (induction p d rule: assign.induct) auto

lemma assign_machines [simp]: "d_machines (assign p d) = d_machines d"
  by (induction p d rule: assign.induct) auto

lemma unplaced_assign:
  "unplaced d item \<Longrightarrow> fst p \<noteq> item \<Longrightarrow> unplaced (assign p d) item"
  by (induction p d rule: assign.induct; cases item) auto

lemma work_on_assign:
  assumes "db_ok d" "unplaced d item"
  shows "work_on m (assign (item, target) d) = work_on m d + placed_on m [(item, target)]"
proof (cases target)
  case (Some t)
  obtain k reason where t: "t = (k, reason)" by fastforce
  show ?thesis
  proof (cases item)
    case (AttemptItem i)
    then obtain a where a: "db_get (d_attempts d) i = Some a" "at_state a = APending" "at_machineId a = None"
      using assms(2) by auto
    show ?thesis
      by (simp add: Some t AttemptItem work_on_patch_attempt [OF assms(1) a(1)] attempt_on_def a)
  next
    case (ExperimentItem i)
    then obtain e where e: "db_get (d_experiments d) i = Some e" "ex_state e = EQueued" "ex_machineId e = None"
      using assms(2) by auto
    show ?thesis
      by (simp add: Some t ExperimentItem work_on_patch_experiment [OF assms(1) e(1)] experiment_on_def e)
  qed
qed simp

lemma fold_assign_machines [simp]: "d_machines (fold assign ps d) = d_machines d"
  by (induction ps arbitrary: d) auto

lemma fold_assign_ok: "db_ok d \<Longrightarrow> db_ok (fold assign ps d)"
  by (induction ps arbitrary: d) auto

lemma work_on_fold_assign:
  assumes "db_ok d" "distinct (map fst ps)" "\<forall>p \<in> set ps. unplaced d (fst p)"
  shows "work_on m (fold assign ps d) = work_on m d + placed_on m ps"
  using assms
proof (induction ps arbitrary: d)
  case (Cons p ps)
  obtain item target where p: "p = (item, target)" by fastforce
  have "\<forall>q \<in> set ps. unplaced (assign p d) (fst q)"
    using Cons.prems by (auto intro!: unplaced_assign)
  moreover have "db_ok (assign p d)" using Cons.prems(1) by simp
  ultimately have "work_on m (fold assign ps (assign p d)) = work_on m (assign p d) + placed_on m ps"
    using Cons.IH Cons.prems(2) by simp
  moreover have "work_on m (assign p d) = work_on m d + placed_on m [p]"
    using Cons.prems work_on_assign unfolding p by simp
  moreover have "placed_on m (p # ps) = placed_on m [p] + placed_on m ps"
    by (simp add: placed_on_def)
  ultimately show ?case by simp
qed simp

lemma write_used_slots_tables [simp]:
  "d_attempts (write_used_slots s x d) = d_attempts d"
  "d_experiments (write_used_slots s x d) = d_experiments d"
  "d_jobs (write_used_slots s x d) = d_jobs d"
  "db_ok d \<Longrightarrow> db_ok (write_used_slots s x d)"
  by (auto simp: write_used_slots_def split: option.splits prod.splits)

lemma fold_write_used_tables [simp]:
  "d_attempts (fold (write_used_slots s) ms d) = d_attempts d"
  "d_experiments (fold (write_used_slots s) ms d) = d_experiments d"
  "d_jobs (fold (write_used_slots s) ms d) = d_jobs d"
  "db_ok d \<Longrightarrow> db_ok (fold (write_used_slots s) ms d)"
  by (induction ms arbitrary: d) auto

lemma fold_write_used_slots:
  assumes "distinct (map fst ms)" "\<forall>(m, row) \<in> set ms. db_get (d_machines d) m = Some row"
  shows "db_get (d_machines (fold (write_used_slots s) ms d)) m =
    (case map_of ms m of
       None \<Rightarrow> db_get (d_machines d) m
     | Some row \<Rightarrow> Some (row\<lparr>mc_usedSlots := or_else (sn_usedSlotsByMachine s m) (mc_usedSlots row)\<rparr>))"
  using assms
proof (induction ms arbitrary: d)
  case (Cons x ms)
  obtain k row where x: "x = (k, row)" by fastforce
  let ?d = "write_used_slots s x d"
  have get: "db_get (d_machines ?d) j =
      (if j = k then Some (row\<lparr>mc_usedSlots := or_else (sn_usedSlotsByMachine s k) (mc_usedSlots row)\<rparr>)
       else db_get (d_machines d) j)" for j
    using Cons.prems(2) by (auto simp: write_used_slots_def x split: option.splits)
  have "\<forall>(m, row) \<in> set ms. db_get (d_machines ?d) m = Some row"
  proof (intro ballI, clarify)
    fix j r assume j: "(j, r) \<in> set ms"
    then have "j \<in> fst ` set ms" by (rule image_eqI [rotated]) simp
    then have "j \<noteq> k" using Cons.prems(1) by (auto simp: x)
    moreover have "db_get (d_machines d) j = Some r" using j Cons.prems(2) by auto
    ultimately show "db_get (d_machines ?d) j = Some r" by (simp add: get)
  qed
  then have "db_get (d_machines (fold (write_used_slots s) ms ?d)) m =
    (case map_of ms m of
       None \<Rightarrow> db_get (d_machines ?d) m
     | Some row \<Rightarrow> Some (row\<lparr>mc_usedSlots := or_else (sn_usedSlotsByMachine s m) (mc_usedSlots row)\<rparr>))"
    using Cons.IH Cons.prems(1) by simp
  moreover have "map_of ms k = None"
    using Cons.prems(1) by (simp add: x map_of_eq_None_iff)
  ultimately show ?case by (auto simp: x get [unfolded x] split: option.splits)
qed simp

lemma loadSchedulerSnapshot_fields:
  assumes "loadSchedulerSnapshot d now pa qe = Inr s"
  shows "sn_now s = now" "sn_pendingAttempts s = pa" "sn_queuedExperiments s = qe"
    "sn_machineById s = db_get (online_machines now d)"
    "sn_usedSlotsByMachine s = (\<lambda>m. map_option mc_usedSlots (db_get (online_machines now d) m))"
  using assms unfolding loadSchedulerSnapshot_def Let_def res_bind_Inr case_prod_beta sum.inject
  by (elim exE conjE, hypsubst, simp only: snapshot.simps)+

lemma tryAssign_cases:
  assumes "tryAssign lc now d = Inr (n, d')"
  obtains "n = 0" "d' = d"
  | s ps final where
      "loadSchedulerSnapshot d now (db_query (\<lambda>a. at_state a = APending) (d_attempts d))
         (db_query (\<lambda>e. ex_state e = EQueued) (d_experiments d)) = Inr s"
      "placeInOrder lc s (unassignedQueue s) = (ps, final)"
      "n = length (filter (\<lambda>p. snd p \<noteq> None) ps)"
      "d' = fold (write_used_slots final) (online_machines now d) (fold assign ps d)"
proof -
  let ?P = "db_query (\<lambda>a. at_state a = APending) (d_attempts d)"
  let ?E = "db_query (\<lambda>e. ex_state e = EQueued) (d_experiments d)"
  show thesis
  proof (cases "\<not> list_ex (\<lambda>(i, a). at_machineId a = None) ?P \<and>
                \<not> list_ex (\<lambda>(i, e). ex_machineId e = None) ?E")
    case True
    then have "tryAssign lc now d = Inr (0, d)" by (simp only: tryAssign_def Let_def if_True simp_thms)
    with assms that(1) show thesis by simp
  next
    case False
    then have "\<exists>s. loadSchedulerSnapshot d now ?P ?E = Inr s \<and>
        (n, d') = (length (filter (\<lambda>p. snd p \<noteq> None) (fst (placeInOrder lc s (unassignedQueue s)))),
           fold (write_used_slots (snd (placeInOrder lc s (unassignedQueue s)))) (online_machines now d)
             (fold assign (fst (placeInOrder lc s (unassignedQueue s))) d))"
      using assms unfolding tryAssign_def Let_def case_prod_beta if_not_P [OF False] res_bind_Inr sum.inject
      by metis
    then show thesis using that(2) by (metis prod.collapse prod.inject)
  qed
qed

lemma distinct_fst_js_sort: "distinct (map fst xs) \<Longrightarrow> distinct (map fst (js_sort cmp xs))"
  by (auto simp: distinct_map intro: distinct_js_sort)

lemma set_unassignedQueue:
  "(item, work) \<in> set (unassignedQueue s) \<longleftrightarrow> matchesActiveProfile s work \<and>
     ((\<exists>i a. (i, a) \<in> set (sn_pendingAttempts s) \<and> at_machineId a = None \<and>
        item = AttemptItem i \<and> work = attempt_work a) \<or>
      (\<exists>i e. (i, e) \<in> set (sn_queuedExperiments s) \<and> ex_machineId e = None \<and>
        item = ExperimentItem i \<and> work = experiment_work e))"
  by (auto simp: unassignedQueue_def image_iff)

lemma unassignedQueue_distinct:
  assumes "db_wf (sn_pendingAttempts s)" "db_wf (sn_queuedExperiments s)"
  shows "distinct (map fst (unassignedQueue s))"
proof -
  let ?A = "map (\<lambda>(i, a). (AttemptItem i, attempt_work a))
              (filter (\<lambda>(i, a). at_machineId a = None) (sn_pendingAttempts s))"
  let ?E = "map (\<lambda>(i, e). (ExperimentItem i, experiment_work e))
              (filter (\<lambda>(i, e). ex_machineId e = None) (sn_queuedExperiments s))"
  have "map fst ?A = map AttemptItem (map fst (filter (\<lambda>(i, a). at_machineId a = None) (sn_pendingAttempts s)))"
    by (simp add: case_prod_beta comp_def)
  moreover have "map fst ?E = map ExperimentItem (map fst (filter (\<lambda>(i, e). ex_machineId e = None) (sn_queuedExperiments s)))"
    by (simp add: case_prod_beta comp_def)
  moreover have "distinct (map fst (filter P xs))" if "distinct (map fst xs)" for P and xs :: "(nat \<times> 'x) list"
    using that by (rule distinct_map_filter)
  ultimately have "distinct (map fst (?A @ ?E))"
    using assms by (auto simp: db_wf_def distinct_map inj_on_def simp del: map_map)
  then show ?thesis
    unfolding unassignedQueue_def by (intro distinct_fst_js_sort distinct_map_filter)
qed

lemma db_wf_query [simp, intro]: "db_wf t \<Longrightarrow> db_wf (db_query P t)"
  by (simp add: db_wf_def db_query_def distinct_map_filter)

lemma db_get_query:
  assumes "db_wf t"
  shows "db_get (db_query P t) i = Some r \<longleftrightarrow> db_get t i = Some r \<and> P r"
  using assms by (simp add: db_wf_get_iff db_query_iff)

lemma unassignedQueue_unplaced:
  assumes "db_ok d"
    and "loadSchedulerSnapshot d now (db_query (\<lambda>a. at_state a = APending) (d_attempts d))
         (db_query (\<lambda>e. ex_state e = EQueued) (d_experiments d)) = Inr s"
    and "(item, work) \<in> set (unassignedQueue s)"
  shows "unplaced d item"
  using assms(3) loadSchedulerSnapshot_fields(2,3) [OF assms(2)] assms(1)
  by (auto simp: set_unassignedQueue db_query_iff db_wf_get_iff db_ok_def)

lemma placed_machine_online:
  assumes "(item, Some (m, reason)) \<in> set (fst (placeInOrder lc s items))"
  shows "sn_machineById s m \<noteq> None"
proof -
  from placeInOrder_sound [OF assms] obtain work r where "rr_machineId r = m" "eligible s work r" by blast
  then show ?thesis by (auto simp: eligible_def isSchedulableReadiness_def Let_def split: option.splits)
qed

lemma placed_on_zero: "(\<And>item reason. (item, Some (m, reason)) \<notin> set ps) \<Longrightarrow> placed_on m ps = 0"
  by (auto simp: placed_on_def filter_empty_conv)

lemma tryAssign_slots_ok:
  assumes ok: "db_ok d" "slots_ok d" and run: "tryAssign lc now d = Inr (n, d')"
  shows "db_ok d' \<and> slots_ok d'"
  using run
proof (cases rule: tryAssign_cases)
  case (2 s ps final)
  let ?ms = "online_machines now d" and ?q = "unassignedQueue s"
  note fields = loadSchedulerSnapshot_fields [OF 2(1)]
  have ps: "ps = fst (placeInOrder lc s ?q)" "final = snd (placeInOrder lc s ?q)" using 2(2) by simp_all
  have wf: "db_wf ?ms" using ok(1) by (auto simp: online_machines_def db_ok_def)
  have rows: "\<forall>(m, row) \<in> set ?ms. db_get (d_machines (fold assign ps d)) m = Some row"
    using ok(1) by (auto simp: online_machines_def db_query_iff db_ok_def db_wf_get_iff)
  have "db_wf (sn_pendingAttempts s)" "db_wf (sn_queuedExperiments s)"
    using ok(1) by (auto simp: fields db_ok_def)
  then have "distinct (map fst ps)"
    unfolding ps map_fst_placeInOrder by (rule unassignedQueue_distinct)
  moreover have "\<forall>p \<in> set ps. unplaced d (fst p)"
  proof
    fix p assume "p \<in> set ps"
    then have "fst p \<in> set (map fst ps)" by simp
    then show "unplaced d (fst p)"
      unfolding ps map_fst_placeInOrder using unassignedQueue_unplaced [OF ok(1) 2(1)] by auto
  qed
  ultimately have work: "work_on m d' = work_on m d + placed_on m ps" for m
    using work_on_fold_assign [OF ok(1), of ps m] work_on_cong [of d' "fold assign ps d" m] 2(4) by simp
  have ok': "db_ok d'" using ok(1) 2(4) fold_assign_ok by simp
  have "mc_usedSlots row = work_on m d'" if row: "db_get (d_machines d') m = Some row" for m row
  proof (cases "map_of ?ms m")
    case None
    then have "sn_machineById s m = None" by (simp add: fields db_get_def)
    then have "placed_on m ps = 0"
      unfolding ps by (intro placed_on_zero) (use placed_machine_online in blast)
    moreover have "db_get (d_machines d) m = Some row"
      using row fold_write_used_slots [OF _ rows, of final m] wf None 2(4) by (simp add: db_wf_def)
    ultimately show ?thesis using work ok slots_ok_iff [OF ok(1)] by simp
  next
    case (Some r)
    then have "sn_usedSlotsByMachine s m = Some (mc_usedSlots r)" by (simp add: fields db_get_def)
    from placeInOrder_used_count [OF this]
    have "sn_usedSlotsByMachine final m = Some (mc_usedSlots r + placed_on m ps)" by (simp add: ps)
    then have "mc_usedSlots row = mc_usedSlots r + placed_on m ps"
      using row fold_write_used_slots [OF _ rows, of final m] wf Some 2(4) by (auto simp: db_wf_def)
    moreover have "db_get (d_machines d) m = Some r"
      using rows map_of_SomeD [OF Some] by auto
    ultimately show ?thesis using work ok slots_ok_iff [OF ok(1)] by simp
  qed
  then show ?thesis using ok' slots_ok_iff by blast
qed (use ok in simp)

section \<open>The snapshot covers its warm guests\<close>

definition load_on :: "nat \<Rightarrow> load \<Rightarrow> bool" where
  "load_on m l \<longleftrightarrow> fst l = Some m \<and> \<not> snd (snd l)"

lemma reserve_loads_count:
  "rv_count (fst (reserve_loads loads (reserved, active)) m) =
     rv_count (reserved m) + int (length (filter (load_on m) loads))"
proof (induction loads arbitrary: reserved active)
  case (Cons l loads)
  obtain mid work fin where l: "l = (mid, work, fin)" by (cases l) auto
  show ?case
    by (cases mid; cases fin) (simp_all add: l Cons.IH load_on_def add_reservation_def)
qed simp

text \<open>Each step of the warm loop adds to the count what it adds to the idle guests.\<close>

definition idle_covered :: "int \<Rightarrow> nat \<Rightarrow> (nat \<Rightarrow> reservation) \<times> (nat \<times> string \<Rightarrow> int) \<Rightarrow> bool" where
  "idle_covered u m acc \<longleftrightarrow> (\<forall>p. 0 \<le> snd acc (m, p)) \<and>
     (\<forall>ps. distinct ps \<longrightarrow> u + (\<Sum>p\<leftarrow>ps. snd acc (m, p)) \<le> rv_count (fst acc m))"

lemma sum_list_update_le:
  fixes f :: "'k \<Rightarrow> int"
  assumes "distinct ps" "\<And>p. 0 \<le> f (k p)" "0 \<le> v" "inj k"
  shows "(\<Sum>p\<leftarrow>ps. (f(k q := v)) (k p)) \<le> (\<Sum>p\<leftarrow>ps. f (k p)) + v"
  using assms(1)
proof (induction ps)
  case (Cons a ps)
  then show ?case
  proof (cases "a = q")
    case True
    then have "(\<Sum>p\<leftarrow>ps. (f(k q := v)) (k p)) = (\<Sum>p\<leftarrow>ps. f (k p))"
      using Cons.prems assms(4) by (intro arg_cong [where f = sum_list] map_cong) (auto dest: injD)
    then show ?thesis using True assms(2) [of a] by simp
  next
    case False
    then have "k a \<noteq> k q" using assms(4) by (auto dest: injD)
    then show ?thesis using Cons by simp
  qed
qed (use assms(3) in simp)

lemma idle_covered_step:
  assumes "idle_covered u m (reserved, idleWarm)" "0 \<le> idle"
  shows "idle_covered u m
    (reserved(k := add_reservation v w idle (reserved k)), idleWarm((k, q) := idle))"
proof (cases "k = m")
  case False
  then show ?thesis using assms(1) by (simp add: idle_covered_def)
next
  case True
  have nonneg: "0 \<le> idleWarm (m, p)" for p using assms(1) by (simp add: idle_covered_def)
  have "u + (\<Sum>p\<leftarrow>ps. (idleWarm((m, q) := idle)) (m, p)) \<le> rv_count (reserved m) + idle" if "distinct ps" for ps
    using sum_list_update_le [of ps idleWarm "Pair m" idle q] that nonneg assms
    by (fastforce simp: idle_covered_def inj_on_def)
  then show ?thesis
    using True nonneg assms(2) by (simp add: idle_covered_def add_reservation_def)
qed

lemma reserve_warm_covered:
  assumes "idle_covered u m acc"
  shows "idle_covered u m (reserve_warm profiles machineById active rs acc)"
  using assms
proof (induction rs arbitrary: acc)
  case (Cons r rs)
  obtain reserved idleWarm where acc: "acc = (reserved, idleWarm)" by fastforce
  show ?case
  proof (cases "warm_profile profiles machineById r")
    case None
    then show ?thesis using Cons by (simp add: acc)
  next
    case (Some p)
    define idle where "idle = max 0 (warm_guests r - active (rr_machineId r, rr_profile r))"
    have "0 \<le> idle" by (simp add: idle_def)
    note step = Cons.IH [OF idle_covered_step [OF Cons.prems [unfolded acc] this]]
    show ?thesis
      using Cons.IH Cons.prems step
      by (simp add: acc Some Let_def idle_def [symmetric] del: fun_upd_apply)
  qed
qed simp

definition snapshot_loads :: "db \<Rightarrow> load list" where
  "snapshot_loads d =
     map (attempt_load \<circ> snd) (db_query (\<lambda>a. at_state a = APending) (d_attempts d) @
        concat (map (\<lambda>state. db_query (\<lambda>a. at_state a = state) (d_attempts d)) [APreparing, AReady, ARunning])) @
     map (experiment_load \<circ> snd) (db_query (\<lambda>e. ex_state e = EQueued) (d_experiments d) @
        concat (map (\<lambda>state. db_query (\<lambda>e. ex_state e = state) (d_experiments d)) [EPreparing, ERunning]))"

lemma attempt_loads_count:
  "length (filter (load_on m) (map (attempt_load \<circ> snd) (db_query (\<lambda>a. at_state a = APending) t @
      concat (map (\<lambda>state. db_query (\<lambda>a. at_state a = state) t) [APreparing, AReady, ARunning])))) =
   length (db_query (attempt_on m) t)"
proof (induction t)
  case (Cons x t)
  obtain i a where x: "x = (i, a)" by fastforce
  show ?case
    using Cons by (cases "at_state a")
      (simp_all add: x db_query_def load_on_def attempt_load_def attempt_on_def)
qed (simp add: db_query_def)

lemma experiment_loads_count:
  "length (filter (load_on m) (map (experiment_load \<circ> snd) (db_query (\<lambda>e. ex_state e = EQueued) t @
      concat (map (\<lambda>state. db_query (\<lambda>e. ex_state e = state) t) [EPreparing, ERunning])))) =
   length (db_query (experiment_on m) t)"
proof (induction t)
  case (Cons x t)
  obtain i e where x: "x = (i, e)" by fastforce
  show ?case
    using Cons by (cases "ex_state e")
      (simp_all add: x db_query_def load_on_def experiment_load_def experiment_on_def)
qed (simp add: db_query_def)

lemma snapshot_loads_count:
  assumes "db_ok d"
  shows "int (length (filter (load_on m) (snapshot_loads d))) =
    work_on m d - int (count_rows (d_jobs d) (job_on m))"
  using assms
  by (simp only: snapshot_loads_def filter_append length_append attempt_loads_count
      experiment_loads_count work_on_def db_ok_def count_docs_filter)

lemma loadSchedulerSnapshot_reserved:
  assumes "loadSchedulerSnapshot d now (db_query (\<lambda>a. at_state a = APending) (d_attempts d))
         (db_query (\<lambda>e. ex_state e = EQueued) (d_experiments d)) = Inr s"
  shows "\<exists>profiles machineById active rs. (sn_reservedByMachine s, sn_idleWarmByMachineProfile s) =
    reserve_warm profiles machineById active rs
      (fst (reserve_loads (snapshot_loads d) (\<lambda>_. no_reservation, \<lambda>_. 0)), \<lambda>_. 0)"
  using assms unfolding loadSchedulerSnapshot_def Let_def res_bind_Inr case_prod_beta sum.inject
  unfolding snapshot_loads_def [symmetric]
  by (elim exE conjE, hypsubst, simp only: snapshot.simps prod.collapse) blast

lemma snapshot_warm_covered:
  assumes ok: "db_ok d" "slots_ok d"
    and load: "loadSchedulerSnapshot d now (db_query (\<lambda>a. at_state a = APending) (d_attempts d))
         (db_query (\<lambda>e. ex_state e = EQueued) (d_experiments d)) = Inr s"
    and jobs: "count_rows (d_jobs d) (job_on m) = 0" and online: "sn_machineById s m = Some machine"
  shows "warm_covered s m"
proof -
  note fields = loadSchedulerSnapshot_fields [OF load]
  have wf: "db_wf (d_machines d)" using ok(1) by (simp add: db_ok_def)
  have "db_get (d_machines d) m = Some machine"
    using online wf by (simp add: fields online_machines_def db_get_query)
  then have used: "sn_usedSlotsByMachine s m = Some (work_on m d)"
    using online ok slots_ok_iff [OF ok(1)] by (simp add: fields)
  let ?acc = "(fst (reserve_loads (snapshot_loads d) (\<lambda>_. no_reservation, \<lambda>_. 0)), \<lambda>_ :: nat \<times> string. 0 :: int)"
  have "idle_covered (work_on m d) m ?acc"
    using snapshot_loads_count [OF ok(1), of m] jobs
    by (simp add: idle_covered_def reserve_loads_count no_reservation_def sum_list_triv)
  then have "idle_covered (work_on m d) m (sn_reservedByMachine s, sn_idleWarmByMachineProfile s)"
    using loadSchedulerSnapshot_reserved [OF load] reserve_warm_covered by metis
  then show ?thesis using used by (simp add: warm_covered_def idle_covered_def)
qed

section \<open>Where the snapshot comes from\<close>

lemma res_map_set:
  "res_map f xs = Inr ys \<Longrightarrow> y \<in> set ys \<Longrightarrow> \<exists>x \<in> set xs. f x = Inr y"
  by (induction xs arbitrary: ys) (auto simp: res_simps)

lemma set_map_filter: "y \<in> set (List.map_filter f xs) \<longleftrightarrow> (\<exists>x \<in> set xs. f x = Some y)"
  by (auto simp: List.map_filter_def image_iff)

lemma snapshot_profile:
  assumes "loadSchedulerSnapshot d now pa qe = Inr s" "sn_activeProfileByName s name = Some p"
  shows "p \<in> snd ` set (d_profiles d) \<and> pf_name p = name \<and> pf_state p = Active"
proof -
  have "sn_activeProfileByName s =
      map_of (rev (map (\<lambda>p. (pf_name (snd p), snd p)) (db_query (\<lambda>p. pf_state p = Active) (d_profiles d))))"
    using assms(1) unfolding loadSchedulerSnapshot_def Let_def res_bind_Inr case_prod_beta sum.inject
    by (elim exE conjE, hypsubst, simp only: snapshot.simps)
  with assms(2) show ?thesis
    by (auto simp: db_query_def dest!: map_of_SomeD)
qed

lemma set_profile_readiness: "r \<in> set (profile_readiness d name) \<Longrightarrow> r \<in> snd ` set (d_workerReadiness d)"
  by (auto simp: profile_readiness_def db_query_def)

lemma snapshot_ready:
  assumes "loadSchedulerSnapshot d now pa qe = Inr s" "r \<in> set (sn_readyByProfile s name)"
  shows "r \<in> snd ` set (d_workerReadiness d) \<and> rr_profile r = name \<and> wr_state r = Ready"
proof -
  have "sn_readyByProfile s = (\<lambda>name. filter (\<lambda>r. rr_profile r = name) (filter (\<lambda>r. wr_state r = Ready)
      (concat (map (\<lambda>p. profile_readiness d (pf_name (snd p)))
        (db_query (\<lambda>p. pf_state p = Active) (d_profiles d))))))"
    using assms(1) unfolding loadSchedulerSnapshot_def Let_def res_bind_Inr case_prod_beta sum.inject
    by (elim exE conjE, hypsubst, simp only: snapshot.simps)
  with assms(2) have "rr_profile r = name" "wr_state r = Ready" "\<exists>p. r \<in> set (profile_readiness d p)"
    by auto
  then show ?thesis using set_profile_readiness by blast
qed

lemma snapshot_evidence:
  assumes "loadSchedulerSnapshot d now pa qe = Inr s" "sn_evidenceByMachineProfile s k = Some e"
  shows "e \<in> snd ` set (d_readinessEvidence d)"
proof -
  have "\<exists>ready rows. res_map (evidence_row d) ready = Inr rows \<and> sn_evidenceByMachineProfile s =
      map_of (rev (map (\<lambda>e. ((rr_machineId e, rr_profile e), e)) (List.map_filter id rows)))"
    using assms(1) unfolding loadSchedulerSnapshot_def Let_def res_bind_Inr case_prod_beta sum.inject
    by (elim exE conjE, hypsubst, simp only: snapshot.simps) blast
  then obtain ready rows where rows: "res_map (evidence_row d) ready = Inr rows"
    and ev: "sn_evidenceByMachineProfile s =
      map_of (rev (map (\<lambda>e. ((rr_machineId e, rr_profile e), e)) (List.map_filter id rows)))" by blast
  from assms(2) ev have "Some e \<in> set rows"
    by (auto simp: set_map_filter dest!: map_of_SomeD)
  then obtain r where "evidence_row d r = Inr (Some e)" using res_map_set [OF rows] by blast
  then obtain j where "db_query (\<lambda>e. rr_machineId e = rr_machineId r \<and> rr_profile e = rr_profile r)
      (d_readinessEvidence d) = [(j, e)]"
    by (auto simp: evidence_row_def res_simps db_unique_Some)
  then have "(j, e) \<in> set (d_readinessEvidence d)" by (metis db_query_iff list.set_intros(1))
  then show ?thesis by (rule image_eqI [rotated]) simp
qed

lemma readinessAdmissionError_None:
  assumes "readinessAdmissionError r ev egress = None" "rr_executor r = Firecracker"
  shows "\<exists>facts. firecrackerReadinessError facts egress = None \<and>
    (case ev of None \<Rightarrow> facts = rr_facts r | Some e \<Rightarrow> exact_current_evidence e r \<and> facts = rr_facts e)"
  using assms by (auto simp: readinessAdmissionError_def Let_def split: option.splits if_splits)

section \<open>What \<open>tryAssign\<close> writes\<close>

lemma fold_assign_attempt:
  assumes "distinct (map fst ps)"
  shows "db_get (d_attempts (fold assign ps d)) i =
    (case map_of ps (AttemptItem i) of
       Some (Some (m, reason)) \<Rightarrow>
         map_option (\<lambda>a. a\<lparr>at_machineId := Some m, at_selectionReason := Some reason\<rparr>) (db_get (d_attempts d) i)
     | _ \<Rightarrow> db_get (d_attempts d) i)"
  using assms
proof (induction ps arbitrary: d)
  case (Cons p ps)
  obtain item target where p: "p = (item, target)" by fastforce
  have none: "item = AttemptItem i \<Longrightarrow> map_of ps (AttemptItem i) = None"
    using Cons.prems by (auto simp: p map_of_eq_None_iff)
  have "db_get (d_attempts (assign p d)) i =
    (if item = AttemptItem i then (case target of None \<Rightarrow> db_get (d_attempts d) i | Some (m, reason) \<Rightarrow>
       map_option (\<lambda>a. a\<lparr>at_machineId := Some m, at_selectionReason := Some reason\<rparr>) (db_get (d_attempts d) i))
     else db_get (d_attempts d) i)"
    by (cases item; cases target) (auto simp: p)
  with Cons none show ?case by (auto simp: p split: option.splits)
qed simp

lemma fold_assign_experiment:
  assumes "distinct (map fst ps)"
  shows "db_get (d_experiments (fold assign ps d)) i =
    (case map_of ps (ExperimentItem i) of
       Some (Some (m, reason)) \<Rightarrow>
         map_option (\<lambda>e. e\<lparr>ex_machineId := Some m, ex_selectionReason := Some reason\<rparr>) (db_get (d_experiments d) i)
     | _ \<Rightarrow> db_get (d_experiments d) i)"
  using assms
proof (induction ps arbitrary: d)
  case (Cons p ps)
  obtain item target where p: "p = (item, target)" by fastforce
  have none: "item = ExperimentItem i \<Longrightarrow> map_of ps (ExperimentItem i) = None"
    using Cons.prems by (auto simp: p map_of_eq_None_iff)
  have "db_get (d_experiments (assign p d)) i =
    (if item = ExperimentItem i then (case target of None \<Rightarrow> db_get (d_experiments d) i | Some (m, reason) \<Rightarrow>
       map_option (\<lambda>e. e\<lparr>ex_machineId := Some m, ex_selectionReason := Some reason\<rparr>) (db_get (d_experiments d) i))
     else db_get (d_experiments d) i)"
    by (cases item; cases target) (auto simp: p)
  with Cons none show ?case by (auto simp: p split: option.splits)
qed simp

lemma tryAssign_placed:
  assumes ok: "db_ok d" and run: "tryAssign lc now d = Inr (n, d')"
    and row: "db_get (d_attempts d) i = Some a" and row': "db_get (d_attempts d') i = Some a'"
    and changed: "a' \<noteq> a"
  obtains s m reason where
    "loadSchedulerSnapshot d now (db_query (\<lambda>a. at_state a = APending) (d_attempts d))
         (db_query (\<lambda>e. ex_state e = EQueued) (d_experiments d)) = Inr s"
    "(AttemptItem i, Some (m, reason)) \<in> set (fst (placeInOrder lc s (unassignedQueue s)))"
    "a' = a\<lparr>at_machineId := Some m, at_selectionReason := Some reason\<rparr>"
  using run
proof (cases rule: tryAssign_cases)
  case 1
  with row row' changed show thesis by simp
next
  case (2 s ps final)
  have ps: "ps = fst (placeInOrder lc s (unassignedQueue s))" using 2(2) by simp
  have "db_wf (sn_pendingAttempts s)" "db_wf (sn_queuedExperiments s)"
    using ok by (auto simp: loadSchedulerSnapshot_fields [OF 2(1)] db_ok_def)
  then have "distinct (map fst ps)"
    unfolding ps map_fst_placeInOrder by (rule unassignedQueue_distinct)
  from fold_assign_attempt [OF this, of d i] row row' changed 2(4)
  obtain m reason where "map_of ps (AttemptItem i) = Some (Some (m, reason))"
    "a' = a\<lparr>at_machineId := Some m, at_selectionReason := Some reason\<rparr>"
    by (auto split: option.splits)
  then show thesis using that [OF 2(1)] map_of_SomeD ps by metis
qed

section \<open>One placement of a run\<close>

lemma placeInOrder_fixed:
  "sn_now (snd (placeInOrder lc s items)) = sn_now s"
  "sn_readyByProfile (snd (placeInOrder lc s items)) = sn_readyByProfile s"
  "sn_machineById (snd (placeInOrder lc s items)) = sn_machineById s"
  "sn_activeProfileByName (snd (placeInOrder lc s items)) = sn_activeProfileByName s"
  "sn_evidenceByMachineProfile (snd (placeInOrder lc s items)) = sn_evidenceByMachineProfile s"
  using placeInOrder_invariant [where P = "\<lambda>t. sn_now t = sn_now s \<and> sn_readyByProfile t = sn_readyByProfile s \<and>
    sn_machineById t = sn_machineById s \<and> sn_activeProfileByName t = sn_activeProfileByName s \<and>
    sn_evidenceByMachineProfile t = sn_evidenceByMachineProfile s" and s = s and items = items and lc = lc]
  by auto

lemma eligible_placeInOrder [simp]: "eligible (snd (placeInOrder lc s items)) w r = eligible s w r"
  by (simp add: eligible_def placeInOrder_fixed)

lemma length_placeInOrder [simp]: "length (fst (placeInOrder lc s items)) = length items"
  using map_fst_placeInOrder [of lc s items] by (metis length_map)

text \<open>The placement of an item depends on the snapshot the items before it leave.\<close>

lemma placeInOrder_nth:
  "fst (placeInOrder lc s (xs @ (item, work) # ys)) ! length xs =
     (let s' = snd (placeInOrder lc s xs); cs = candidates lc s' work
      in (item, case cs of [] \<Rightarrow> None
                | c # _ \<Rightarrow> Some (cd_id c, selection_reason (fit_policy_of s' work) c (length cs))))"
proof -
  have "length (fst (placeInOrder lc s xs)) = length xs" by simp
  then show ?thesis
    by (simp add: placeInOrder_append case_prod_beta Let_def nth_append split: list.splits)
qed

section \<open>Properties\<close>

definition sample_assigned :: db where
  "sample_assigned = (case tryAssign string_cmp 1000 sample_db of Inr (n, d) \<Rightarrow> d | Inl e \<Rightarrow> empty_db)"

lemma sample_assigned: "tryAssign string_cmp 1000 sample_db = Inr (1, sample_assigned)"
  unfolding sample_assigned_def by code_simp

text \<open>
  C5: a run of the scheduler keeps the slot accounting: where every Worker's \<open>usedSlots\<close> was the
  number of Attempts, Experiments and Jobs on it, it still is.
\<close>

theorem tryAssign_keeps_slots:
  assumes "db_ok d" "slots_ok d" "tryAssign lc now d = Inr (n, d')"
  shows "slots_ok d'"
  using tryAssign_slots_ok [OF assms] by blast

theorem tryAssign_keeps_slots_witness:
  "slots_ok sample_db \<and> slots_ok sample_assigned \<and>
   map_option mc_usedSlots (db_get (d_machines sample_assigned) 1) = Some 1"
proof -
  have "slots_ok sample_assigned"
    by (rule tryAssign_keeps_slots [OF sample_db_ok sample_assigned])
  moreover have "map_option mc_usedSlots (db_get (d_machines sample_assigned) 1) = Some 1" by code_simp
  ultimately show ?thesis using sample_db_ok by simp
qed



text \<open>
  C6: on a Worker with no legacy Job, work the scheduler adds never takes \<open>usedSlots\<close> above
  \<open>maxSlots\<close>, warm guests included.
\<close>

theorem tryAssign_no_overcommit:
  assumes "db_ok d" "slots_ok d" "tryAssign lc now d = Inr (n, d')"
    and "db_get (d_machines d) m = Some machine" "db_get (d_machines d') m = Some machine'"
    and "count_rows (d_jobs d) (job_on m) = 0"
    and "mc_usedSlots machine' \<noteq> mc_usedSlots machine"
  shows "mc_usedSlots machine < mc_usedSlots machine' \<and> mc_usedSlots machine' \<le> mc_maxSlots machine"
  using assms(3)
proof (cases rule: tryAssign_cases)
  case 1
  with assms show ?thesis by simp
next
  case (2 s ps final)
  let ?ms = "online_machines now d"
  note fields = loadSchedulerSnapshot_fields [OF 2(1)]
  have ps: "ps = fst (placeInOrder lc s (unassignedQueue s))"
    "final = snd (placeInOrder lc s (unassignedQueue s))" using 2(2) by simp_all
  have wf: "distinct (map fst ?ms)" "db_wf (d_machines d)"
    using assms(1) by (auto simp: online_machines_def db_ok_def simp flip: db_wf_def)
  have rows: "\<forall>(m, row) \<in> set ?ms. db_get (d_machines (fold assign ps d)) m = Some row"
    using wf(2) by (auto simp: online_machines_def db_query_iff db_wf_get_iff)
  note get = fold_write_used_slots [OF wf(1) rows, of final m, folded 2(4)]
  then have on: "map_of ?ms m = Some machine"
    using assms(4,5,7) rows by (cases "map_of ?ms m") (auto dest!: map_of_SomeD)
  then have by_id: "sn_machineById s m = Some machine" by (simp add: fields db_get_def)
  have used: "sn_usedSlotsByMachine s m = Some (mc_usedSlots machine)" using by_id by (simp add: fields)
  note count = placeInOrder_used_count [OF used, of lc "unassignedQueue s", folded ps]
  then have "mc_usedSlots machine' = mc_usedSlots machine + placed_on m ps"
    using get on assms(5) by auto
  then have more: "mc_usedSlots machine < mc_usedSlots machine'"
    using assms(7) placed_on_nonneg [of m ps] by simp
  then have "m \<in> {k. \<exists>item reason. (item, Some (k, reason)) \<in> set ps}"
    using placed_on_zero [of m ps] \<open>mc_usedSlots machine' = _\<close> by fastforce
  then have "or_else (sn_usedSlotsByMachine final m) 0 \<le> mc_maxSlots machine"
    unfolding ps using used by_id snapshot_warm_covered [OF assms(1,2) 2(1) assms(6) by_id]
    by (intro placeInOrder_used) auto
  then show ?thesis using more count \<open>mc_usedSlots machine' = _\<close> by simp
qed

theorem tryAssign_no_overcommit_witness:
  "\<exists>machine'. db_get (d_machines sample_assigned) 1 = Some machine' \<and>
     0 < mc_usedSlots machine' \<and> mc_usedSlots machine' \<le> 2"
proof -
  have row: "db_get (d_machines sample_db) 1 = Some sample_machine" by code_simp
  have used: "map_option mc_usedSlots (db_get (d_machines sample_assigned) 1) = Some 1" by code_simp
  then obtain machine' where m': "db_get (d_machines sample_assigned) 1 = Some machine'"
    "mc_usedSlots machine' = 1" by auto
  have jobs: "count_rows (d_jobs sample_db) (job_on 1) = 0" by code_simp
  have "mc_usedSlots machine' \<noteq> mc_usedSlots sample_machine" using m' by (simp add: sample_machine_def)
  from tryAssign_no_overcommit [OF sample_db_ok sample_assigned row m'(1) jobs this] m'
  show ?thesis by (simp add: sample_machine_def)
qed

text \<open>
  C8: the Worker chosen for an item is a least loaded one: no Worker that was eligible for the item
  and had room for it, after the items before it were placed, had a lower resource pressure, or the
  same pressure and a higher benchmark score under the Profile's fit policy.
\<close>

theorem placement_least_loaded:
  fixes lc s xs
  defines "s' \<equiv> snd (placeInOrder lc s xs)"
  assumes "comparator lc"
    and "fst (placeInOrder lc s (xs @ (item, work) # ys)) ! length xs = (item, Some (m, reason))"
    and "r \<in> set (sn_readyByProfile s (wk_profile work))" "eligible s work r"
    and "sn_machineById s (rr_machineId r) = Some other" "fits s' work r (rr_machineId r) other"
  shows "\<exists>machine. sn_machineById s m = Some machine \<and>
    resourcePressure s' work m machine \<le> resourcePressure s' work (rr_machineId r) other \<and>
    (resourcePressure s' work m machine = resourcePressure s' work (rr_machineId r) other \<longrightarrow>
     fst (benchmarkScore (map_option summary_of (mc_benchmark other)) (fit_policy_of s' work) (sn_now s)) \<le>
     fst (benchmarkScore (map_option summary_of (mc_benchmark machine)) (fit_policy_of s' work) (sn_now s)))"
proof -
  note fixed = placeInOrder_fixed [of lc s xs, folded s'_def]
  from assms(3) obtain c cs where c: "candidates lc s' work = c # cs" "cd_id c = m"
    unfolding placeInOrder_nth Let_def s'_def [symmetric] by (auto split: list.splits)
  have "c \<in> set (candidates lc s' work)" using c by simp
  then obtain r0 where r0: "rr_machineId r0 = m" "candidate_of s' work r0 = Some c"
    using c(2) by (auto simp: set_candidates candidate_of_Some)
  have "eligible s' work r" using assms(5) by (simp add: s'_def)
  then obtain c' where c': "candidate_of s' work r = Some c'"
    using assms(6,7) by (auto simp: candidate_of_Some fixed)
  have "candidate_cmp lc c c' \<le> 0"
    by (rule candidates_least [OF assms(2) c(1) _ c']) (use assms(4) fixed in simp)
  with r0 c' assms(6) show ?thesis
    by (auto simp: candidate_of_Some candidate_cmp_def fixed split: if_splits)
qed

definition sample_snapshot :: snapshot where
  "sample_snapshot = projr (loadSchedulerSnapshot sample_db 1000 (d_attempts sample_db) [])"

theorem placement_least_loaded_witness:
  "map_option fst (snd (fst (placeInOrder string_cmp sample_snapshot
     [(AttemptItem 4, attempt_work sample_attempt)]) ! 0)) = Some 1 \<and>
   (\<exists>machine. sn_machineById sample_snapshot 1 = Some machine \<and>
     resourcePressure sample_snapshot (attempt_work sample_attempt) 1 machine \<le>
     resourcePressure sample_snapshot (attempt_work sample_attempt) 1 sample_machine)"
proof -
  let ?s = sample_snapshot and ?w = "attempt_work sample_attempt"
  have one: "map_option fst (snd (fst (placeInOrder string_cmp ?s [(AttemptItem 4, ?w)]) ! 0)) = Some 1"
    by code_simp
  moreover have "fst (fst (placeInOrder string_cmp ?s [(AttemptItem 4, ?w)]) ! 0) = AttemptItem 4" by code_simp
  ultimately obtain reason where first: "fst (placeInOrder string_cmp ?s ([] @ (AttemptItem 4, ?w) # [])) !
      length ([] :: (work_item \<times> work_contract) list) = (AttemptItem 4, Some (1, reason))"
    by (cases "fst (placeInOrder string_cmp ?s [(AttemptItem 4, ?w)]) ! 0") auto
  have ready: "sample_readiness \<in> set (sn_readyByProfile ?s (wk_profile ?w))" by code_simp
  have el: "eligible ?s ?w sample_readiness" by code_simp
  have mach: "sn_machineById ?s (rr_machineId sample_readiness) = Some sample_machine" by code_simp
  have fit: "fits (snd (placeInOrder string_cmp ?s [])) ?w sample_readiness (rr_machineId sample_readiness) sample_machine"
    by code_simp
  have "rr_machineId sample_readiness = 1" by code_simp
  with placement_least_loaded [OF string_cmp.comparator_axioms first ready el mach fit] one
  show ?thesis by auto
qed



text \<open>
  C7: after a run of placements, a Worker that took work has reserved at most its CPUs, its memory
  and its slots, warm guests included.
\<close>

theorem placement_envelope:
  assumes "placeInOrder lc s items = (ps, final)" "(item, Some (m, reason)) \<in> set ps"
    and "sn_machineById s m = Some machine"
  shows "(\<forall>c. mc_cpus machine = Some c \<and> 0 \<le> c \<longrightarrow> rv_vcpus (sn_reservedByMachine final m) \<le> c) \<and>
    (\<forall>c. mc_memoryMiB machine = Some c \<and> 0 \<le> c \<longrightarrow> rv_memoryMiB (sn_reservedByMachine final m) \<le> c) \<and>
    rv_count (sn_reservedByMachine final m) \<le> mc_maxSlots machine"
  using placeInOrder_envelope [OF assms(3), of lc items] assms(1,2)
  by (auto simp: within_envelope_def)

theorem placement_envelope_witness:
  "rv_vcpus (sn_reservedByMachine (snd (placeInOrder string_cmp sample_snapshot
      [(AttemptItem 4, attempt_work sample_attempt)])) 1) \<le> 8"
proof -
  let ?r = "placeInOrder string_cmp sample_snapshot [(AttemptItem 4, attempt_work sample_attempt)]"
  have "list_ex (\<lambda>p. map_option fst (snd p) = Some 1) (fst ?r)" by code_simp
  then obtain item reason where placed: "(item, Some (1, reason)) \<in> set (fst ?r)"
    by (metis list_ex_placed)
  have mach: "sn_machineById sample_snapshot 1 = Some sample_machine" by code_simp
  have "mc_cpus sample_machine = Some 8 \<and> (0 :: int) \<le> 8" by (simp add: sample_machine_def)
  with placement_envelope [OF surjective_pairing placed mach] show ?thesis by blast
qed

text \<open>
  C10: with a legacy Job on the Worker the slot limit can be passed. Two slots are used, one by an
  Attempt and one by a legacy Job, and the Profile keeps two warm guests, one of them idle. The
  legacy Job is only in \<open>usedSlots\<close> and the idle warm guest only in the reservation count, so each
  count is two, the warm placement is admitted, and the Worker ends with three used slots of two.
\<close>

definition crowded_db :: db where
  "crowded_db = sample_db
     \<lparr>d_machines := [(1, sample_machine\<lparr>mc_usedSlots := 2\<rparr>)],
      d_profiles := [(2, sample_profile\<lparr>pf_warmPool := Some 2\<rparr>)],
      d_workerReadiness := [(3, sample_readiness\<lparr>rr_facts := no_facts
        \<lparr>rf_warmPool := Some \<lparr>wp_target = js_int 2, wp_parked = js_int 1, wp_claimed = js_int 1\<rparr>\<rparr>\<rparr>)],
      d_attempts := [(4, sample_attempt), (6, sample_attempt\<lparr>at_state := ARunning, at_machineId := Some 1\<rparr>)],
      d_jobs := [(7, \<lparr>jb_ghJobId = 1, jb_githubInstallationId = None, jb_repo = ''r'', jb_workflowName = ''w'',
        jb_labels = [], jb_status = JobRunning, jb_machineId = Some 1, jb_runnerName = None, jb_queuedAt = 0,
        jb_startedAt = None, jb_finishedAt = None, jb_conclusion = None, jb_attempts = None,
        jb_lastError = None, jb_nextAttemptAt = None, jb_lastFailedMachineId = None, jb_creationTime = 0\<rparr>)]\<rparr>"


end
