(* ===== verification/ControllerLiveness.thy ===== *)
theory ControllerLiveness
  imports Schema
begin

text \<open>
  Whether a Profile's controller is alive (\<open>packages/backend/convex/controllerLiveness.ts\<close>),
  computed from the heartbeat rows of its controllers. The lemmas characterise each status by the
  rows and bound the time a Profile has been without a listening controller.
\<close>

definition CONTROLLER_OFFLINE_AFTER_MS :: int where
  "CONTROLLER_OFFLINE_AFTER_MS = 90000"

datatype controller_status = Unknown | Online | Waiting | Offline

record liveness =
  lv_status :: controller_status
  lv_primary :: "controller_heartbeat option"
  lv_lastHeartbeatAt :: "int option"
  lv_lastListeningAt :: "int option"
  lv_firstSeenAt :: "int option"
  lv_live :: nat
  lv_controllers :: "controller_heartbeat list"

definition isLive :: "controller_heartbeat \<Rightarrow> int \<Rightarrow> bool" where
  "isLive row now \<longleftrightarrow> hb_sessionState row \<noteq> Stopped \<and> now - hb_receivedAt row < CONTROLLER_OFFLINE_AFTER_MS"

definition list_max :: "int list \<Rightarrow> int" where
  "list_max xs = foldr max (tl xs) (hd xs)"

definition list_min :: "int list \<Rightarrow> int" where
  "list_min xs = foldr min (tl xs) (hd xs)"

definition controllerLiveness :: "controller_heartbeat list \<Rightarrow> int \<Rightarrow> liveness" where
  "controllerLiveness rows now =
     (if length rows = 0
      then \<lparr>lv_status = Unknown, lv_primary = None, lv_lastHeartbeatAt = None, lv_lastListeningAt = None,
            lv_firstSeenAt = None, lv_live = 0, lv_controllers = []\<rparr>
      else
        let newestFirst = js_sort (\<lambda>left right. hb_receivedAt right - hb_receivedAt left) rows;
            live = filter (\<lambda>row. isLive row now) newestFirst;
            listening = List.find (\<lambda>row. hb_sessionState row = Listening) live;
            listenedAt = List.map_filter hb_lastListeningAt rows
        in \<lparr>lv_status = (if listening \<noteq> None then Online else if length live > 0 then Waiting else Offline),
            lv_primary = (case listening of
                            Some row \<Rightarrow> Some row
                          | None \<Rightarrow> (case live of row # _ \<Rightarrow> Some row | [] \<Rightarrow> Some (hd newestFirst))),
            lv_lastHeartbeatAt = Some (hb_receivedAt (hd newestFirst)),
            lv_lastListeningAt = (if length listenedAt = 0 then None else Some (list_max listenedAt)),
            lv_firstSeenAt = Some (list_min (map hb_firstSeenAt rows)),
            lv_live = length live,
            lv_controllers = newestFirst\<rparr>)"

definition controllerSilentForMs :: "liveness \<Rightarrow> int \<Rightarrow> int option" where
  "controllerSilentForMs liveness now =
     (if lv_status liveness = Online \<or> lv_status liveness = Unknown then None
      else let since = (case lv_lastListeningAt liveness of None \<Rightarrow> lv_firstSeenAt liveness | Some t \<Rightarrow> Some t)
           in map_option (\<lambda>t. max 0 (now - t)) since)"

section \<open>Lemmas\<close>

lemma filter_js_insort_length:
  "length (filter P (js_insort cmp x xs)) = length (filter P (x # xs))"
  by (induction xs) auto

lemma filter_js_sort_length: "length (filter P (js_sort cmp xs)) = length (filter P xs)"
  by (induction xs) (auto simp: filter_js_insort_length)

lemma liveness_live: "lv_live (controllerLiveness rows now) = length (filter (\<lambda>row. isLive row now) rows)"
  by (simp add: controllerLiveness_def Let_def filter_js_sort_length)

lemma liveness_live_zero:
  "lv_live (controllerLiveness rows now) = 0 \<longleftrightarrow> (\<forall>row \<in> set rows. \<not> isLive row now)"
  by (simp add: liveness_live filter_empty_conv)

lemma liveness_status:
  "lv_status (controllerLiveness rows now) =
     (if rows = [] then Unknown
      else if \<exists>row \<in> set rows. isLive row now \<and> hb_sessionState row = Listening then Online
      else if \<exists>row \<in> set rows. isLive row now then Waiting else Offline)"
  by (auto simp: controllerLiveness_def Let_def find_None_iff filter_empty_conv dest!: find_SomeD)

lemma foldr_max_ge: "y \<in> insert x (set xs) \<Longrightarrow> y \<le> foldr max xs (x :: int)"
  by (induction xs) (auto simp: le_max_iff_disj)

lemma list_max_ge: "x \<in> set xs \<Longrightarrow> x \<le> list_max xs"
  unfolding list_max_def by (rule foldr_max_ge) (cases xs; auto)

lemma silent_nonneg: "controllerSilentForMs l now = Some t \<Longrightarrow> 0 \<le> t"
  by (auto simp: controllerSilentForMs_def Let_def split: if_splits)

text \<open>A Profile is silent for a known time exactly when it was ever served and is not now.\<close>

lemma silent_iff:
  "controllerSilentForMs (controllerLiveness rows now) now \<noteq> None \<longleftrightarrow>
     rows \<noteq> [] \<and> \<not> (\<exists>row \<in> set rows. isLive row now \<and> hb_sessionState row = Listening)"
proof -
  have "rows \<noteq> [] \<Longrightarrow> lv_firstSeenAt (controllerLiveness rows now) \<noteq> None"
    by (simp add: controllerLiveness_def Let_def)
  then show ?thesis
    using liveness_status [of rows now]
    by (auto simp: controllerSilentForMs_def Let_def split: option.splits if_splits)
qed

lemma silent_bound:
  assumes "controllerSilentForMs (controllerLiveness rows now) now = Some t"
    and "row \<in> set rows" "hb_lastListeningAt row = Some l"
  shows "t \<le> max 0 (now - l)"
proof -
  have "l \<in> set (List.map_filter hb_lastListeningAt rows)"
    using assms(2,3) by (force simp: List.map_filter_def image_iff)
  then have "lv_lastListeningAt (controllerLiveness rows now) =
      Some (list_max (List.map_filter hb_lastListeningAt rows))" "l \<le> list_max (List.map_filter hb_lastListeningAt rows)"
    using assms(2) by (auto simp: controllerLiveness_def Let_def intro: list_max_ge)
  then show ?thesis
    using assms(1) by (auto simp: controllerSilentForMs_def Let_def split: if_splits)
qed

end
