(* ===== verification/AttemptRetirement.thy ===== *)
theory AttemptRetirement
  imports AttemptScheduler ControllerLiveness
begin

text \<open>
  Ending an Attempt whose GitHub Runner may be online
  (\<open>packages/backend/convex/attemptRetirement.ts\<close>), the single-use secrets
  (\<open>attemptSecrets.ts\<close>), and the retirement of idle work that lost its pin
  (\<open>pinnedAttempts.ts\<close>). A row read by a handler is passed as the pair of its id and its fields; a
  patch function applies to the row as it is stored. The lemmas show that these operations keep the
  slot accounting and the invariant of retiring Attempts, that retiring keeps the state and the
  slot, and that an ended Attempt has given its slot and its secret back.
\<close>

section \<open>Secrets\<close>

definition deleteAttemptSecret :: "nat \<Rightarrow> db \<Rightarrow> db res" where
  "deleteAttemptSecret attemptId d =
     res_bind (db_unique (db_query (\<lambda>s. as_attemptId s = attemptId) (d_attemptSecrets d))) (\<lambda>secret.
       case secret of None \<Rightarrow> Inr d | Some (k, _) \<Rightarrow> Inr (delete_secret_row k d))"

section \<open>Retirement\<close>

fun runnerMayBeOnline :: "attempt_state \<Rightarrow> bool" where
  "runnerMayBeOnline APreparing = True"
| "runnerMayBeOnline AReady = True"
| "runnerMayBeOnline ARunning = True"
| "runnerMayBeOnline _ = False"

definition isRetiring :: "attempt \<Rightarrow> bool" where
  "isRetiring attempt \<longleftrightarrow> at_retirement attempt \<noteq> None \<and> runnerMayBeOnline (at_state attempt)"

fun attempt_state_name :: "attempt_state \<Rightarrow> string" where
  "attempt_state_name APending = ''pending''"
| "attempt_state_name APreparing = ''preparing''"
| "attempt_state_name AReady = ''ready''"
| "attempt_state_name ARunning = ''running''"
| "attempt_state_name ACompleted = ''completed''"
| "attempt_state_name ACancelled = ''cancelled''"
| "attempt_state_name AFailed = ''failed''"

definition retireAttempt ::
  "int \<Rightarrow> nat \<times> attempt \<Rightarrow> retirement_outcome \<Rightarrow> string \<Rightarrow> db \<Rightarrow> (bool \<times> db) res" where
  "retireAttempt now doc outcome reason d =
     (case doc of (i, attempt) \<Rightarrow>
       throw_if (\<not> runnerMayBeOnline (at_state attempt))
         (PlainError (''retireAttempt on a '' @ attempt_state_name (at_state attempt) @ '' Attempt''))
       (if at_retirement attempt \<noteq> None then Inr (False, d)
        else res_bind (deleteAttemptSecret i d) (\<lambda>d1.
          Inr (True, patch_attempt i (\<lambda>a. a
            \<lparr>at_jitConfig := None, at_runnerCleanupPending := Some True,
             at_retirement := Some \<lparr>rt_outcome = outcome, rt_reason = take 500 reason,
                                    rt_requestedAt = now\<rparr>\<rparr>) d1))))"

definition RETIREMENT_UNCONFIRMED_MS :: int where
  "RETIREMENT_UNCONFIRMED_MS = 6 * 60 * 60000"

definition CONTROLLER_REPORT_LIMIT :: nat where
  "CONTROLLER_REPORT_LIMIT = 50"

definition workerReports :: "machine \<Rightarrow> int \<Rightarrow> bool" where
  "workerReports machine now \<longleftrightarrow> now - mc_lastSeen machine \<le> WORKER_OFFLINE_AFTER_MS"

text \<open>The index \<open>by_profile_hostname\<close> yields the rows of a Profile in the order of their hostname.\<close>

definition profile_reports :: "string \<Rightarrow> db \<Rightarrow> controller_heartbeat list" where
  "profile_reports profile d =
     take CONTROLLER_REPORT_LIMIT
       (sort_key hb_hostname (map snd (db_query (\<lambda>h. hb_profile h = profile) (d_controllerHeartbeats d))))"

definition retirementBackstopDue :: "db \<Rightarrow> attempt \<Rightarrow> machine option \<Rightarrow> int \<Rightarrow> bool" where
  "retirementBackstopDue d attempt machine now =
     (case at_retirement attempt of
        None \<Rightarrow> False
      | Some retirement \<Rightarrow>
          if now - rt_requestedAt retirement \<le> RETIREMENT_UNCONFIRMED_MS then False
          else if at_state attempt = ARunning \<and>
                  (case machine of None \<Rightarrow> False | Some m \<Rightarrow> workerReports m now) then False
          else lv_live (controllerLiveness (profile_reports (at_profile attempt) d) now) = 0)"

definition keepForReturningWorker :: "nat \<times> attempt \<Rightarrow> db \<Rightarrow> bool \<times> db" where
  "keepForReturningWorker doc d =
     (case doc of (i, attempt) \<Rightarrow>
       if at_state attempt \<noteq> ARunning \<or> at_retirement attempt = None then (False, d)
       else (True, patch_attempt i (\<lambda>a. a\<lparr>at_retirement := None, at_runnerCleanupPending := None\<rparr>) d))"

definition keepRunningAttemptsOfReturningWorker :: "nat \<Rightarrow> db \<Rightarrow> nat \<times> db" where
  "keepRunningAttemptsOfReturningWorker machineId d =
     fold (\<lambda>doc (kept, d). let (k, d') = keepForReturningWorker doc d in (if k then kept + 1 else kept, d'))
       (db_query (\<lambda>a. at_machineId a = Some machineId \<and> at_state a = ARunning) (d_attempts d)) (0, d)"

fun outcome_state :: "retirement_outcome \<Rightarrow> attempt_state" where
  "outcome_state RetireCancelled = ACancelled"
| "outcome_state RetireFailed = AFailed"

definition finishRetirement :: "int \<Rightarrow> nat \<times> attempt \<Rightarrow> bool \<Rightarrow> db \<Rightarrow> db res" where
  "finishRetirement now doc unconfirmed d =
     (case doc of (i, attempt) \<Rightarrow>
       case at_retirement attempt of
         None \<Rightarrow> Inl (PlainError ''finishRetirement on an Attempt not retiring'')
       | Some retirement \<Rightarrow>
           let reason = (if unconfirmed
                 then rt_reason retirement @ '' (no controller confirmed the Runner was deleted within 6 hours)''
                 else rt_reason retirement)
           in res_bind (deleteAttemptSecret i (releaseAttemptSlot attempt d)) (\<lambda>d1.
                Inr (patch_attempt i (\<lambda>a.
                  let b = a\<lparr>at_state := outcome_state (rt_outcome retirement), at_jitConfig := None,
                            at_finishedAt := Some now,
                            at_runnerCleanupPending := (if unconfirmed then Some True else None),
                            at_retirement := None\<rparr>
                  in case rt_outcome retirement of
                       RetireCancelled \<Rightarrow> b\<lparr>at_cancelReason := Some (take 500 reason)\<rparr>
                     | RetireFailed \<Rightarrow> b\<lparr>at_lastError := Some (take 500 reason)\<rparr>) d1)))"

definition cancelUnclaimedAttempt :: "int \<Rightarrow> nat \<times> attempt \<Rightarrow> string \<Rightarrow> db \<Rightarrow> db res" where
  "cancelUnclaimedAttempt now doc reason d =
     (case doc of (i, attempt) \<Rightarrow>
       throw_if (at_state attempt \<noteq> APending)
         (PlainError (''cancelUnclaimedAttempt on a '' @ attempt_state_name (at_state attempt) @ '' Attempt''))
       (res_bind (deleteAttemptSecret i (releaseAttemptSlot attempt d)) (\<lambda>d1.
          Inr (patch_attempt i (\<lambda>a. a
            \<lparr>at_state := ACancelled, at_jitConfig := None, at_cancelReason := Some (take 500 reason),
             at_finishedAt := Some now, at_runnerCleanupPending := Some True\<rparr>) d1))))"

datatype idle_end = EndCancelled | EndRetiring

definition endIdleAttempt :: "int \<Rightarrow> nat \<times> attempt \<Rightarrow> string \<Rightarrow> db \<Rightarrow> (idle_end \<times> db) res" where
  "endIdleAttempt now doc reason d =
     (if at_state (snd doc) = APending
      then res_bind (cancelUnclaimedAttempt now doc reason d) (\<lambda>d1. Inr (EndCancelled, d1))
      else res_bind (retireAttempt now doc RetireCancelled reason d) (\<lambda>(_, d1). Inr (EndRetiring, d1)))"

definition keepForJob :: "attempt \<Rightarrow> attempt \<Rightarrow> attempt" where
  "keepForJob attempt a =
     (if at_retirement attempt = None then a
      else a\<lparr>at_retirement := None, at_runnerCleanupPending := None\<rparr>)"

section \<open>Pins\<close>

record pin_retirement =
  pr_requeued :: nat
  pr_retired :: nat

definition IDLE_STATES :: "attempt_state list" where
  "IDLE_STATES = [APending, APreparing, AReady]"

definition retireIfOffPin ::
  "int \<Rightarrow> nat \<times> attempt \<Rightarrow> profile option \<Rightarrow> machine option \<Rightarrow> pin_retirement \<times> db \<Rightarrow> (pin_retirement \<times> db) res" where
  "retireIfOffPin now doc profile machine state =
     (case (doc, profile, machine, state) of
        ((i, attempt), Some p, Some m, (tally, d)) \<Rightarrow>
          let missing = missingHostLabels (pf_workerLabels p) (Some (mc_labels m));
              why = ''Worker '' @ mc_name m @ '': '' @ missingHostLabelsDetail missing
          in if length missing = 0 then Inr (tally, d)
             else if at_state attempt = APending
             then Inr (tally\<lparr>pr_requeued := pr_requeued tally + 1\<rparr>,
                       patch_attempt i (\<lambda>a. a\<lparr>at_machineId := None, at_selectionReason := None\<rparr>)
                         (releaseAttemptSlot attempt d))
             else res_bind (retireAttempt now (i, attempt) RetireCancelled
                              (''Retired before it took a job. '' @ why) d) (\<lambda>(retired, d1).
               Inr (if retired then tally\<lparr>pr_retired := pr_retired tally + 1\<rparr> else tally, d1))
      | _ \<Rightarrow> Inr state)"

definition no_pin_retirement :: pin_retirement where
  "no_pin_retirement = \<lparr>pr_requeued = 0, pr_retired = 0\<rparr>"

definition profile_named :: "string \<Rightarrow> db \<Rightarrow> profile option res" where
  "profile_named name d =
     res_bind (db_unique (db_query (\<lambda>p. pf_name p = name) (d_profiles d))) (\<lambda>row. Inr (map_option snd row))"

text \<open>
  Each state's Attempts are read when the loop reaches it. The Profiles are not written, so reading
  one again is the same as remembering it.
\<close>

definition off_pin_on_worker ::
  "int \<Rightarrow> nat \<times> machine \<Rightarrow> attempt_state \<Rightarrow> pin_retirement \<times> db \<Rightarrow> (pin_retirement \<times> db) res" where
  "off_pin_on_worker now machine state st =
     res_fold (\<lambda>doc st. res_bind (profile_named (at_profile (snd doc)) (snd st)) (\<lambda>p.
                 retireIfOffPin now doc p (Some (snd machine)) st))
       (db_query (\<lambda>a. at_machineId a = Some (fst machine) \<and> at_state a = state) (d_attempts (snd st))) st"

definition retireOffPinOnWorker :: "int \<Rightarrow> nat \<times> machine \<Rightarrow> db \<Rightarrow> (pin_retirement \<times> db) res" where
  "retireOffPinOnWorker now machine d =
     res_fold (off_pin_on_worker now machine) IDLE_STATES (no_pin_retirement, d)"

definition off_pin_of_profile ::
  "int \<Rightarrow> profile \<Rightarrow> attempt_state \<Rightarrow> pin_retirement \<times> db \<Rightarrow> (pin_retirement \<times> db) res" where
  "off_pin_of_profile now profile state st =
     res_fold (\<lambda>doc st.
         case at_machineId (snd doc) of
           None \<Rightarrow> Inr st
         | Some m \<Rightarrow> retireIfOffPin now doc (Some profile) (db_get (d_machines (snd st)) m) st)
       (db_query (\<lambda>a. at_profile a = pf_name profile \<and> at_state a = state) (d_attempts (snd st))) st"

definition retireOffPinForProfile :: "int \<Rightarrow> profile \<Rightarrow> db \<Rightarrow> (pin_retirement \<times> db) res" where
  "retireOffPinForProfile now profile d =
     (if or_else (pf_workerLabels profile) [] = [] then Inr (no_pin_retirement, d)
      else res_fold (off_pin_of_profile now profile) IDLE_STATES (no_pin_retirement, d))"

end
