(* ===== verification/Invariants.thy ===== *)
theory Invariants
  imports AttemptRetirement
begin

text \<open>
  The invariant of the control plane's state and the lemmas every mutation's preservation proof
  uses. \<open>state_ok\<close> says: table keys are unique and below the id counter, the slot accounting is
  exact, Runner names are unique, a retiring Attempt has a Worker, a Runner that may be online and
  a pending clean-up, a preparing or ready Attempt has a Worker, and a single-use secret belongs to
  exactly one Attempt that is not over. Under it the lookups with \<open>.unique()\<close> never throw.
\<close>

section \<open>The invariant\<close>

definition attempt_ok :: "attempt \<Rightarrow> bool" where
  "attempt_ok a \<longleftrightarrow>
     (at_retirement a \<noteq> None \<longrightarrow>
        runnerMayBeOnline (at_state a) \<and> at_runnerCleanupPending a = Some True \<and> at_machineId a \<noteq> None) \<and>
     (at_state a = APreparing \<or> at_state a = AReady \<longrightarrow> at_machineId a \<noteq> None) \<and>
     (\<not> active_attempt_state (at_state a) \<longrightarrow> at_jitConfig a = None)"

definition attempts_ok :: "db \<Rightarrow> bool" where
  "attempts_ok d \<longleftrightarrow> list_all (\<lambda>x. attempt_ok (snd x)) (d_attempts d)"

definition names_ok :: "db \<Rightarrow> bool" where
  "names_ok d \<longleftrightarrow> distinct (map (\<lambda>x. at_runnerName (snd x)) (d_attempts d))"

definition secret_live :: "db \<Rightarrow> attempt_secret \<Rightarrow> bool" where
  "secret_live d s = (case db_get (d_attempts d) (as_attemptId s) of
     None \<Rightarrow> False | Some a \<Rightarrow> active_attempt_state (at_state a))"

definition secrets_ok :: "db \<Rightarrow> bool" where
  "secrets_ok d \<longleftrightarrow> distinct (map (\<lambda>x. as_attemptId (snd x)) (d_attemptSecrets d)) \<and>
     list_all (\<lambda>x. secret_live d (snd x)) (d_attemptSecrets d)"

definition profiles_ok :: "db \<Rightarrow> bool" where
  "profiles_ok d \<longleftrightarrow> distinct (map (\<lambda>x. pf_name (snd x)) (d_profiles d))"

definition fresh_ok :: "db \<Rightarrow> bool" where
  "fresh_ok d \<longleftrightarrow> list_all (\<lambda>i. i < d_nextId d)
     (db_ids (d_machines d) @ db_ids (d_attempts d) @ db_ids (d_experiments d) @ db_ids (d_jobs d) @
      db_ids (d_attemptSecrets d) @ db_ids (d_profiles d))"

definition state_ok :: "db \<Rightarrow> bool" where
  "state_ok d \<longleftrightarrow> db_ok d \<and> slots_ok d \<and> attempts_ok d \<and> names_ok d \<and> secrets_ok d \<and>
     profiles_ok d \<and> fresh_ok d"

lemma state_okD [dest]:
  assumes "state_ok d"
  shows "db_ok d" "slots_ok d" "attempts_ok d" "names_ok d" "secrets_ok d" "profiles_ok d" "fresh_ok d"
  using assms by (simp_all add: state_ok_def)

lemma attempts_okD: "attempts_ok d \<Longrightarrow> db_get (d_attempts d) i = Some a \<Longrightarrow> attempt_ok a"
  by (auto simp: attempts_ok_def list_all_iff dest!: db_get_in_set)

section \<open>Fresh ids\<close>

definition ids_below :: "nat \<Rightarrow> 'r docs \<Rightarrow> bool" where
  "ids_below n t \<longleftrightarrow> (\<forall>i \<in> set (db_ids t). i < n)"

lemma ids_below_simps [simp]:
  "ids_below n (db_patch t i f) = ids_below n t"
  "ids_below n t \<Longrightarrow> ids_below (Suc n) (db_insert t n r)"
  "ids_below n t \<Longrightarrow> ids_below n (db_delete t i)"
  "ids_below n t \<Longrightarrow> ids_below n (db_query P t)"
proof -
  show "ids_below n t \<Longrightarrow> ids_below n (db_query P t)"
    by (auto simp: ids_below_def db_query_def db_ids_def)
qed (auto simp: ids_below_def less_Suc_eq)

lemma ids_below_mono: "ids_below n t \<Longrightarrow> n \<le> m \<Longrightarrow> ids_below m t"
  by (auto simp: ids_below_def)

lemma ids_below_Suc [simp]: "ids_below n t \<Longrightarrow> ids_below (Suc n) t"
  by (auto simp: ids_below_def less_Suc_eq)

lemma ids_below_fresh: "ids_below n t \<Longrightarrow> n \<notin> set (db_ids t)"
  by (auto simp: ids_below_def)

lemma db_wf_insert_fresh [simp]: "db_wf t \<Longrightarrow> ids_below n t \<Longrightarrow> db_wf (db_insert t n r)"
  by (simp add: tb.wf_add ids_below_fresh)

lemma db_get_insert_fresh [simp]:
  "ids_below n t \<Longrightarrow> db_get (db_insert t n r) j = (if j = n then Some r else db_get t j)"
  by (simp add: tb.get_add ids_below_fresh)

lemma db_get_below: "ids_below n t \<Longrightarrow> db_get t i = Some r \<Longrightarrow> i < n"
  using tb.get_some_id [of t i r] by (auto simp: ids_below_def)

lemma fresh_ok_split:
  "fresh_ok d \<longleftrightarrow> ids_below (d_nextId d) (d_machines d) \<and> ids_below (d_nextId d) (d_attempts d) \<and>
     ids_below (d_nextId d) (d_experiments d) \<and> ids_below (d_nextId d) (d_jobs d) \<and>
     ids_below (d_nextId d) (d_attemptSecrets d) \<and> ids_below (d_nextId d) (d_profiles d)"
  by (auto simp: fresh_ok_def ids_below_def list_all_iff)

section \<open>Frames\<close>

text \<open>The invariant reads six tables; a mutation of any other table keeps it.\<close>

lemma state_ok_frame:
  assumes "state_ok d" "d_machines e = d_machines d" "d_attempts e = d_attempts d"
    "d_experiments e = d_experiments d" "d_jobs e = d_jobs d" "d_attemptSecrets e = d_attemptSecrets d"
    "d_profiles e = d_profiles d" "d_nextId d \<le> d_nextId e"
  shows "state_ok e"
  using assms slots_ok_tables [of d e]
  by (auto simp: state_ok_def db_ok_def attempts_ok_def names_ok_def secrets_ok_def secret_live_def
      profiles_ok_def fresh_ok_split intro: ids_below_mono)

lemma state_ok_profiles:
  assumes "state_ok d" "db_wf (d_profiles e)" "profiles_ok e" "ids_below (d_nextId e) (d_profiles e)"
    and "d_machines e = d_machines d" "d_attempts e = d_attempts d"
    "d_experiments e = d_experiments d" "d_jobs e = d_jobs d" "d_attemptSecrets e = d_attemptSecrets d"
    "d_nextId d \<le> d_nextId e"
  shows "state_ok e"
  using assms slots_ok_tables [of d e]
  by (auto simp: state_ok_def db_ok_def attempts_ok_def names_ok_def secrets_ok_def secret_live_def
      fresh_ok_split intro: ids_below_mono)

lemma db_patch_const:
  assumes "db_wf t" "db_get t i = Some r"
  shows "db_patch t i f = db_patch t i (\<lambda>_. f r)"
proof -
  have "(if k = i then f s else s) = (if k = i then f r else s)" if "(k, s) \<in> set t" for k s
    using assms that by (auto simp: db_wf_get_iff db_wf_def dest: eq_key_imp_eq_value)
  then show ?thesis by (auto simp: db_patch_def)
qed

lemma map_db_patch_const:
  assumes "db_wf t" "db_get t i = Some r" "g v = g r"
  shows "map (\<lambda>x. g (snd x)) (db_patch t i (\<lambda>_. v)) = map (\<lambda>x. g (snd x)) t"
  using assms by (auto simp: db_patch_def db_wf_get_iff db_wf_def dest: eq_key_imp_eq_value)

lemma filter_length_1_distinct:
  assumes "distinct (map f xs)" "x \<in> set xs" "f x = v"
  shows "filter (\<lambda>y. f y = v) xs = [x]"
  using assms
proof (induction xs)
  case (Cons y ys)
  then show ?case by (cases "y = x") (auto simp: filter_empty_conv image_iff)
qed simp

lemma db_unique_distinct:
  assumes "distinct (map (\<lambda>x. g (snd x)) t)"
  shows "\<exists>r. db_unique (db_query (\<lambda>r. g r = v) t) = Inr r"
proof (cases "\<exists>x \<in> set t. g (snd x) = v")
  case True
  then obtain x where "x \<in> set t" "g (snd x) = v" by blast
  from filter_length_1_distinct [OF assms this] show ?thesis by (simp add: db_query_def db_unique_def)
next
  case False
  then have "db_query (\<lambda>r. g r = v) t = []" by (auto simp: db_query_def filter_empty_conv)
  then show ?thesis by (simp add: db_unique_def)
qed

section \<open>Secrets\<close>

definition drop_secret :: "nat \<Rightarrow> db \<Rightarrow> db" where
  "drop_secret i d = d\<lparr>d_attemptSecrets := db_query (\<lambda>s. as_attemptId s \<noteq> i) (d_attemptSecrets d)\<rparr>"

lemma drop_secret_tables [simp]:
  "d_machines (drop_secret i d) = d_machines d" "d_attempts (drop_secret i d) = d_attempts d"
  "d_experiments (drop_secret i d) = d_experiments d" "d_jobs (drop_secret i d) = d_jobs d"
  "d_profiles (drop_secret i d) = d_profiles d" "d_nextId (drop_secret i d) = d_nextId d"
  "d_commands (drop_secret i d) = d_commands d"
  "d_controllerLeases (drop_secret i d) = d_controllerLeases d"
  "d_controllerHeartbeats (drop_secret i d) = d_controllerHeartbeats d"
  "d_attemptSecrets (drop_secret i d) = db_query (\<lambda>s. as_attemptId s \<noteq> i) (d_attemptSecrets d)"
  by (simp_all add: drop_secret_def)

lemma deleteAttemptSecret_ok:
  assumes "secrets_ok d" "db_wf (d_attemptSecrets d)"
  shows "deleteAttemptSecret i d = Inr (drop_secret i d)"
proof (cases "\<exists>k s. (k, s) \<in> set (d_attemptSecrets d) \<and> as_attemptId s = i")
  case False
  then have none: "db_query (\<lambda>s. as_attemptId s = i) (d_attemptSecrets d) = []"
    "db_query (\<lambda>s. as_attemptId s \<noteq> i) (d_attemptSecrets d) = d_attemptSecrets d"
    by (force simp: db_query_def filter_empty_conv filter_id_conv)+
  then show ?thesis by (simp add: deleteAttemptSecret_def db_unique_def drop_secret_def)
next
  case True
  then obtain k s where ks: "(k, s) \<in> set (d_attemptSecrets d)" "as_attemptId s = i" by blast
  have dist: "distinct (map (\<lambda>x. as_attemptId (snd x)) (d_attemptSecrets d))"
    using assms(1) by (simp add: secrets_ok_def)
  have one: "db_query (\<lambda>s. as_attemptId s = i) (d_attemptSecrets d) = [(k, s)]"
    unfolding db_query_def using filter_length_1_distinct [OF dist ks(1)] ks(2) by simp
  have "fst x = k \<longleftrightarrow> as_attemptId (snd x) = i" if "x \<in> set (d_attemptSecrets d)" for x
  proof
    assume "fst x = k"
    then have "x = (k, s)" using that ks(1) assms(2) unfolding db_wf_def
      by (metis (no_types) fst_conv distinct_map inj_onD)
    then show "as_attemptId (snd x) = i" using ks(2) by simp
  next
    assume "as_attemptId (snd x) = i"
    then have "x = (k, s)" using that ks dist by (metis (no_types, lifting) distinct_map inj_onD snd_conv)
    then show "fst x = k" by simp
  qed
  then have "db_delete (d_attemptSecrets d) k = db_query (\<lambda>s. as_attemptId s \<noteq> i) (d_attemptSecrets d)"
    unfolding db_delete_def db_query_def by (intro filter_cong) auto
  with one show ?thesis by (simp add: deleteAttemptSecret_def db_unique_def drop_secret_def delete_secret_row_def)
qed

lemma db_ids_query_subset: "set (db_ids (db_query P t)) \<subseteq> set (db_ids t)"
  by (auto simp: db_ids_def db_query_def)

lemma state_ok_drop_secret [simp, intro]: "state_ok d \<Longrightarrow> state_ok (drop_secret i d)"
proof -
  assume ok: "state_ok d"
  have "db_ok (drop_secret i d)" using ok by (simp add: state_ok_def db_ok_def db_wf_query)
  moreover have "slots_ok (drop_secret i d)" by (rule slots_ok_tables [of d]) (use ok in auto)
  moreover have "secrets_ok (drop_secret i d)"
    using ok by (auto simp: state_ok_def secrets_ok_def secret_live_def db_query_def list_all_iff
        intro: distinct_map_filter)
  moreover have "fresh_ok (drop_secret i d)"
    using ok db_ids_query_subset [of "\<lambda>s. as_attemptId s \<noteq> i" "d_attemptSecrets d"]
    by (auto simp: state_ok_def fresh_ok_def list_all_iff)
  ultimately show ?thesis using ok by (simp add: state_ok_def attempts_ok_def names_ok_def profiles_ok_def)
qed

definition no_secret :: "nat \<Rightarrow> db \<Rightarrow> bool" where
  "no_secret i d \<longleftrightarrow> (\<forall>(k, s) \<in> set (d_attemptSecrets d). as_attemptId s \<noteq> i)"

lemma no_secret_drop [simp]: "no_secret i (drop_secret i d)"
  by (auto simp: no_secret_def db_query_def)

section \<open>Attempt rows\<close>

lemma set_db_patch:
  "(k, r) \<in> set (db_patch t i f) \<longleftrightarrow> (\<exists>r0. (k, r0) \<in> set t \<and> r = (if k = i then f r0 else r0))"
  by (induction t) (auto simp: db_patch_def)

lemma attempts_ok_patch:
  assumes "attempts_ok d" "db_wf (d_attempts d)" "\<And>a. db_get (d_attempts d) i = Some a \<Longrightarrow> attempt_ok (f a)"
  shows "attempts_ok (patch_attempt i f d)"
  using assms by (fastforce simp: attempts_ok_def list_all_iff set_db_patch db_wf_get_iff)

lemma map_db_patch_same:
  assumes "\<And>r. g (f r) = g r"
  shows "map (\<lambda>x. g (snd x)) (db_patch t i f) = map (\<lambda>x. g (snd x)) t"
  using assms by (auto simp: db_patch_def)

lemma names_ok_patch:
  assumes "names_ok d" "\<And>a. at_runnerName (f a) = at_runnerName a"
  shows "names_ok (patch_attempt i f d)"
  using assms(1) map_db_patch_same [of at_runnerName f, OF assms(2)] by (simp add: names_ok_def)

lemma secrets_ok_patch:
  assumes "secrets_ok d"
    and "\<And>a. db_get (d_attempts d) i = Some a \<Longrightarrow> active_attempt_state (at_state (f a)) \<or> no_secret i d"
  shows "secrets_ok (patch_attempt i f d)"
  using assms
  by (fastforce simp: secrets_ok_def secret_live_def list_all_iff no_secret_def split: option.splits)

lemma fresh_ok_patches [simp]:
  "fresh_ok (patch_attempt i f d) = fresh_ok d" "fresh_ok (patch_machine i g d) = fresh_ok d"
  "fresh_ok (patch_experiment i h d) = fresh_ok d" "fresh_ok (patch_job i k d) = fresh_ok d"
  "fresh_ok (runAfter t d) = fresh_ok d"
  by (simp_all add: fresh_ok_def)

text \<open>A patch that leaves the Attempt where it is.\<close>

lemma state_ok_patch_attempt:
  assumes ok: "state_ok d" and row: "db_get (d_attempts d) i = Some a" and good: "attempt_ok (f a)"
    and same: "\<And>m. attempt_on m (f a) = attempt_on m a"
    and name: "\<And>a. at_runnerName (f a) = at_runnerName a"
    and live: "active_attempt_state (at_state (f a)) \<or> no_secret i d"
  shows "state_ok (patch_attempt i f d)"
  unfolding state_ok_def
proof (intro conjI)
  show "slots_ok (patch_attempt i f d)"
    using ok row same by (intro slots_ok_patch_attempt_same) auto
  show "attempts_ok (patch_attempt i f d)"
    using ok row good by (intro attempts_ok_patch) (auto simp: state_ok_def db_ok_def)
  show "secrets_ok (patch_attempt i f d)"
    using ok row live by (intro secrets_ok_patch) auto
  show "profiles_ok (patch_attempt i f d)"
    using ok by (simp add: state_ok_def profiles_ok_def)
qed (use ok name in \<open>auto intro: names_ok_patch\<close>)

text \<open>A patch that ends an Attempt after its slot was released and its secret dropped.\<close>

lemma state_ok_end_attempt:
  assumes ok: "state_ok d" and row: "db_get (d_attempts d) i = Some a"
    and live: "active_attempt_state (at_state a)" and ends: "\<And>m. \<not> attempt_on m (f a)"
    and good: "attempt_ok (f a)" and name: "\<And>a. at_runnerName (f a) = at_runnerName a"
    and secret: "active_attempt_state (at_state (f a)) \<or> no_secret i d"
  shows "state_ok (patch_attempt i f (releaseMachineSlot (at_machineId a) d))"
  unfolding state_ok_def
proof (intro conjI)
  let ?d = "releaseMachineSlot (at_machineId a) d"
  show "slots_ok (patch_attempt i f ?d)"
    using ok row live ends by (intro slots_ok_end_attempt) auto
  have "attempts_ok ?d" "names_ok ?d" "secrets_ok ?d" "profiles_ok ?d" "fresh_ok ?d"
    using ok by (auto simp: attempts_ok_def names_ok_def secrets_ok_def secret_live_def fresh_ok_def
        profiles_ok_def state_ok_def releaseMachineSlot_def split: option.splits)
  then show "attempts_ok (patch_attempt i f ?d)" "names_ok (patch_attempt i f ?d)"
    "secrets_ok (patch_attempt i f ?d)" "profiles_ok (patch_attempt i f ?d)" "fresh_ok (patch_attempt i f ?d)"
    using ok row good name secret
    by (auto intro!: attempts_ok_patch names_ok_patch secrets_ok_patch simp: db_ok_def no_secret_def profiles_ok_def)
qed (use ok in auto)

lemma state_ok_runAfter [simp]: "state_ok (runAfter t d) = state_ok d"
  by (auto simp: state_ok_def db_ok_def attempts_ok_def names_ok_def secrets_ok_def secret_live_def profiles_ok_def fresh_ok_def)

lemma drop_secret_release:
  "drop_secret i (releaseMachineSlot m d) = releaseMachineSlot m (drop_secret i d)"
  by (auto simp: releaseMachineSlot_def drop_secret_def patch_machine_def split: option.splits)

lemma secret_deleted: "state_ok d \<Longrightarrow> deleteAttemptSecret i d = Inr (drop_secret i d)"
  by (rule deleteAttemptSecret_ok) (auto simp: state_ok_def db_ok_def)

lemma secret_deleted_release:
  assumes "state_ok d"
  shows "deleteAttemptSecret i (releaseMachineSlot m d) = Inr (releaseMachineSlot m (drop_secret i d))"
proof -
  have "secrets_ok (releaseMachineSlot m d)" "db_wf (d_attemptSecrets (releaseMachineSlot m d))"
    using assms by (auto simp: state_ok_def db_ok_def secrets_ok_def secret_live_def)
  then show ?thesis by (simp add: deleteAttemptSecret_ok drop_secret_release)
qed

section \<open>Retirement\<close>

lemma retireAttempt_result:
  assumes "state_ok d" "runnerMayBeOnline (at_state a)"
  shows "retireAttempt now (i, a) outcome reason d =
    (if at_retirement a \<noteq> None then Inr (False, d)
     else Inr (True, patch_attempt i (\<lambda>a. a
            \<lparr>at_jitConfig := None, at_runnerCleanupPending := Some True,
             at_retirement := Some \<lparr>rt_outcome = outcome, rt_reason = take 500 reason,
                                    rt_requestedAt = now\<rparr>\<rparr>) (drop_secret i d)))"
  using assms by (simp add: retireAttempt_def secret_deleted)

lemma runnerMayBeOnline_active: "runnerMayBeOnline s \<Longrightarrow> active_attempt_state s"
  by (cases s) auto

lemma retireAttempt_ok:
  assumes ok: "state_ok d" and row: "db_get (d_attempts d) i = Some a"
    and "runnerMayBeOnline (at_state a)" "at_machineId a \<noteq> None"
  obtains b d' where "retireAttempt now (i, a) outcome reason d = Inr (b, d')" "state_ok d'"
proof (cases "at_retirement a = None")
  case True
  let ?f = "\<lambda>a. a\<lparr>at_jitConfig := None, at_runnerCleanupPending := Some True,
             at_retirement := Some \<lparr>rt_outcome = outcome, rt_reason = take 500 reason,
                                    rt_requestedAt = now\<rparr>\<rparr>"
  have "state_ok (patch_attempt i ?f (drop_secret i d))"
    by (rule state_ok_patch_attempt [where a = a])
       (use assms in \<open>auto simp: attempt_ok_def attempt_on_def dest: runnerMayBeOnline_active\<close>)
  then show thesis using that retireAttempt_result [OF ok assms(3)] True by simp
next
  case False
  then show thesis using that [of False d] ok retireAttempt_result [OF ok assms(3)] by simp
qed

lemma cancelUnclaimedAttempt_ok:
  assumes ok: "state_ok d" and row: "db_get (d_attempts d) i = Some a" and "at_state a = APending"
  obtains d' where "cancelUnclaimedAttempt now (i, a) reason d = Inr d'" "state_ok d'"
proof -
  let ?f = "\<lambda>a. a\<lparr>at_state := ACancelled, at_jitConfig := None, at_cancelReason := Some (take 500 reason),
             at_finishedAt := Some now, at_runnerCleanupPending := Some True\<rparr>"
  have retire: "at_retirement a = None"
    using attempts_okD [OF _ row] ok assms(3) by (auto simp: state_ok_def attempt_ok_def)
  have "state_ok (patch_attempt i ?f (releaseMachineSlot (at_machineId a) (drop_secret i d)))"
    by (rule state_ok_end_attempt)
       (use ok row assms(3) retire in \<open>auto simp: attempt_ok_def attempt_on_def\<close>)
  then show thesis
    using that assms by (simp add: cancelUnclaimedAttempt_def releaseAttemptSlot_def secret_deleted_release)
qed

lemma finishRetirement_ok:
  assumes ok: "state_ok d" and row: "db_get (d_attempts d) i = Some a" and "isRetiring a"
  obtains d' where "finishRetirement now (i, a) unconfirmed d = Inr d'" "state_ok d'"
proof -
  from assms(3) obtain r where r: "at_retirement a = Some r" "active_attempt_state (at_state a)"
    by (auto simp: isRetiring_def dest: runnerMayBeOnline_active)
  let ?reason = "if unconfirmed
                 then rt_reason r @ '' (no controller confirmed the Runner was deleted within 6 hours)''
                 else rt_reason r"
  let ?f = "\<lambda>a. let b = a\<lparr>at_state := outcome_state (rt_outcome r), at_jitConfig := None,
                            at_finishedAt := Some now,
                            at_runnerCleanupPending := (if unconfirmed then Some True else None),
                            at_retirement := None\<rparr>
                  in case rt_outcome r of
                       RetireCancelled \<Rightarrow> b\<lparr>at_cancelReason := Some (take 500 ?reason)\<rparr>
                     | RetireFailed \<Rightarrow> b\<lparr>at_lastError := Some (take 500 ?reason)\<rparr>"
  have "state_ok (patch_attempt i ?f (releaseMachineSlot (at_machineId a) (drop_secret i d)))"
    by (rule state_ok_end_attempt)
       (use ok row r in \<open>auto simp: attempt_ok_def attempt_on_def Let_def split: retirement_outcome.splits\<close>)
  then show thesis
    using that ok r by (simp add: finishRetirement_def releaseAttemptSlot_def secret_deleted_release Let_def)
qed

lemma keepForReturningWorker_ok:
  assumes ok: "state_ok d" and row: "db_get (d_attempts d) i = Some a"
  shows "state_ok (snd (keepForReturningWorker (i, a) d))"
proof (cases "at_state a \<noteq> ARunning \<or> at_retirement a = None")
  case False
  then have "state_ok (patch_attempt i (\<lambda>a. a\<lparr>at_retirement := None, at_runnerCleanupPending := None\<rparr>) d)"
    by (intro state_ok_patch_attempt [OF ok row]) (auto simp: attempt_ok_def attempt_on_def)
  with False show ?thesis by (auto simp: keepForReturningWorker_def)
qed (use ok in \<open>simp add: keepForReturningWorker_def\<close>)

section \<open>Loops over rows\<close>

text \<open>
  A loop over rows read before it started, whose body works on its own row only: every iteration
  finds the row as it was read, so an invariant each iteration keeps holds at the end, and the loop
  throws only if an iteration does.
\<close>

lemma res_fold_rows:
  assumes "distinct (map fst docs)" "\<forall>(i, a) \<in> set docs. db_get (tab s) i = Some a" "I s"
    and step: "\<And>i a s. (i, a) \<in> set docs \<Longrightarrow> I s \<Longrightarrow> db_get (tab s) i = Some a \<Longrightarrow>
      \<exists>s'. f (i, a) s = Inr s' \<and> I s' \<and> (\<forall>j. j \<noteq> i \<longrightarrow> db_get (tab s') j = db_get (tab s) j)"
  shows "\<exists>s'. res_fold f docs s = Inr s' \<and> I s'"
  using assms
proof (induction docs arbitrary: s)
  case (Cons x docs)
  obtain i a where x: "x = (i, a)" by fastforce
  from Cons.prems(4) [of i a s] Cons.prems(2,3) obtain s1 where s1: "f (i, a) s = Inr s1" "I s1"
    "\<forall>j. j \<noteq> i \<longrightarrow> db_get (tab s1) j = db_get (tab s) j" by (auto simp: x)
  have "\<forall>(j, b) \<in> set docs. db_get (tab s1) j = Some b"
  proof (intro ballI, clarify)
    fix j b assume jb: "(j, b) \<in> set docs"
    then have "j \<noteq> i" using Cons.prems(1) by (force simp: x)
    then show "db_get (tab s1) j = Some b" using jb Cons.prems(2) s1(3) by auto
  qed
  moreover have "\<exists>s'. f (j, b) t = Inr s' \<and> I s' \<and> (\<forall>k. k \<noteq> j \<longrightarrow> db_get (tab s') k = db_get (tab t) k)"
    if "(j, b) \<in> set docs" "I t" "db_get (tab t) j = Some b" for j b t
    by (rule Cons.prems(4)) (use that in simp_all)
  ultimately have "\<exists>s'. res_fold f docs s1 = Inr s' \<and> I s'"
    using Cons.IH [OF _ _ s1(2)] Cons.prems(1) by simp
  then show ?case using s1(1) by (simp add: x)
qed simp

lemma query_rows:
  assumes "db_wf t"
  shows "distinct (map fst (db_query P t))" "\<forall>(i, a) \<in> set (db_query P t). db_get t i = Some a"
  using assms db_wf_query [OF assms, of P] by (auto simp: db_wf_def [symmetric] db_query_iff db_wf_get_iff)

section \<open>Pins\<close>

lemma drop_secret_get: "d_attempts (patch_attempt i f (releaseMachineSlot m (drop_secret i d))) = db_patch (d_attempts d) i f"
  by simp

lemma retireIfOffPin_ok:
  assumes ok: "state_ok d" and row: "db_get (d_attempts d) i = Some a"
    and idle: "at_state a \<in> set IDLE_STATES" "at_machineId a \<noteq> None"
  shows "\<exists>tally' d'. retireIfOffPin now (i, a) p m (tally, d) = Inr (tally', d') \<and> state_ok d' \<and>
    d_profiles d' = d_profiles d \<and> (\<forall>j. j \<noteq> i \<longrightarrow> db_get (d_attempts d') j = db_get (d_attempts d) j)"
proof (cases "\<exists>p' m'. p = Some p' \<and> m = Some m' \<and> missingHostLabels (pf_workerLabels p') (Some (mc_labels m')) \<noteq> []")
  case False
  then have "retireIfOffPin now (i, a) p m (tally, d) = Inr (tally, d)"
    by (cases p; cases m) (auto simp: retireIfOffPin_def Let_def)
  then show ?thesis using ok by simp
next
  case True
  then obtain p' m' where pm: "p = Some p'" "m = Some m'"
    "missingHostLabels (pf_workerLabels p') (Some (mc_labels m')) \<noteq> []" by blast
  show ?thesis
  proof (cases "at_state a = APending")
    case True
    have "state_ok (patch_attempt i (\<lambda>a. a\<lparr>at_machineId := None, at_selectionReason := None\<rparr>)
        (releaseMachineSlot (at_machineId a) d))"
      by (rule state_ok_end_attempt [OF ok row])
         (use attempts_okD [OF _ row] ok True in \<open>auto simp: attempt_ok_def attempt_on_def state_ok_def\<close>)
    then show ?thesis
      using pm True by (simp add: retireIfOffPin_def Let_def releaseAttemptSlot_def)
  next
    case False
    then have online: "runnerMayBeOnline (at_state a)" using idle(1) by (auto simp: IDLE_STATES_def)
    obtain b d' where run: "retireAttempt now (i, a) RetireCancelled
        (''Retired before it took a job. '' @ ''Worker '' @ mc_name m' @ '': '' @
         missingHostLabelsDetail (missingHostLabels (pf_workerLabels p') (Some (mc_labels m')))) d = Inr (b, d')"
      "state_ok d'" using retireAttempt_ok [OF ok row online idle(2)] .
    moreover have "d_profiles d' = d_profiles d \<and> (\<forall>j. j \<noteq> i \<longrightarrow> db_get (d_attempts d') j = db_get (d_attempts d) j)"
      using run(1) retireAttempt_result [OF ok online] by (auto split: if_splits)
    ultimately show ?thesis
      using pm False by (simp add: retireIfOffPin_def Let_def)
  qed
qed

lemma profile_named_ok:
  assumes "profiles_ok d"
  shows "\<exists>p. profile_named name d = Inr p"
proof (cases "\<exists>x \<in> set (d_profiles d). pf_name (snd x) = name")
  case True
  then obtain x where x: "x \<in> set (d_profiles d)" "pf_name (snd x) = name" by blast
  have "db_query (\<lambda>p. pf_name p = name) (d_profiles d) = [x]"
    unfolding db_query_def using assms x by (intro filter_length_1_distinct) (auto simp: profiles_ok_def)
  then show ?thesis by (simp add: profile_named_def db_unique_def)
next
  case False
  then have "db_query (\<lambda>p. pf_name p = name) (d_profiles d) = []"
    by (auto simp: db_query_def filter_empty_conv)
  then show ?thesis by (simp add: profile_named_def db_unique_def)
qed

lemma off_pin_on_worker_ok:
  assumes st: "state \<in> set IDLE_STATES" and ok: "state_ok (snd st)"
  shows "\<exists>st'. off_pin_on_worker now machine state st = Inr st' \<and> state_ok (snd st')"
  unfolding off_pin_on_worker_def
proof (rule res_fold_rows [where tab = "\<lambda>st. d_attempts (snd st)"])
  let ?docs = "db_query (\<lambda>a. at_machineId a = Some (fst machine) \<and> at_state a = state) (d_attempts (snd st))"
  show "distinct (map fst ?docs)" "\<forall>(i, a) \<in> set ?docs. db_get (d_attempts (snd st)) i = Some a"
    using query_rows [of "d_attempts (snd st)"] ok by (auto simp: state_ok_def db_ok_def)
  fix i a and s :: "pin_retirement \<times> db"
  assume ia: "(i, a) \<in> set ?docs" and oks: "state_ok (snd s)" and row: "db_get (d_attempts (snd s)) i = Some a"
  obtain p where p: "profile_named (at_profile a) (snd s) = Inr p"
    using profile_named_ok [of "snd s" "at_profile a"] oks by (auto simp: state_ok_def)
  have "at_state a \<in> set IDLE_STATES" "at_machineId a \<noteq> None" using ia st by (auto simp: db_query_iff)
  from retireIfOffPin_ok [OF oks row this, of now p "Some (snd machine)" "fst s"] p
  show "\<exists>s'. res_bind (profile_named (at_profile (snd (i, a))) (snd s))
      (\<lambda>p. retireIfOffPin now (i, a) p (Some (snd machine)) s) = Inr s' \<and> state_ok (snd s') \<and>
      (\<forall>j. j \<noteq> i \<longrightarrow> db_get (d_attempts (snd s')) j = db_get (d_attempts (snd s)) j)" by auto
qed (rule ok)

lemma retireOffPinOnWorker_ok:
  assumes "state_ok d"
  shows "\<exists>st. retireOffPinOnWorker now machine d = Inr st \<and> state_ok (snd st)"
  unfolding retireOffPinOnWorker_def
  by (rule res_fold_total) (use assms off_pin_on_worker_ok in simp_all)

lemma off_pin_of_profile_ok:
  assumes st: "state \<in> set IDLE_STATES" and ok: "state_ok (snd st)"
  shows "\<exists>st'. off_pin_of_profile now profile state st = Inr st' \<and> state_ok (snd st')"
  unfolding off_pin_of_profile_def
proof (rule res_fold_rows [where tab = "\<lambda>st. d_attempts (snd st)"])
  let ?docs = "db_query (\<lambda>a. at_profile a = pf_name profile \<and> at_state a = state) (d_attempts (snd st))"
  show "distinct (map fst ?docs)" "\<forall>(i, a) \<in> set ?docs. db_get (d_attempts (snd st)) i = Some a"
    using query_rows [of "d_attempts (snd st)"] ok by (auto simp: state_ok_def db_ok_def)
  fix i a and s :: "pin_retirement \<times> db"
  assume ia: "(i, a) \<in> set ?docs" and oks: "state_ok (snd s)" and row: "db_get (d_attempts (snd s)) i = Some a"
  have idle: "at_state a \<in> set IDLE_STATES" using ia st by (auto simp: db_query_iff)
  show "\<exists>s'. (case at_machineId (snd (i, a)) of None \<Rightarrow> Inr s
        | Some m \<Rightarrow> retireIfOffPin now (i, a) (Some profile) (db_get (d_machines (snd s)) m) s) = Inr s' \<and>
      state_ok (snd s') \<and> (\<forall>j. j \<noteq> i \<longrightarrow> db_get (d_attempts (snd s')) j = db_get (d_attempts (snd s)) j)"
  proof (cases "at_machineId a")
    case None
    then show ?thesis using oks by simp
  next
    case (Some m)
    then have "at_machineId a \<noteq> None" by simp
    from retireIfOffPin_ok [OF oks row idle this, of now "Some profile" "db_get (d_machines (snd s)) m" "fst s"]
    show ?thesis using Some by auto
  qed
qed (rule ok)

lemma retireOffPinForProfile_ok:
  assumes "state_ok d"
  shows "\<exists>st. retireOffPinForProfile now profile d = Inr st \<and> state_ok (snd st)"
proof (cases "or_else (pf_workerLabels profile) [] = []")
  case True
  then show ?thesis using assms by (simp add: retireOffPinForProfile_def)
next
  case False
  have "\<exists>st. res_fold (off_pin_of_profile now profile) IDLE_STATES (no_pin_retirement, d) = Inr st \<and> state_ok (snd st)"
    by (rule res_fold_total) (use assms off_pin_of_profile_ok in simp_all)
  with False show ?thesis by (simp add: retireOffPinForProfile_def)
qed

end
