(* ===== verification/Refinement.thy ===== *)
theory Refinement
  imports Prelude
begin

text \<open>
  Functional refinement: a component whose operations give an outcome and a new state is simulated by
  an abstract one that gives the same outcome on the abstraction of the state. The locale holds the
  step law and derives that whole sequences of operations agree; each component that has an abstract
  specification interprets it on its own operations. The second locale is the invariant of a step
  relation, which holds in every state that steps lead to.
\<close>

fun run_ops :: "('op \<Rightarrow> 's \<Rightarrow> 'o \<times> 's) \<Rightarrow> 'op list \<Rightarrow> 's \<Rightarrow> 'o list \<times> 's" where
  "run_ops step [] s = ([], s)"
| "run_ops step (x # xs) s =
     (case step x s of (out, s1) \<Rightarrow> (case run_ops step xs s1 of (outs, s2) \<Rightarrow> (out # outs, s2)))"

locale refinement =
  fixes ok :: "'s \<Rightarrow> bool"
    and abs :: "'s \<Rightarrow> 'a"
    and step :: "'op \<Rightarrow> 's \<Rightarrow> 'o \<times> 's"
    and spec :: "'op \<Rightarrow> 'a \<Rightarrow> 'o \<times> 'a"
  assumes step_ok: "ok s \<Longrightarrow> ok (snd (step x s))"
    and step_abs: "ok s \<Longrightarrow> spec x (abs s) = (fst (step x s), abs (snd (step x s)))"
begin

lemma runs_ok: "ok s \<Longrightarrow> ok (snd (run_ops step xs s))"
proof (induction xs arbitrary: s)
  case (Cons x xs)
  then show ?case using Cons.IH [OF step_ok [OF Cons.prems, of x]] by (auto split: prod.splits)
qed simp

lemma runs_abs: "ok s \<Longrightarrow> run_ops spec xs (abs s) = (fst (run_ops step xs s), abs (snd (run_ops step xs s)))"
proof (induction xs arbitrary: s)
  case (Cons x xs)
  then show ?case using Cons.IH [OF step_ok [OF Cons.prems, of x]] by (simp add: step_abs split: prod.splits)
qed simp

end

locale stable =
  fixes step :: "'s \<Rightarrow> 's \<Rightarrow> bool" and inv :: "'s \<Rightarrow> bool"
  assumes stable_step: "step s s' \<Longrightarrow> inv s \<Longrightarrow> inv s'"
begin

lemma stable_steps: "step\<^sup>*\<^sup>* s s' \<Longrightarrow> inv s \<Longrightarrow> inv s'"
  by (induction rule: rtranclp_induct) (blast intro: stable_step)+

end

end
