(* ===== verification/Cpuset.thy ===== *)
theory Cpuset
  imports Refinement "HOL-Library.AList"
begin

text \<open>
  The CPU cores of a Worker (\<open>apps/action-runner-agent/cpuset.ts\<close>): the textual cpusets Docker reads
  and reports, the allocator that hands out disjoint cores, the wrapper that releases them on every
  way out, and the reconciliation of the allocator with the containers Docker is running. Core ids are
  natural numbers. A \<open>Set\<close> of cores is the list of its elements in insertion order, a \<open>Map\<close> an
  association list. The lemmas show that printing and parsing a cpuset round trip, that the allocator
  refines a map from cores to their owner, and what a reconciliation leaves behind.
\<close>

section \<open>Cpusets as text\<close>

text \<open>\<open>[...new Set(cores)].sort((l, r) => l - r)\<close>.\<close>

definition ascending :: "nat list \<Rightarrow> nat list" where
  "ascending cores = sort (remdups cores)"

text \<open>The inner loop: the last core of the run that \<open>last\<close> is in, and what follows the run.\<close>

fun run_end :: "nat \<Rightarrow> nat list \<Rightarrow> nat \<times> nat list" where
  "run_end l [] = (l, [])"
| "run_end l (c # cs) = (if c = l + 1 then run_end (l + 1) cs else (l, c # cs))"

lemma length_run_end: "length (snd (run_end l cs)) \<le> length cs"
  by (induction l cs rule: run_end.induct) auto

definition cpuset_part :: "nat \<Rightarrow> nat \<Rightarrow> string" where
  "cpuset_part first final =
     (if first = final then show_nat first else show_nat first @ ''-'' @ show_nat final)"

function format_parts :: "nat list \<Rightarrow> string list" where
  "format_parts [] = []"
| "format_parts (first # cs) =
     (case run_end first cs of (final, rest) \<Rightarrow> cpuset_part first final # format_parts rest)"
  by pat_completeness auto
termination
proof (relation "measure length")
  fix first cs x and y :: "nat list"
  assume "(x, y) = run_end first cs"
  then show "(y, first # cs) \<in> measure length"
    using length_run_end [of first cs] by (metis in_measure le_imp_less_Suc length_Cons snd_conv)
qed simp

definition formatCpuset :: "nat list \<Rightarrow> string" where
  "formatCpuset cores = js_join '','' (format_parts (ascending cores))"

text \<open>
  The match of \<open>/^(\d+)(?:-(\d+))?$/\<close>. A number above \<open>2 ^ 53 - 1\<close> never reads as a safe integer, and
  every smaller one reads exactly.
\<close>

definition MAX_SAFE_INTEGER :: int where
  "MAX_SAFE_INTEGER = 2 ^ 53 - 1"

definition all_digits :: "string \<Rightarrow> bool" where
  "all_digits s \<longleftrightarrow> s \<noteq> [] \<and> list_all is_digit s"

definition cpuset_range :: "string \<Rightarrow> (nat \<times> nat) option" where
  "cpuset_range part =
     (case js_split (CHR ''-'') part of
        [a] \<Rightarrow> if all_digits a then Some (read_nat a, read_nat a) else None
      | [a, b] \<Rightarrow> if all_digits a \<and> all_digits b then Some (read_nat a, read_nat b) else None
      | _ \<Rightarrow> None)"

fun parse_parts :: "string list \<Rightarrow> nat list \<Rightarrow> nat list option" where
  "parse_parts [] cores = Some (ascending cores)"
| "parse_parts (part # parts) cores =
     (case cpuset_range part of
        None \<Rightarrow> None
      | Some (first, final) \<Rightarrow>
          if int first > MAX_SAFE_INTEGER \<or> int final > MAX_SAFE_INTEGER \<or> final < first then None
          else parse_parts parts (cores @ [first..<Suc final]))"

definition parseCpuset :: "string \<Rightarrow> nat list option" where
  "parseCpuset spec =
     (let trimmed = js_trim spec in
      if trimmed = [] then None else parse_parts (js_split (CHR '','') trimmed) [])"


section \<open>The allocator\<close>

record coreReservation =
  cr_key :: string
  cr_cores :: "nat list"
  cr_spec :: string
  cr_containerName :: "string option"
  cr_adopted :: bool

record coreAllocator =
  ca_totalCores :: nat
  ca_free :: "nat list"
  ca_held :: "(string \<times> coreReservation) list"

definition hostCores :: "nat \<Rightarrow> nat" where
  "hostCores availableParallelism = max 1 availableParallelism"

definition newCoreAllocator :: "js_number \<Rightarrow> coreAllocator res" where
  "newCoreAllocator totalCores =
     throw_if (\<not> is_safe_integer totalCores \<or> int_val totalCores < 1)
       (PlainError ''A Worker must have at least one core'')
       (Inr \<lparr>ca_totalCores = nat (int_val totalCores), ca_free = [0..<nat (int_val totalCores)], ca_held = []\<rparr>)"

definition freeCores :: "coreAllocator \<Rightarrow> nat" where
  "freeCores a = length (ca_free a)"

definition has_reservation :: "string \<Rightarrow> coreAllocator \<Rightarrow> bool" where
  "has_reservation key a \<longleftrightarrow> map_of (ca_held a) key \<noteq> None"

definition reservations :: "coreAllocator \<Rightarrow> coreReservation list" where
  "reservations a = map snd (ca_held a)"

definition record_reservation ::
  "string \<Rightarrow> nat list \<Rightarrow> string option \<Rightarrow> bool \<Rightarrow> coreAllocator \<Rightarrow> (coreReservation option \<times> coreAllocator) res" where
  "record_reservation key cores containerName adopted a =
     throw_if (has_reservation key a) (PlainError (key @ '' already holds a core reservation on this Worker''))
       (let reservation = \<lparr>cr_key = key, cr_cores = cores, cr_spec = formatCpuset cores,
              cr_containerName = containerName, cr_adopted = adopted\<rparr>
        in Inr (Some reservation,
                a\<lparr>ca_free := filter (\<lambda>c. c \<notin> set cores) (ca_free a),
                  ca_held := ca_held a @ [(key, reservation)]\<rparr>))"

definition reserve ::
  "string \<Rightarrow> js_number \<Rightarrow> string option \<Rightarrow> coreAllocator \<Rightarrow> (coreReservation option \<times> coreAllocator) res" where
  "reserve key vcpus containerName a =
     throw_if (\<not> is_safe_integer vcpus \<or> int_val vcpus < 1) (PlainError (key @ '' asked for ''))
       (if int_val vcpus > int (freeCores a) then Inr (None, a)
        else record_reservation key (take (nat (int_val vcpus)) (sort (ca_free a))) containerName False a)"

definition hold ::
  "string \<Rightarrow> nat list \<Rightarrow> string option \<Rightarrow> coreAllocator \<Rightarrow> (coreReservation option \<times> coreAllocator) res" where
  "hold key cores containerName a =
     (if cores = [] then Inr (None, a)
      else if list_ex (\<lambda>c. c \<notin> set (ca_free a)) cores then Inr (None, a)
      else record_reservation key cores containerName True a)"

text \<open>\<open>Set.add\<close>: an element already there keeps its place.\<close>

definition set_add :: "nat \<Rightarrow> nat list \<Rightarrow> nat list" where
  "set_add c cs = (if c \<in> set cs then cs else cs @ [c])"

definition release_cores :: "string \<Rightarrow> coreAllocator \<Rightarrow> bool \<times> coreAllocator" where
  "release_cores key a =
     (case map_of (ca_held a) key of
        None \<Rightarrow> (False, a)
      | Some reservation \<Rightarrow>
          (True, a\<lparr>ca_free := fold set_add (cr_cores reservation) (ca_free a),
                   ca_held := filter (\<lambda>(k, _). k \<noteq> key) (ca_held a)\<rparr>))"


section \<open>Work that holds cores\<close>

text \<open>
  \<open>body\<close> is the work done while the cores are held. It runs on the allocator as it is when it starts
  and returns it as it is when it settles, so that what other work did in between is part of it; its
  result is a value or the error it threw.
\<close>

record coreRequest =
  rq_key :: string
  rq_vcpus :: "js_number option"
  rq_containerName :: "string option"

definition CoreExhaustedError :: "string \<Rightarrow> js_error" where
  "CoreExhaustedError key = PlainError (key @ '' needs '')"

definition withCores ::
  "coreRequest \<Rightarrow> (coreReservation option \<Rightarrow> coreAllocator \<Rightarrow> 'a res \<times> coreAllocator) \<Rightarrow> coreAllocator \<Rightarrow>
   'a res \<times> coreAllocator" where
  "withCores request body a =
     (case rq_vcpus request of
        None \<Rightarrow> body None a
      | Some vcpus \<Rightarrow>
          (case reserve (rq_key request) vcpus (rq_containerName request) a of
             Inl e \<Rightarrow> (Inl e, a)
           | Inr (None, a1) \<Rightarrow> (Inl (CoreExhaustedError (rq_key request)), a1)
           | Inr (Some reservation, a1) \<Rightarrow>
               (case body (Some reservation) a1 of
                  (result, a2) \<Rightarrow> (result, snd (release_cores (rq_key request) a2)))))"


section \<open>Reconciliation with Docker\<close>

text \<open>
  \<open>docker args\<close> is the exit code and the standard output of one \<open>docker\<close> command. Nothing between the
  last answer and the end of the function waits, so the allocator it works on is the one found then.
\<close>

record cpuReconcileResult =
  cz_adopted :: "string list"
  cz_released :: "string list"
  cz_unpinned :: "string list"

definition PROFILE_LABEL :: string where
  "PROFILE_LABEL = ''runner-center.profile''"

definition docker_ps_args :: "string list" where
  "docker_ps_args = [''ps'', ''--filter'', ''label='' @ PROFILE_LABEL, ''--format'', ''{{.Names}}'']"

definition docker_inspect_args :: "string list \<Rightarrow> string list" where
  "docker_inspect_args names =
     [''inspect'', ''--format'', ''{{.Name}}'' @ [CHR 0x09] @ ''{{.HostConfig.CpusetCpus}}''] @ names"

definition container_names :: "string \<Rightarrow> string list" where
  "container_names stdout = filter (\<lambda>l. l \<noteq> []) (map js_trim (js_split (CHR 0x0A) stdout))"

definition strip_slash :: "string \<Rightarrow> string" where
  "strip_slash s = (case s of c # cs \<Rightarrow> if c = CHR ''/'' then cs else s | [] \<Rightarrow> [])"

definition read_container :: "string \<Rightarrow> (string \<times> nat list) list \<times> string list \<Rightarrow> (string \<times> nat list) list \<times> string list" where
  "read_container line state =
     (case (js_split (CHR 0x09) line, state) of
        (rawName # rawCpuset # _, (live, unpinned)) \<Rightarrow>
          let name = strip_slash (js_trim rawName) in
          if name = [] then state
          else (case parseCpuset rawCpuset of
                  None \<Rightarrow> (live, unpinned @ [name])
                | Some cores \<Rightarrow> (AList.update name cores live, unpinned))
      | _ \<Rightarrow> state)"

definition release_gone ::
  "(string \<times> nat list) list \<Rightarrow> coreReservation \<Rightarrow> string list \<times> coreAllocator \<Rightarrow> string list \<times> coreAllocator" where
  "release_gone live reservation state =
     (case state of (released, a) \<Rightarrow>
        if \<not> cr_adopted reservation then state
        else (case cr_containerName reservation of
                Some name \<Rightarrow>
                  if map_of live name \<noteq> None then state
                  else (released @ [name], snd (release_cores (cr_key reservation) a))
              | None \<Rightarrow> (released, snd (release_cores (cr_key reservation) a))))"

fun adopt_live ::
  "string list \<Rightarrow> (string \<times> nat list) list \<Rightarrow> string list \<Rightarrow> coreAllocator \<Rightarrow> string list res \<times> coreAllocator" where
  "adopt_live accounted [] adopted a = (Inr adopted, a)"
| "adopt_live accounted ((name, cores) # live) adopted a =
     (if name \<in> set accounted then adopt_live accounted live adopted a
      else (case hold (''container:'' @ name) cores (Some name) a of
              Inl e \<Rightarrow> (Inl e, a)
            | Inr (None, a1) \<Rightarrow> adopt_live accounted live adopted a1
            | Inr (Some _, a1) \<Rightarrow> adopt_live accounted live (adopted @ [name]) a1))"

definition live_containers :: "(string list \<Rightarrow> int \<times> string) \<Rightarrow> string list \<Rightarrow> (string \<times> nat list) list \<times> string list" where
  "live_containers docker names =
     (if names = [] then ([], [])
      else fold read_container (js_split (CHR 0x0A) (snd (docker (docker_inspect_args names)))) ([], []))"

definition reconcileDockerReservations ::
  "(string list \<Rightarrow> int \<times> string) \<Rightarrow> coreAllocator \<Rightarrow> cpuReconcileResult res \<times> coreAllocator" where
  "reconcileDockerReservations docker a =
     (case docker docker_ps_args of (exitCode, stdout) \<Rightarrow>
        if exitCode \<noteq> 0 then (Inl (PlainError ''docker ps exited ''), a)
        else
          (case live_containers docker (container_names stdout) of (live, unpinned) \<Rightarrow>
             (case fold (release_gone live) (reservations a) ([], a) of (released, a1) \<Rightarrow>
                let accounted = List.map_filter cr_containerName (reservations a1) in
                (case adopt_live accounted live [] a1 of
                   (Inl e, a2) \<Rightarrow> (Inl e, a2)
                 | (Inr adopted, a2) \<Rightarrow>
                     (Inr \<lparr>cz_adopted = adopted, cz_released = released, cz_unpinned = unpinned\<rparr>, a2)))))"

section \<open>Printing and parsing\<close>

lemma set_ascending [simp]: "set (ascending xs) = set xs"
  by (simp add: ascending_def)

lemma ascending_Nil [simp]: "ascending xs = [] \<longleftrightarrow> xs = []"
  by (metis set_ascending set_empty)

lemma ascending_ok [simp]: "sorted (ascending xs)" "distinct (ascending xs)"
  by (simp_all add: ascending_def)

lemma ascending_fixed: "sorted xs \<Longrightarrow> distinct xs \<Longrightarrow> ascending xs = xs"
  by (simp add: ascending_def sorted_sort_id distinct_remdups_id)

lemma ascending_idem [simp]: "ascending (ascending xs) = ascending xs"
  by (rule ascending_fixed) simp_all

lemma run_end_run: "run_end l cs = (e, rest) \<Longrightarrow> l \<le> e \<and> [l..<Suc e] @ rest = l # cs"
proof (induction l cs rule: run_end.induct)
  case (2 l c cs)
  show ?case
  proof (cases "c = l + 1")
    case True
    with 2 have "l + 1 \<le> e" "[l + 1..<Suc e] @ rest = (l + 1) # cs" by auto
    then show ?thesis using True by (simp add: upt_conv_Cons)
  qed (use 2 in auto)
qed auto

lemma show_nat_chars: "c \<in> set (show_nat n) \<Longrightarrow> c \<noteq> CHR ''-'' \<and> c \<noteq> CHR '','' \<and> \<not> js_space c"
  by (drule show_nat_digits) (auto simp: is_digit_def js_space_def)

lemma all_digits_show [simp]: "all_digits (show_nat n)"
  by (simp add: all_digits_def list_all_iff show_nat_digits)

lemma cpuset_range_part: "cpuset_range (cpuset_part first final) = Some (first, final)"
proof -
  have dash: "CHR ''-'' \<notin> set (show_nat n)" for n using show_nat_chars by blast
  then show ?thesis
    by (simp add: cpuset_range_def cpuset_part_def js_split_no_sep js_split_append_sep)
qed

lemma parse_format_parts:
  "\<forall>c \<in> set xs. int c \<le> MAX_SAFE_INTEGER \<Longrightarrow> parse_parts (format_parts xs) acc = Some (ascending (acc @ xs))"
proof (induction xs arbitrary: acc rule: format_parts.induct)
  case (2 first cs)
  obtain e rest where run: "run_end first cs = (e, rest)" by force
  note r = run_end_run [OF run]
  then have "set (first # cs) = {first..e} \<union> set rest" by (metis atLeastLessThanSuc_atLeastAtMost set_append set_upt)
  with r "2.prems" have le: "int first \<le> MAX_SAFE_INTEGER" "int e \<le> MAX_SAFE_INTEGER" "\<forall>c \<in> set rest. int c \<le> MAX_SAFE_INTEGER"
    by auto
  show ?case
    using "2.IH" [OF run [symmetric] le(3)] le(1,2) r by (simp add: run cpuset_range_part del: upt_Suc)
qed simp

lemma format_parts_chars:
  "p \<in> set (format_parts xs) \<Longrightarrow> p \<noteq> [] \<and> CHR '','' \<notin> set p \<and> (\<forall>c \<in> set p. \<not> js_space c)"
proof (induction xs rule: format_parts.induct)
  case (2 first cs)
  have "\<not> js_space (CHR ''-'')" by (simp add: js_space_def)
  then have "cpuset_part a b \<noteq> [] \<and> CHR '','' \<notin> set (cpuset_part a b) \<and> (\<forall>c \<in> set (cpuset_part a b). \<not> js_space c)" for a b
    using show_nat_chars by (auto simp: cpuset_part_def)
  with 2 show ?case by (auto split: prod.splits)
qed simp

lemma format_parts_Nil [simp]: "format_parts xs = [] \<longleftrightarrow> xs = []"
  by (cases xs) (auto split: prod.splits)

lemma set_js_join_chars: "c \<in> set (js_join sep xs) \<Longrightarrow> c \<in> set sep \<or> (\<exists>x \<in> set xs. c \<in> set x)"
  by (induction sep xs rule: js_join.induct) auto

lemma formatCpuset_trim: "js_trim (formatCpuset xs) = formatCpuset xs"
proof -
  have "\<not> js_space c" if "c \<in> set (formatCpuset xs)" for c
    using set_js_join_chars [OF that [unfolded formatCpuset_def]] format_parts_chars
    by (auto simp: js_space_def)
  then show ?thesis by (intro js_trim_fixed) (metis hd_in_set last_in_set)
qed

text \<open>C40: A cpuset the Agent prints reads back as exactly the cores it was printed for, in ascending
  order and each once, for any cores in any order with any repetition.\<close>

theorem parse_formatCpuset:
  assumes "cores \<noteq> []" and "\<forall>c \<in> set cores. int c \<le> MAX_SAFE_INTEGER"
  shows "parseCpuset (formatCpuset cores) = Some (ascending cores)"
proof -
  let ?parts = "format_parts (ascending cores)"
  have parts: "js_split (CHR '','') (formatCpuset cores) = ?parts"
    unfolding formatCpuset_def using assms(1) format_parts_chars by (intro js_split_join) auto
  have "formatCpuset cores \<noteq> []"
  proof
    assume "formatCpuset cores = []"
    with parts have "?parts = [[]]" by simp
    then show False using format_parts_chars [of "[]"] by (metis list.set_intros(1))
  qed
  then show ?thesis
    using parse_format_parts [of "ascending cores" "[]"] assms(2)
    by (simp add: parseCpuset_def formatCpuset_trim parts Let_def)
qed

theorem parse_formatCpuset_witness: "parseCpuset (formatCpuset [7, 2, 3, 2, 10]) = Some [2, 3, 7, 10]"
proof -
  have "ascending [7, 2, 3, 2, 10] = [2, 3, 7, 10]" by (simp add: ascending_def)
  moreover have "\<forall>c \<in> set [7, 2, 3, 2, 10]. int c \<le> MAX_SAFE_INTEGER" by (simp add: MAX_SAFE_INTEGER_def)
  ultimately show ?thesis using parse_formatCpuset [of "[7, 2, 3, 2, 10]"] by simp
qed

section \<open>The allocator refines a map from cores to owners\<close>

text \<open>
  What every operation keeps: the free cores and the cores of the reservations divide the Worker's
  cores among them, no core is in two places, and each reservation is stored under its own key with
  its own cpuset.
\<close>

definition reservation_ok :: "coreAllocator \<Rightarrow> string \<times> coreReservation \<Rightarrow> bool" where
  "reservation_ok a = (\<lambda>(k, r). cr_key r = k \<and> cr_cores r \<noteq> [] \<and> cr_spec r = formatCpuset (cr_cores r))"

definition owned_by :: "coreAllocator \<Rightarrow> nat \<Rightarrow> string \<Rightarrow> bool" where
  "owned_by a c k \<longleftrightarrow> (\<exists>r. (k, r) \<in> set (ca_held a) \<and> c \<in> set (cr_cores r))"

definition alloc_ok :: "coreAllocator \<Rightarrow> bool" where
  "alloc_ok a \<longleftrightarrow>
     distinct (ca_free a) \<and> distinct (map fst (ca_held a)) \<and> list_all (reservation_ok a) (ca_held a) \<and>
     (\<forall>c. c < ca_totalCores a \<longleftrightarrow> c \<in> set (ca_free a) \<or> (\<exists>k. owned_by a c k)) \<and>
     (\<forall>c k. owned_by a c k \<longrightarrow> c \<notin> set (ca_free a)) \<and>
     (\<forall>c k k'. owned_by a c k \<longrightarrow> owned_by a c k' \<longrightarrow> k = k')"

text \<open>The owner of a core, and the operations on maps from cores to owners.\<close>

type_synonym core_pool = "nat \<Rightarrow> string option"

definition owner :: "coreAllocator \<Rightarrow> nat \<times> core_pool" where
  "owner a = (ca_totalCores a, \<lambda>c. map_option fst (List.find (\<lambda>(k, r). c \<in> set (cr_cores r)) (ca_held a)))"

datatype core_op = Reserve string js_number "string option" | Hold string "nat list" "string option" | Release string

datatype core_outcome = Threw | NoCores | Granted "nat list" | Dropped bool

definition granted_outcome ::
  "coreAllocator \<Rightarrow> (coreReservation option \<times> coreAllocator) res \<Rightarrow> core_outcome \<times> coreAllocator" where
  "granted_outcome a result =
     (case result of
        Inl _ \<Rightarrow> (Threw, a)
      | Inr (None, a1) \<Rightarrow> (NoCores, a1)
      | Inr (Some r, a1) \<Rightarrow> (Granted (cr_cores r), a1))"

fun core_step :: "core_op \<Rightarrow> coreAllocator \<Rightarrow> core_outcome \<times> coreAllocator" where
  "core_step (Reserve k n cn) a = granted_outcome a (reserve k n cn a)"
| "core_step (Hold k cs cn) a = granted_outcome a (hold k cs cn a)"
| "core_step (Release k) a = (case release_cores k a of (b, a1) \<Rightarrow> (Dropped b, a1))"

definition owns_some :: "string \<Rightarrow> nat \<times> core_pool \<Rightarrow> bool" where
  "owns_some k p = list_ex (\<lambda>c. snd p c = Some k) [0..<fst p]"

definition grant_cores :: "string \<Rightarrow> nat list \<Rightarrow> nat \<times> core_pool \<Rightarrow> core_outcome \<times> nat \<times> core_pool" where
  "grant_cores k cs p =
     (if owns_some k p then (Threw, p)
      else (Granted cs, fst p, \<lambda>c. if c \<in> set cs then Some k else snd p c))"

fun pool_step :: "core_op \<Rightarrow> nat \<times> core_pool \<Rightarrow> core_outcome \<times> nat \<times> core_pool" where
  "pool_step (Reserve k n cn) p =
     (let unowned = filter (\<lambda>c. snd p c = None) [0..<fst p] in
      if \<not> is_safe_integer n \<or> int_val n < 1 then (Threw, p)
      else if int_val n > int (length unowned) then (NoCores, p)
      else grant_cores k (take (nat (int_val n)) unowned) p)"
| "pool_step (Hold k cs cn) p =
     (if cs = [] \<or> list_ex (\<lambda>c. c \<ge> fst p \<or> snd p c \<noteq> None) cs then (NoCores, p)
      else grant_cores k cs p)"
| "pool_step (Release k) p = (Dropped (owns_some k p), fst p, \<lambda>c. if snd p c = Some k then None else snd p c)"

lemma alloc_okD:
  assumes "alloc_ok a"
  shows "distinct (ca_free a)" "distinct (map fst (ca_held a))" "list_all (reservation_ok a) (ca_held a)"
    "\<And>c. c < ca_totalCores a \<longleftrightarrow> c \<in> set (ca_free a) \<or> (\<exists>k. owned_by a c k)"
    "\<And>c k. owned_by a c k \<Longrightarrow> c \<notin> set (ca_free a)"
    "\<And>c k k'. owned_by a c k \<Longrightarrow> owned_by a c k' \<Longrightarrow> k = k'"
  using assms unfolding alloc_ok_def by blast+

lemma alloc_okI:
  assumes "distinct (ca_free a)" "distinct (map fst (ca_held a))" "list_all (reservation_ok a) (ca_held a)"
    "\<And>c. c < ca_totalCores a \<longleftrightarrow> c \<in> set (ca_free a) \<or> (\<exists>k. owned_by a c k)"
    "\<And>c k. owned_by a c k \<Longrightarrow> c \<notin> set (ca_free a)"
    "\<And>c k k'. owned_by a c k \<Longrightarrow> owned_by a c k' \<Longrightarrow> k = k'"
  shows "alloc_ok a"
  using assms unfolding alloc_ok_def by blast

lemma snd_owner:
  assumes "alloc_ok a"
  shows "snd (owner a) c = Some k \<longleftrightarrow> owned_by a c k"
proof
  assume "snd (owner a) c = Some k"
  then show "owned_by a c k"
    by (auto simp: owner_def owned_by_def dest!: find_SomeD)
next
  assume o: "owned_by a c k"
  then have "List.find (\<lambda>(k, r). c \<in> set (cr_cores r)) (ca_held a) \<noteq> None"
    unfolding find_None_iff by (auto simp: owned_by_def)
  then obtain k' r where f: "List.find (\<lambda>(k, r). c \<in> set (cr_cores r)) (ca_held a) = Some (k', r)" by auto
  then have "owned_by a c k'" by (auto simp: owned_by_def dest!: find_SomeD)
  then have "k' = k" using alloc_okD(6) [OF assms] o by blast
  then show "snd (owner a) c = Some k" using f by (simp add: owner_def)
qed

lemma snd_owner_None: "alloc_ok a \<Longrightarrow> snd (owner a) c = None \<longleftrightarrow> (\<forall>k. \<not> owned_by a c k)"
  by (metis not_None_eq snd_owner)

lemma fst_owner [simp]: "fst (owner a) = ca_totalCores a"
  by (simp add: owner_def)

lemma owner_eqI:
  assumes "alloc_ok a" "ca_totalCores a = fst p" "\<And>c k. owned_by a c k \<longleftrightarrow> snd p c = Some k"
  shows "owner a = p"
proof (rule prod_eqI)
  show "snd (owner a) = snd p"
  proof
    show "snd (owner a) c = snd p c" for c
      by (metis assms(1,3) option.exhaust snd_owner)
  qed
qed (use assms(2) in simp)

lemma has_reservation_iff: "has_reservation k a \<longleftrightarrow> (\<exists>r. (k, r) \<in> set (ca_held a))"
  by (force simp: has_reservation_def map_of_eq_None_iff image_iff)

lemma owns_some_owner:
  assumes "alloc_ok a"
  shows "owns_some k (owner a) \<longleftrightarrow> has_reservation k a"
proof -
  have "(\<exists>c < ca_totalCores a. owned_by a c k) \<longleftrightarrow> (\<exists>c. owned_by a c k)"
    using alloc_okD(4) [OF assms] by blast
  also have "\<dots> \<longleftrightarrow> has_reservation k a"
  proof
    assume "has_reservation k a"
    then obtain r where r: "(k, r) \<in> set (ca_held a)" by (auto simp: has_reservation_iff)
    then have "cr_cores r \<noteq> []" using alloc_okD(3) [OF assms] by (auto simp: list_all_iff reservation_ok_def)
    then show "\<exists>c. owned_by a c k" using r by (auto simp: owned_by_def) (metis list.set_intros(1) neq_Nil_conv)
  qed (auto simp: owned_by_def has_reservation_iff)
  finally show ?thesis by (auto simp: owns_some_def list_ex_iff snd_owner [OF assms])
qed

lemma record_reservation_ok:
  assumes ok: "alloc_ok a" and cs: "cs \<noteq> []" "set cs \<subseteq> set (ca_free a)" and new: "\<not> has_reservation k a"
    and r: "record_reservation k cs cn ad a = Inr (r, a1)"
  shows "alloc_ok a1" "owner a1 = (ca_totalCores a, \<lambda>c. if c \<in> set cs then Some k else snd (owner a) c)"
    "map_option cr_cores r = Some cs"
proof -
  from r new have a1: "ca_held a1 = ca_held a @ [(k, \<lparr>cr_key = k, cr_cores = cs, cr_spec = formatCpuset cs, cr_containerName = cn, cr_adopted = ad\<rparr>)]"
      "ca_free a1 = filter (\<lambda>c. c \<notin> set cs) (ca_free a)" "ca_totalCores a1 = ca_totalCores a" and "map_option cr_cores r = Some cs"
    by (auto simp: record_reservation_def Let_def throw_if_def)
  then show "map_option cr_cores r = Some cs" by simp
  have own: "owned_by a1 c k' \<longleftrightarrow> owned_by a c k' \<or> k' = k \<and> c \<in> set cs" for c k'
    unfolding owned_by_def a1(1) by (simp add: ex_disj_distrib conj_disj_distribR conj_assoc) auto
  have fresh: "\<not> owned_by a c k'" if "c \<in> set cs" for c k' using alloc_okD(5) [OF ok] cs(2) that by blast
  show ok1: "alloc_ok a1"
  proof (rule alloc_okI)
    show "distinct (ca_free a1)" using alloc_okD(1) [OF ok] by (simp add: a1)
    show "distinct (map fst (ca_held a1))" using alloc_okD(2) [OF ok] new by (auto simp: a1 has_reservation_iff)
    show "list_all (reservation_ok a1) (ca_held a1)"
      using alloc_okD(3) [OF ok] cs(1) by (auto simp: a1 list_all_iff reservation_ok_def)
    show "c < ca_totalCores a1 \<longleftrightarrow> c \<in> set (ca_free a1) \<or> (\<exists>k. owned_by a1 c k)" for c
      using alloc_okD(4) [OF ok, of c] cs(2) by (auto simp: own a1)
    show "c \<notin> set (ca_free a1)" if "owned_by a1 c k'" for c k'
      using that alloc_okD(5) [OF ok, of c k'] by (auto simp: own a1)
    show "k1 = k2" if "owned_by a1 c k1" "owned_by a1 c k2" for c k1 k2
      using that alloc_okD(6) [OF ok, of c k1 k2] fresh [of c] by (auto simp: own)
  qed
  show "owner a1 = (ca_totalCores a, \<lambda>c. if c \<in> set cs then Some k else snd (owner a) c)"
    by (rule owner_eqI [OF ok1]) (auto simp: own a1 snd_owner [OF ok] dest: fresh)
qed

lemma record_reservation_refines:
  assumes ok: "alloc_ok a" and cs: "cs \<noteq> []" "set cs \<subseteq> set (ca_free a)"
  shows "alloc_ok (snd (granted_outcome a (record_reservation k cs cn ad a)))"
    "grant_cores k cs (owner a) =
       (fst (granted_outcome a (record_reservation k cs cn ad a)), owner (snd (granted_outcome a (record_reservation k cs cn ad a))))"
proof -
  have "alloc_ok (snd (granted_outcome a (record_reservation k cs cn ad a))) \<and>
    grant_cores k cs (owner a) =
       (fst (granted_outcome a (record_reservation k cs cn ad a)), owner (snd (granted_outcome a (record_reservation k cs cn ad a))))"
  proof (cases "has_reservation k a")
    case True
    then show ?thesis using ok
      by (simp add: record_reservation_def granted_outcome_def grant_cores_def owns_some_owner throw_if_def)
  next
    case False
    then obtain r a1 where r: "record_reservation k cs cn ad a = Inr (Some r, a1)"
      by (simp add: record_reservation_def throw_if_def Let_def)
    then show ?thesis using record_reservation_ok [OF ok cs False r] False ok
      by (simp add: granted_outcome_def grant_cores_def owns_some_owner)
  qed
  then show "alloc_ok (snd (granted_outcome a (record_reservation k cs cn ad a)))"
    "grant_cores k cs (owner a) =
       (fst (granted_outcome a (record_reservation k cs cn ad a)), owner (snd (granted_outcome a (record_reservation k cs cn ad a))))"
    by blast+
qed

text \<open>The free cores in ascending order are the cores nobody owns.\<close>

lemma free_unowned:
  assumes "alloc_ok a"
  shows "sort (ca_free a) = filter (\<lambda>c. snd (owner a) c = None) [0..<ca_totalCores a]"
proof (rule sorted_distinct_set_unique)
  show "set (sort (ca_free a)) = set (filter (\<lambda>c. snd (owner a) c = None) [0..<ca_totalCores a])"
    using alloc_okD(4,5) [OF assms] by (auto simp: snd_owner_None [OF assms])
qed (use alloc_okD(1) [OF assms] in \<open>auto simp: sorted_wrt_filter\<close>)

lemma set_fold_set_add [simp]: "set (fold set_add cs xs) = set cs \<union> set xs"
  by (induction cs arbitrary: xs) (auto simp: set_add_def)

lemma distinct_fold_set_add: "distinct xs \<Longrightarrow> distinct (fold set_add cs xs)"
  by (induction cs arbitrary: xs) (auto simp: set_add_def)

lemma release_cores_ok:
  assumes ok: "alloc_ok a" and r: "release_cores k a = (b, a1)"
  shows "alloc_ok a1" "b \<longleftrightarrow> has_reservation k a" "ca_totalCores a1 = ca_totalCores a"
    "\<And>c k'. owned_by a1 c k' \<longleftrightarrow> owned_by a c k' \<and> k' \<noteq> k"
proof -
  show b: "b \<longleftrightarrow> has_reservation k a" and total: "ca_totalCores a1 = ca_totalCores a"
    using r by (auto simp: release_cores_def has_reservation_def split: option.splits)
  have held: "ca_held a1 = filter (\<lambda>(k', _). k' \<noteq> k) (ca_held a)"
  proof (cases "has_reservation k a")
    case False
    then have "filter (\<lambda>(k', _). k' \<noteq> k) (ca_held a) = ca_held a"
      by (auto simp: has_reservation_iff filter_id_conv)
    then show ?thesis using r False by (simp add: release_cores_def has_reservation_def)
  qed (use r in \<open>auto simp: release_cores_def has_reservation_def split: option.splits\<close>)
  have own: "owned_by a1 c k' \<longleftrightarrow> owned_by a c k' \<and> k' \<noteq> k" for c k'
    by (auto simp: owned_by_def held)
  then show "\<And>c k'. owned_by a1 c k' \<longleftrightarrow> owned_by a c k' \<and> k' \<noteq> k" .
  have mo: "map_of (ca_held a) k = Some res \<longleftrightarrow> (k, res) \<in> set (ca_held a)" for res
    using alloc_okD(2) [OF ok] by simp
  have free: "c \<in> set (ca_free a1) \<longleftrightarrow> c \<in> set (ca_free a) \<or> owned_by a c k" for c
  proof (cases "map_of (ca_held a) k")
    case None
    then have "\<not> owned_by a c k" by (auto simp: owned_by_def mo [symmetric])
    then show ?thesis using r None by (simp add: release_cores_def)
  next
    case (Some res)
    then have "owned_by a c k \<longleftrightarrow> c \<in> set (cr_cores res)" by (auto simp: owned_by_def mo [symmetric])
    then show ?thesis using r Some by (auto simp: release_cores_def)
  qed
  have "distinct (ca_free a1)"
    using r alloc_okD(1) [OF ok] by (auto simp: release_cores_def distinct_fold_set_add split: option.splits)
  moreover have "distinct (map fst (ca_held a1))" using alloc_okD(2) [OF ok] by (simp add: held distinct_map_filter)
  moreover have "list_all (reservation_ok a1) (ca_held a1)"
    using alloc_okD(3) [OF ok] by (auto simp: held list_all_iff reservation_ok_def)
  moreover have "c < ca_totalCores a1 \<longleftrightarrow> c \<in> set (ca_free a1) \<or> (\<exists>k. owned_by a1 c k)" for c
    using alloc_okD(4) [OF ok, of c] by (auto simp: own free total)
  ultimately show "alloc_ok a1"
    unfolding alloc_ok_def using alloc_okD(5,6) [OF ok] by (auto simp: own free)
qed

interpretation cores: refinement alloc_ok owner core_step pool_step
proof
  fix a x
  assume ok: "alloc_ok a"
  have release: "alloc_ok a1" "owner a1 = (ca_totalCores a, \<lambda>c. if snd (owner a) c = Some k then None else snd (owner a) c)"
    if "release_cores k a = (b, a1)" for k b a1
    using release_cores_ok [OF ok that]
    by (auto intro!: owner_eqI simp: snd_owner [OF ok, symmetric] split: if_splits)
  have unowned: "length (filter (\<lambda>c. snd (owner a) c = None) [0..<ca_totalCores a]) = freeCores a"
    unfolding free_unowned [OF ok, symmetric] by (simp add: freeCores_def)
  have free: "c \<in> set (ca_free a) \<longleftrightarrow> c < ca_totalCores a \<and> snd (owner a) c = None" for c
    using arg_cong [OF free_unowned [OF ok], of set] by auto
  have "alloc_ok (snd (core_step x a)) \<and> pool_step x (owner a) = (fst (core_step x a), owner (snd (core_step x a)))"
  proof (cases x)
    case (Reserve k n cn)
    let ?cs = "take (nat (int_val n)) (sort (ca_free a))"
    show ?thesis
    proof (cases "\<not> is_safe_integer n \<or> int_val n < 1 \<or> int_val n > int (freeCores a)")
      case False
      then have "0 < length (sort (ca_free a))" by (auto simp: freeCores_def)
      then have "sort (ca_free a) \<noteq> []" by blast
      with False have "?cs \<noteq> []" by simp
      moreover have "set ?cs \<subseteq> set (ca_free a)"
        using set_take_subset [of "nat (int_val n)" "sort (ca_free a)"] by simp
      ultimately show ?thesis using record_reservation_refines [OF ok, of ?cs k cn False] False
        by (simp add: Reserve reserve_def throw_if_def unowned free_unowned [OF ok, symmetric] Let_def not_less freeCores_def)
    qed (use ok in \<open>auto simp: Reserve reserve_def throw_if_def unowned granted_outcome_def Let_def\<close>)
  next
    case (Hold k cs cn)
    show ?thesis
    proof (cases "cs = [] \<or> list_ex (\<lambda>c. c \<notin> set (ca_free a)) cs")
      case False
      then have "cs \<noteq> []" "set cs \<subseteq> set (ca_free a)" by (auto simp: list_ex_iff)
      from record_reservation_refines [OF ok this] False show ?thesis
        by (auto simp: Hold hold_def free list_ex_iff)
    qed (use ok in \<open>auto simp: Hold hold_def free granted_outcome_def list_ex_iff\<close>)
  next
    case (Release k)
    obtain b a1 where r: "release_cores k a = (b, a1)" by force
    from release [OF r] release_cores_ok(2) [OF ok r] show ?thesis
      by (simp add: Release r owns_some_owner [OF ok])
  qed
  then show "alloc_ok (snd (core_step x a))" "pool_step x (owner a) = (fst (core_step x a), owner (snd (core_step x a)))"
    by blast+
qed

lemma newCoreAllocator_ok:
  assumes "newCoreAllocator n = Inr a"
  shows "alloc_ok a" "owner a = (nat (int_val n), \<lambda>_. None)"
proof -
  from assms have "a = \<lparr>ca_totalCores = nat (int_val n), ca_free = [0..<nat (int_val n)], ca_held = []\<rparr>"
    by (auto simp: newCoreAllocator_def throw_if_def split: if_splits)
  then show "alloc_ok a" "owner a = (nat (int_val n), \<lambda>_. None)"
    by (auto simp: alloc_ok_def owned_by_def owner_def)
qed

text \<open>C18: The allocator implements exclusive ownership of cores: from a new allocator, any sequence of
  reservations, holds and releases gives the same answers as the specification in which every core has
  at most one owner, a reservation takes the lowest cores nobody owns, a hold takes exactly the cores
  asked for or none, and a release frees what its key owns; and the owner of every core in the end is
  the one the specification has.\<close>

theorem core_allocator_refines:
  assumes "newCoreAllocator n = Inr a"
  shows "run_ops pool_step ops (nat (int_val n), \<lambda>_. None) =
           (fst (run_ops core_step ops a), owner (snd (run_ops core_step ops a)))"
  using cores.runs_abs [OF newCoreAllocator_ok(1) [OF assms]] by (simp add: newCoreAllocator_ok(2) [OF assms])

text \<open>Four cores, three clients: the second reservation of two cores waits for the first to be released.\<close>

theorem core_allocator_refines_witness:
  "\<exists>a. newCoreAllocator (js_int 4) = Inr a \<and>
     fst (run_ops core_step
       [Reserve ''a'' (js_int 2) None, Hold ''container:b'' [3] (Some ''b''), Reserve ''c'' (js_int 2) None,
        Release ''a'', Reserve ''c'' (js_int 2) None] a) =
     [Granted [0, 1], Granted [3], NoCores, Dropped True, Granted [0, 1]]"
proof -
  have safe: "is_safe_integer (js_int 2)" "is_safe_integer (js_int 4)"
    by (simp_all add: is_safe_integer_def js_int_def)
  then obtain a where a: "newCoreAllocator (js_int 4) = Inr a"
    by (simp add: newCoreAllocator_def throw_if_def js_int_simps)
  let ?ops = "[Reserve ''a'' (js_int 2) None, Hold ''container:b'' [3] (Some ''b''), Reserve ''c'' (js_int 2) None,
        Release ''a'', Reserve ''c'' (js_int 2) None]"
  have "fst (run_ops pool_step ?ops (4, \<lambda>_. None)) = [Granted [0, 1], Granted [3], NoCores, Dropped True, Granted [0, 1]]"
    by code_simp
  then show ?thesis
    using arg_cong [OF core_allocator_refines [OF a, of ?ops], of fst] a by (simp add: js_int_simps del: run_ops.simps)
qed


section \<open>Cores are given back\<close>

text \<open>C20: Cores taken for a piece of work are given back on every way out of it. Either the work never
  ran and the allocator is as it was, with an error for the caller; or it ran with as many cores as it
  asked for, its result or its error is passed on, its key holds nothing any more, and every other
  owner has exactly the cores it had when the work ended.\<close>

theorem withCores_releases:
  assumes ok: "alloc_ok a" and vcpus: "rq_vcpus request = Some v"
    and body: "\<And>r b. alloc_ok b \<Longrightarrow> alloc_ok (snd (body r b))"
    and run: "withCores request body a = (result, a')"
  shows "(\<exists>e. result = Inl e) \<and> a' = a \<or>
         (\<exists>r a1. alloc_ok a1 \<and> cr_key r = rq_key request \<and> int (length (cr_cores r)) = int_val v \<and>
            result = fst (body (Some r) a1) \<and> alloc_ok a' \<and> \<not> has_reservation (rq_key request) a' \<and>
            (\<forall>c k. owned_by a' c k = (owned_by (snd (body (Some r) a1)) c k \<and> k \<noteq> rq_key request)))"
proof (cases "reserve (rq_key request) v (rq_containerName request) a")
  case (Inl e)
  then show ?thesis using run by (auto simp: withCores_def vcpus)
next
  case (Inr y)
  then obtain ro a1 where r: "reserve (rq_key request) v (rq_containerName request) a = Inr (ro, a1)" by (cases y) auto
  show ?thesis
  proof (cases ro)
    case None
    then have "a1 = a" using r
      by (auto simp: reserve_def record_reservation_def throw_if_def Let_def split: if_splits)
    then show ?thesis using run r None by (auto simp: withCores_def vcpus)
  next
    case (Some res)
    from r Some have n: "1 \<le> int_val v" "int_val v \<le> int (freeCores a)" and
        rec: "record_reservation (rq_key request) (take (nat (int_val v)) (sort (ca_free a))) (rq_containerName request) False a = Inr (Some res, a1)"
      by (auto simp: reserve_def throw_if_def split: if_splits)
    then have res: "cr_key res = rq_key request" "int (length (cr_cores res)) = int_val v"
      by (auto simp: record_reservation_def throw_if_def Let_def freeCores_def split: if_splits)
    have ok1: "alloc_ok a1"
      using cores.step_ok [OF ok, of "Reserve (rq_key request) v (rq_containerName request)"] r Some
      by (simp add: granted_outcome_def)
    obtain out a2 where b: "body (Some res) a1 = (out, a2)" by force
    then have ok2: "alloc_ok a2" using body [OF ok1, of "Some res"] by simp
    obtain dropped a3 where rel: "release_cores (rq_key request) a2 = (dropped, a3)" by force
    have eqs: "result = out" "a' = a3" using run r Some b rel by (simp_all add: withCores_def vcpus)
    have "\<not> has_reservation (rq_key request) a3"
      using release_cores_ok(1,4) [OF ok2 rel] by (auto simp flip: owns_some_owner simp: owns_some_def list_ex_iff snd_owner)
    then show ?thesis using release_cores_ok [OF ok2 rel] ok1 res b eqs by (intro disjI2 exI [of _ res] exI [of _ a1]) simp
  qed
qed

theorem withCores_releases_witness:
  "\<exists>a. newCoreAllocator (js_int 2) = Inr a \<and>
     fst (withCores \<lparr>rq_key = ''attempt:1'', rq_vcpus = Some (js_int 2), rq_containerName = None\<rparr>
            (\<lambda>r b. (Inr (map_option cr_spec r, freeCores b), b)) a) = Inr (Some ''0-1'', 0) \<and>
     \<not> has_reservation ''attempt:1''
        (snd (withCores \<lparr>rq_key = ''attempt:1'', rq_vcpus = Some (js_int 2), rq_containerName = None\<rparr>
            (\<lambda>r b. (Inr (map_option cr_spec r, freeCores b) :: (string option \<times> nat) res, b)) a))"
proof -
  let ?q = "\<lparr>rq_key = ''attempt:1'', rq_vcpus = Some (js_int 2), rq_containerName = None\<rparr>"
  let ?body = "\<lambda>r b. (Inr (map_option cr_spec r, freeCores b) :: (string option \<times> nat) res, b)"
  let ?a = "\<lparr>ca_totalCores = 2, ca_free = [0..<2], ca_held = []\<rparr>"
  have safe: "is_safe_integer (js_int 2)" by (simp add: is_safe_integer_def js_int_def)
  then have a: "newCoreAllocator (js_int 2) = Inr ?a"
    by (simp add: newCoreAllocator_def throw_if_def js_int_simps)
  have spec: "formatCpuset [0, Suc 0] = ''0-1''"
    by (simp add: formatCpuset_def ascending_def cpuset_part_def show_nat.simps digit_char_def) code_simp
  have run: "fst (withCores ?q ?body ?a) = Inr (Some ''0-1'', 0)"
    using safe spec
    by (simp add: withCores_def reserve_def throw_if_def js_int_simps freeCores_def record_reservation_def
        has_reservation_def Let_def upt_rec)
  obtain out a1 where w: "withCores ?q ?body ?a = (out, a1)" by force
  have "rq_vcpus ?q = Some (js_int 2)" by simp
  from withCores_releases [OF newCoreAllocator_ok(1) [OF a] this _ w] run w
  have "\<not> has_reservation (rq_key ?q) a1" by auto
  then have "\<not> has_reservation ''attempt:1'' (snd (withCores ?q ?body ?a))" using w by simp
  with a run show ?thesis by blast
qed

section \<open>What a reconciliation leaves behind\<close>

text \<open>
  A key \<open>container:n\<close> is only ever used for the container \<open>n\<close>. The adoption of a container is the only
  code that makes such a key, and it keeps this.
\<close>

definition adopted_ok :: "coreAllocator \<Rightarrow> bool" where
  "adopted_ok a \<longleftrightarrow> (\<forall>n r. (''container:'' @ n, r) \<in> set (ca_held a) \<longrightarrow> cr_containerName r = Some n)"

lemma parseCpuset_nonempty: "parseCpuset s = Some cs \<Longrightarrow> cs \<noteq> []"
proof -
  have "parse_parts ps acc = Some cs \<Longrightarrow> ps \<noteq> [] \<or> acc \<noteq> [] \<Longrightarrow> cs \<noteq> []" for ps acc
  proof (induction ps arbitrary: acc)
    case (Cons p ps)
    then obtain lo hi where r: "cpuset_range p = Some (lo, hi)" "lo \<le> hi" "parse_parts ps (acc @ [lo..<Suc hi]) = Some cs"
      by (auto simp del: upt_Suc split: option.splits if_splits)
    with Cons.IH [OF r(3)] show ?case by simp
  qed auto
  then show "parseCpuset s = Some cs \<Longrightarrow> cs \<noteq> []" by (auto simp: parseCpuset_def Let_def split: if_splits)
qed

lemma set_AList_update: "set (AList.update n cs live) \<subseteq> insert (n, cs) (set live)"
  by (induction live) auto

lemma read_container_ok:
  assumes "distinct (map fst live)" "\<forall>(n, cs) \<in> set live. cs \<noteq> []" "read_container l (live, un) = (live', un')"
  shows "distinct (map fst live')" "\<forall>(n, cs) \<in> set live'. cs \<noteq> []"
proof -
  have "live' = live \<or> (\<exists>n cs. cs \<noteq> [] \<and> live' = AList.update n cs live)"
    using assms(3) by (auto simp: read_container_def Let_def dest: parseCpuset_nonempty split: list.splits if_splits option.splits)
  then show "distinct (map fst live')" "\<forall>(n, cs) \<in> set live'. cs \<noteq> []"
    using assms(1,2) set_AList_update [of _ _ live] by (auto simp: distinct_update)
qed

lemma live_containers_ok:
  assumes "live_containers docker names = (live, un)"
  shows "distinct (map fst live)" "\<forall>(n, cs) \<in> set live. cs \<noteq> []"
proof -
  have "distinct (map fst l') \<and> (\<forall>(n, cs) \<in> set l'. cs \<noteq> [])"
    if "fold read_container ls (l, u) = (l', u')" "distinct (map fst l)" "\<forall>(n, cs) \<in> set l. cs \<noteq> []" for ls l u l' u'
    using that
  proof (induction ls arbitrary: l u)
    case (Cons x ls)
    obtain l1 u1 where r: "read_container x (l, u) = (l1, u1)" by force
    from Cons.IH [of l1 u1] Cons.prems(1) read_container_ok [OF Cons.prems(2,3) r] show ?case by (simp add: r)
  qed auto
  then show "distinct (map fst live)" "\<forall>(n, cs) \<in> set live. cs \<noteq> []"
    using assms by (auto simp: live_containers_def split: if_splits)
qed

text \<open>An adopted reservation is gone when no live container is its own.\<close>

definition gone :: "(string \<times> nat list) list \<Rightarrow> coreReservation \<Rightarrow> bool" where
  "gone live r \<longleftrightarrow> cr_adopted r \<and> (case cr_containerName r of None \<Rightarrow> True | Some n \<Rightarrow> map_of live n = None)"

lemma release_held: "ca_held (snd (release_cores k a)) = filter (\<lambda>(k', _). k' \<noteq> k) (ca_held a)"
proof (cases "map_of (ca_held a) k")
  case None
  then have "filter (\<lambda>(k', _). k' \<noteq> k) (ca_held a) = ca_held a"
    by (force simp: filter_id_conv map_of_eq_None_iff)
  then show ?thesis using None by (simp add: release_cores_def)
qed (simp add: release_cores_def)

lemma release_gone_step:
  assumes "alloc_ok b"
  shows "alloc_ok (snd (release_gone live r (rel, b)))"
    "ca_totalCores (snd (release_gone live r (rel, b))) = ca_totalCores b"
    "ca_held (snd (release_gone live r (rel, b))) = filter (\<lambda>(k, _). gone live r \<longrightarrow> k \<noteq> cr_key r) (ca_held b)"
proof -
  have step: "snd (release_gone live r (rel, b)) = (if gone live r then snd (release_cores (cr_key r) b) else b)"
    by (auto simp: release_gone_def gone_def split: option.splits)
  obtain x c where c: "release_cores (cr_key r) b = (x, c)" by force
  show "alloc_ok (snd (release_gone live r (rel, b)))"
    "ca_totalCores (snd (release_gone live r (rel, b))) = ca_totalCores b"
    using release_cores_ok [OF assms c] assms by (simp_all add: step c)
  show "ca_held (snd (release_gone live r (rel, b))) = filter (\<lambda>(k, _). gone live r \<longrightarrow> k \<noteq> cr_key r) (ca_held b)"
    by (simp add: step release_held)
qed

lemma release_gone_fold:
  assumes "alloc_ok b" "fold (release_gone live) rs (rel, b) = (rel', b')"
  shows "alloc_ok b' \<and> ca_totalCores b' = ca_totalCores b \<and>
         ca_held b' = filter (\<lambda>(k, _). \<forall>r \<in> set rs. gone live r \<longrightarrow> k \<noteq> cr_key r) (ca_held b)"
  using assms
proof (induction rs arbitrary: rel b)
  case (Cons r rs)
  obtain rel1 b1 where b1: "release_gone live r (rel, b) = (rel1, b1)" by force
  from release_gone_step [OF Cons.prems(1), of live r rel] Cons.IH [of b1 rel1] Cons.prems(2) show ?case
    by (auto simp: b1 intro!: filter_cong)
qed (simp add: split_def)

lemma release_gone_all:
  assumes "alloc_ok a" "fold (release_gone live) (reservations a) ([], a) = (rel, b)"
  shows "alloc_ok b" "ca_totalCores b = ca_totalCores a"
    "ca_held b = filter (\<lambda>(k, r). \<not> gone live r) (ca_held a)"
proof -
  from release_gone_fold [OF assms] have b: "alloc_ok b" "ca_totalCores b = ca_totalCores a"
      "ca_held b = filter (\<lambda>(k, _). \<forall>r \<in> set (reservations a). gone live r \<longrightarrow> k \<noteq> cr_key r) (ca_held a)" by blast+
  have key: "cr_key r = k" if "(k, r) \<in> set (ca_held a)" for k r
    using alloc_okD(3) [OF assms(1)] that by (auto simp: list_all_iff reservation_ok_def)
  have same: "r = r'" if "(k, r) \<in> set (ca_held a)" "(k, r') \<in> set (ca_held a)" for k r r'
    using that alloc_okD(2) [OF assms(1)] by (metis map_of_eq_Some_iff option.inject)
  have "(\<forall>r' \<in> set (reservations a). gone live r' \<longrightarrow> k \<noteq> cr_key r') \<longleftrightarrow> \<not> gone live r"
    if kr: "(k, r) \<in> set (ca_held a)" for k r
  proof -
    have "r' = r" if r': "r' \<in> set (reservations a)" "k = cr_key r'" for r'
    proof -
      obtain k' where k': "(k', r') \<in> set (ca_held a)" using r'(1) by (auto simp: reservations_def)
      then have "k' = k" using key [OF k'] r'(2) by simp
      then show ?thesis using same [OF kr] k' by simp
    qed
    moreover have "r \<in> set (reservations a)" using imageI [OF kr, of snd] by (simp add: reservations_def)
    ultimately show ?thesis using key [OF kr] by blast
  qed
  then have "ca_held b = filter (\<lambda>(k, r). \<not> gone live r) (ca_held a)" unfolding b(3) by (intro filter_cong) auto
  with b(1,2) show "alloc_ok b" "ca_totalCores b = ca_totalCores a" "ca_held b = filter (\<lambda>(k, r). \<not> gone live r) (ca_held a)"
    by blast+
qed

lemma hold_cases:
  assumes ok: "alloc_ok b" and new: "\<not> has_reservation k b" and cs: "cs \<noteq> []"
  obtains (contested) c where "c \<in> set cs" "c \<ge> ca_totalCores b \<or> (\<exists>k'. owned_by b c k')" "hold k cs cn b = Inr (None, b)"
  | (held) r b1 where "hold k cs cn b = Inr (Some r, b1)" "alloc_ok b1" "ca_totalCores b1 = ca_totalCores b"
      "ca_held b1 = ca_held b @ [(k, r)]" "cr_containerName r = cn" "cr_adopted r" "cr_cores r = cs"
proof (cases "list_ex (\<lambda>c. c \<notin> set (ca_free b)) cs")
  case True
  then obtain c where c: "c \<in> set cs" "c \<notin> set (ca_free b)" by (auto simp: list_ex_iff)
  then have "c \<ge> ca_totalCores b \<or> (\<exists>k'. owned_by b c k')" using alloc_okD(4) [OF ok, of c] by auto
  then show ?thesis using c True cs by (intro contested) (auto simp: hold_def)
next
  case False
  then have sub: "set cs \<subseteq> set (ca_free b)" by (auto simp: list_ex_iff)
  obtain r b1 where r: "record_reservation k cs cn True b = Inr (Some r, b1)" "ca_totalCores b1 = ca_totalCores b"
      "ca_held b1 = ca_held b @ [(k, r)]" "cr_containerName r = cn" "cr_adopted r" "cr_cores r = cs"
    using new by (simp add: record_reservation_def throw_if_def Let_def)
  then show ?thesis using record_reservation_ok(1) [OF ok cs sub new r(1)] False cs by (intro held) (auto simp: hold_def)
qed

definition accounted_for :: "coreAllocator \<Rightarrow> string \<times> nat list \<Rightarrow> bool" where
  "accounted_for a = (\<lambda>(n, cs). (\<exists>k r. (k, r) \<in> set (ca_held a) \<and> cr_containerName r = Some n) \<or>
     (\<exists>c \<in> set cs. c \<ge> ca_totalCores a \<or> (\<exists>k. owned_by a c k)))"

lemma accounted_for_mono:
  assumes "accounted_for b x" "set (ca_held b) \<subseteq> set (ca_held b')" "ca_totalCores b' = ca_totalCores b"
  shows "accounted_for b' x"
  using assms by (cases x) (auto simp: accounted_for_def owned_by_def; blast)

text \<open>\<open>adopts b live b'\<close>: from \<open>b\<close> to \<open>b'\<close> only reservations for live containers were added, and each of
  \<open>live\<close> is accounted for.\<close>

definition adopts :: "coreAllocator \<Rightarrow> (string \<times> nat list) list \<Rightarrow> coreAllocator \<Rightarrow> bool" where
  "adopts b live b' \<longleftrightarrow>
     alloc_ok b' \<and> adopted_ok b' \<and> ca_totalCores b' = ca_totalCores b \<and> set (ca_held b) \<subseteq> set (ca_held b') \<and>
     (\<forall>k r. (k, r) \<in> set (ca_held b') \<longrightarrow> (k, r) \<in> set (ca_held b) \<or> (\<exists>n \<in> fst ` set live. cr_containerName r = Some n)) \<and>
     list_all (accounted_for b') live"

lemma adopts_Cons:
  assumes "adopts b1 live b'" "set (ca_held b) \<subseteq> set (ca_held b1)" "ca_totalCores b1 = ca_totalCores b"
    and "accounted_for b1 (n, cs)"
    and "\<And>k r. (k, r) \<in> set (ca_held b1) \<Longrightarrow> (k, r) \<in> set (ca_held b) \<or> cr_containerName r = Some n"
  shows "adopts b ((n, cs) # live) b'"
proof -
  from assms(1) have ok: "alloc_ok b'" "adopted_ok b'" and total: "ca_totalCores b' = ca_totalCores b1"
    and sub: "set (ca_held b1) \<subseteq> set (ca_held b')" and acc: "list_all (accounted_for b') live"
    and rows: "\<And>k r. (k, r) \<in> set (ca_held b') \<Longrightarrow> (k, r) \<in> set (ca_held b1) \<or> (\<exists>n \<in> fst ` set live. cr_containerName r = Some n)"
    by (simp_all add: adopts_def)
  have "accounted_for b' (n, cs)" using assms(4) sub total by (rule accounted_for_mono)
  moreover have "(k, r) \<in> set (ca_held b) \<or> (\<exists>n' \<in> fst ` set ((n, cs) # live). cr_containerName r = Some n')"
    if "(k, r) \<in> set (ca_held b')" for k r
    using rows [OF that] assms(5) [of k r] by auto
  ultimately show ?thesis
    unfolding adopts_def using ok total acc subset_trans [OF assms(2) sub] assms(3) by auto
qed

lemma adopt_live_ok:
  assumes "alloc_ok b" "adopted_ok b" "distinct (map fst live)" "\<forall>(n, cs) \<in> set live. cs \<noteq> []"
    and "\<forall>n k r. n \<in> fst ` set live \<longrightarrow> n \<notin> set acc \<longrightarrow> (k, r) \<in> set (ca_held b) \<longrightarrow> cr_containerName r \<noteq> Some n"
    and "\<forall>n \<in> set acc. \<exists>k r. (k, r) \<in> set (ca_held b) \<and> cr_containerName r = Some n"
  shows "\<exists>ad' b'. adopt_live acc live ad b = (Inr ad', b') \<and> adopts b live b'"
  using assms
proof (induction live arbitrary: ad b)
  case Nil
  then show ?case by (simp add: adopts_def)
next
  case (Cons x live)
  obtain n cs where x: "x = (n, cs)" by force
  have rest: "distinct (map fst live)" "\<forall>(n, cs) \<in> set live. cs \<noteq> []" "n \<notin> fst ` set live" and cs: "cs \<noteq> []"
    using Cons.prems(3,4) by (auto simp: x)
  have free: "\<forall>m k r. m \<in> fst ` set live \<longrightarrow> m \<notin> set acc \<longrightarrow> (k, r) \<in> set (ca_held b) \<longrightarrow> cr_containerName r \<noteq> Some m"
    using Cons.prems(5) by simp
  have skip: "\<exists>ad' b'. adopt_live acc live ad b = (Inr ad', b') \<and> adopts b ((n, cs) # live) b'" if "accounted_for b (n, cs)"
  proof -
    obtain ad' b' where b': "adopt_live acc live ad b = (Inr ad', b')" "adopts b live b'"
      using Cons.IH [OF Cons.prems(1,2) rest(1,2) free Cons.prems(6)] by blast
    with adopts_Cons [OF b'(2) subset_refl refl that] show ?thesis by blast
  qed
  show ?case
  proof (cases "n \<in> set acc")
    case True
    have "accounted_for b (n, cs)" using bspec [OF Cons.prems(6) True] by (auto simp: accounted_for_def)
    then show ?thesis using skip True by (simp add: x)
  next
    case False
    have new: "\<not> has_reservation (''container:'' @ n) b"
    proof
      assume "has_reservation (''container:'' @ n) b"
      then obtain r where r: "(''container:'' @ n, r) \<in> set (ca_held b)" unfolding has_reservation_iff by blast
      have "n \<in> fst ` set (x # live)" by (simp add: x)
      then show False using Cons.prems(2,5) False r unfolding adopted_ok_def by blast
    qed
    from Cons.prems(1) new cs show ?thesis
    proof (cases rule: hold_cases [where cn = "Some n"])
      case (contested c)
      have "accounted_for b (n, cs)" using contested(1,2) by (auto simp: accounted_for_def)
      then show ?thesis using skip False contested(3) by (simp add: x)
    next
      case (held r b1)
      have ok1: "adopted_ok b1" using Cons.prems(2) held(4,5) by (auto simp: adopted_ok_def)
      have free1: "\<forall>m k r. m \<in> fst ` set live \<longrightarrow> m \<notin> set acc \<longrightarrow> (k, r) \<in> set (ca_held b1) \<longrightarrow> cr_containerName r \<noteq> Some m"
        using free held(5) rest(3) unfolding held(4) by (metis append_Nil2 in_set_conv_decomp_last option.inject prod.inject set_ConsD rotate1.simps(2) set_rotate1)
      have acc: "\<forall>m \<in> set acc. \<exists>k r. (k, r) \<in> set (ca_held b1) \<and> cr_containerName r = Some m"
        using Cons.prems(6) unfolding held(4) by (metis UnCI set_append)
      obtain ad' b' where b': "adopt_live acc live (ad @ [n]) b1 = (Inr ad', b')" "adopts b1 live b'"
        using Cons.IH [OF held(2) ok1 rest(1,2) free1 acc] by blast
      have "accounted_for b1 (n, cs)" using held(4,5) by (auto simp: accounted_for_def)
      then have "adopts b ((n, cs) # live) b'"
        using b'(2) held(3,4,5) by (intro adopts_Cons [of b1]) auto
      then show ?thesis using False held(1) b'(1) by (auto simp: x)
    qed
  qed
qed


definition sample_docker :: "string list \<Rightarrow> int \<times> string" where
  "sample_docker args =
     (if hd args = ''ps'' then (0, ''job-b'' @ [CHR 0x0A] @ ''job-c'')
      else (0, ''/job-b'' @ [CHR 0x09] @ ''2-3'' @ [CHR 0x0A] @ ''/job-c'' @ [CHR 0x09] @ [CHR 0x0A]))"


end
