(* ===== verification/ControllerLease.thy ===== *)
theory ControllerLease
  imports Invariants
begin

text \<open>
  The controller lease (\<open>packages/backend/convex/controllerLease.ts\<close>): which controller may serve a
  Profile, and the check every controller route makes before it reads or writes the Profile's state.
  The locale \<open>fenced_lease\<close> is the contract of a lease with a fencing epoch; the model's operations,
  interleaved with any mutation that leaves the lease table alone and with time going on, keep it.
\<close>

section \<open>Constants and callers\<close>

definition LEASE_RENEW_INTERVAL_MS :: int where
  "LEASE_RENEW_INTERVAL_MS = 10000"

definition LEASE_TTL_MS :: int where
  "LEASE_TTL_MS = 30000"

definition POOR_NETWORK_SCORE_BELOW :: int where
  "POOR_NETWORK_SCORE_BELOW = 40"

definition POOR_NETWORK_HEAD_START_MS :: int where
  "POOR_NETWORK_HEAD_START_MS = 15000"

definition LEASE_MIN_RETRY_MS :: int where
  "LEASE_MIN_RETRY_MS = 1000"

text \<open>Who is calling: a token with its slot, or a Worker with its token; and the epoch it carries.\<close>

datatype controller_caller =
    TokenCaller token_slot "int option"
  | MachineCaller string "int option"

fun caller_epoch :: "controller_caller \<Rightarrow> int option" where
  "caller_epoch (TokenCaller slot epoch) = epoch"
| "caller_epoch (MachineCaller token epoch) = epoch"

datatype identity = TokenIdentity | MachineIdentity nat

text \<open>The refusal code of an error a lease check threw.\<close>

fun refusalOf :: "js_error \<Rightarrow> refusal option" where
  "refusalOf (Refused code message) = Some code"
| "refusalOf _ = None"

section \<open>Lookups\<close>

definition leaseFor :: "string \<Rightarrow> db \<Rightarrow> (nat \<times> controller_lease) option res" where
  "leaseFor profile d = db_unique (db_query (\<lambda>l. cl_profile l = profile) (d_controllerLeases d))"

definition machineFor :: "string \<Rightarrow> db \<Rightarrow> (nat \<times> machine) option res" where
  "machineFor token d =
     (if token = [] then Inr None else db_unique (db_query (\<lambda>m. mc_token m = token) (d_machines d)))"

definition profileFor :: "string \<Rightarrow> db \<Rightarrow> (nat \<times> profile) option res" where
  "profileFor name d = db_unique (db_query (\<lambda>p. pf_name p = name) (d_profiles d))"

definition readinessFor :: "nat \<Rightarrow> string \<Rightarrow> db \<Rightarrow> (nat \<times> worker_readiness) option res" where
  "readinessFor machineId profile d =
     db_unique (db_query (\<lambda>r. rr_machineId r = machineId \<and> rr_profile r = profile) (d_workerReadiness d))"

fun holderMatches :: "lease_holder \<Rightarrow> identity \<Rightarrow> bool" where
  "holderMatches holder TokenIdentity \<longleftrightarrow> lh_credential holder = ControllerToken"
| "holderMatches holder (MachineIdentity m) \<longleftrightarrow>
     lh_credential holder = MachineCredential \<and> lh_machineId holder = Some m"

section \<open>The check\<close>

fun authorizeController :: "int \<Rightarrow> string \<Rightarrow> controller_caller \<Rightarrow> db \<Rightarrow> identity res" where
  "authorizeController now profile (MachineCaller token epoch) d =
     res_bind (machineFor token d) (\<lambda>machine.
       case machine of
         None \<Rightarrow> Inl (Refused Unauthorized ''Unknown machine token'')
       | Some (m, _) \<Rightarrow>
           res_bind (leaseFor profile d) (\<lambda>lease.
             if (case lease of
                   None \<Rightarrow> False
                 | Some (_, l) \<Rightarrow>
                     (case cl_holder l of
                        None \<Rightarrow> False
                      | Some holder \<Rightarrow> holderMatches holder (MachineIdentity m) \<and>
                          epoch = Some (cl_epoch l) \<and> cl_expiresAt l > now))
             then Inr (MachineIdentity m)
             else Inl (Refused Lease ''This Worker does not hold the Profile's controller lease'')))"
| "authorizeController now profile (TokenCaller slot epoch) d =
     (if epoch = None
      then Inl (Refused Lease ''Controllers must hold the Profile's lease and send its epoch'')
      else res_bind (leaseFor profile d) (\<lambda>lease.
             if (case lease of
                   None \<Rightarrow> False
                 | Some (_, l) \<Rightarrow>
                     (case cl_holder l of
                        None \<Rightarrow> False
                      | Some holder \<Rightarrow> lh_credential holder = ControllerToken \<and>
                          epoch = Some (cl_epoch l) \<and> cl_expiresAt l > now))
             then Inr TokenIdentity
             else Inl (Refused Lease ''The lease epoch is stale: another controller holds this Profile'')))"

fun requireControllerToken :: "controller_caller \<Rightarrow> unit res" where
  "requireControllerToken (MachineCaller token epoch) =
     Inl (Refused Forbidden ''A Worker's controller cannot change a Profile; use the controller token'')"
| "requireControllerToken (TokenCaller slot epoch) = Inr ()"

definition networkIsPoor :: "machine \<Rightarrow> int \<Rightarrow> bool" where
  "networkIsPoor machine now =
     (let network = benchmarkScore (map_option summary_of (mc_benchmark machine)) FitNetwork now
      in snd network = Fresh \<and> fst network < POOR_NETWORK_SCORE_BELOW)"

section \<open>Acquire\<close>

record profile_settings =
  ps_name :: string
  ps_scaleSetName :: string
  ps_executor :: executor
  ps_imageRelease :: string
  ps_vcpus :: int
  ps_memoryMiB :: int
  ps_warmPool :: int
  ps_fitPolicy :: fit_policy
  ps_minRunners :: int
  ps_maxRunners :: int
  ps_githubConfigUrl :: string
  ps_githubCacheFacts :: "bool option"
  ps_egress :: "profile_egress option"
  ps_runnerGroup :: "string option"
  ps_labels :: "string list option"
  ps_workerLabels :: "string list option"

definition profileSettings :: "profile \<Rightarrow> profile_settings option" where
  "profileSettings p =
     map_option (\<lambda>url.
       \<lparr>ps_name = pf_name p, ps_scaleSetName = pf_scaleSetName p, ps_executor = pf_executor p,
        ps_imageRelease = pf_imageRelease p, ps_vcpus = pf_vcpus p, ps_memoryMiB = pf_memoryMiB p,
        ps_warmPool = or_else (pf_warmPool p) 0, ps_fitPolicy = or_else (pf_fitPolicy p) Balanced,
        ps_minRunners = pf_minRunners p, ps_maxRunners = pf_maxRunners p, ps_githubConfigUrl = url,
        ps_githubCacheFacts = pf_githubCacheFacts p, ps_egress = pf_egress p,
        ps_runnerGroup = pf_runnerGroup p, ps_labels = pf_labels p,
        ps_workerLabels = pf_workerLabels p\<rparr>) (pf_githubConfigUrl p)"

datatype acquire_reason =
  Held | HeadStart | ProfileUnknown | ProfilePaused | ProfileIncomplete | NotReady | Incapable

text \<open>A grant: epoch, ttl, renew interval, poor network, settings. A refusal: reason, holder, retry, poor network.\<close>

datatype acquire_result =
    Granted int int int bool "profile_settings option"
  | NotGranted acquire_reason "string option" int bool

text \<open>Who asks, and whether it may ask at all: a refusal, or the identity and the quality of its network.\<close>

fun acquire_candidate ::
  "int \<Rightarrow> string \<Rightarrow> bool option \<Rightarrow> bool option \<Rightarrow> controller_caller \<Rightarrow> profile option \<Rightarrow> db \<Rightarrow>
   (acquire_result + identity \<times> bool) res" where
  "acquire_candidate now name activate canPublishCacheFacts (MachineCaller token epoch) profile d =
     res_bind (machineFor token d) (\<lambda>machine.
       case machine of
         None \<Rightarrow> Inl (Refused Unauthorized ''Unknown machine token'')
       | Some (m, row) \<Rightarrow>
           let networkPoor = networkIsPoor row now;
               refusal = (\<lambda>reason. Inr (Inl (NotGranted reason None LEASE_TTL_MS networkPoor)))
           in case profile of
                None \<Rightarrow> refusal ProfileUnknown
              | Some p \<Rightarrow>
                  if pf_state p \<noteq> Active then refusal ProfilePaused
                  else if pf_githubConfigUrl p = None then refusal ProfileIncomplete
                  else res_bind (readinessFor m name d) (\<lambda>readiness.
                    if (case readiness of
                          None \<Rightarrow> True
                        | Some (_, r) \<Rightarrow>
                            wr_state r \<noteq> Ready \<or>
                            now - mc_lastSeen row \<ge> WORKER_OFFLINE_AFTER_MS \<or>
                            rr_executor r \<noteq> pf_executor p \<or>
                            rr_imageRelease r \<noteq> pf_imageRelease p \<or>
                            rr_vcpus r \<noteq> Some (pf_vcpus p) \<or>
                            rr_memoryMiB r \<noteq> Some (pf_memoryMiB p))
                    then refusal NotReady
                    else if pf_githubCacheFacts p = Some True \<and> canPublishCacheFacts \<noteq> Some True
                    then refusal Incapable
                    else Inr (Inr (MachineIdentity m, networkPoor))))"
| "acquire_candidate now name activate canPublishCacheFacts (TokenCaller slot epoch) profile d =
     (if map_option pf_state profile = Some Paused \<and> activate \<noteq> Some True
      then Inr (Inl (NotGranted ProfilePaused None LEASE_TTL_MS False))
      else Inr (Inr (TokenIdentity, False)))"

definition insert_lease :: "controller_lease \<Rightarrow> db \<Rightarrow> db" where
  "insert_lease l d = d\<lparr>d_controllerLeases := db_insert (d_controllerLeases d) (d_nextId d) l,
                         d_nextId := Suc (d_nextId d)\<rparr>"

definition patch_lease :: "nat \<Rightarrow> (controller_lease \<Rightarrow> controller_lease) \<Rightarrow> db \<Rightarrow> db" where
  "patch_lease i f d = d\<lparr>d_controllerLeases := db_patch (d_controllerLeases d) i f\<rparr>"

fun identity_holder :: "identity \<Rightarrow> string \<Rightarrow> string \<Rightarrow> lease_holder" where
  "identity_holder TokenIdentity hostname inst =
     \<lparr>lh_credential = ControllerToken, lh_machineId = None, lh_hostname = hostname, lh_instance = inst\<rparr>"
| "identity_holder (MachineIdentity m) hostname inst =
     \<lparr>lh_credential = MachineCredential, lh_machineId = Some m, lh_hostname = hostname, lh_instance = inst\<rparr>"

definition lease_unexpired :: "(nat \<times> controller_lease) option \<Rightarrow> int \<Rightarrow> lease_holder option" where
  "lease_unexpired lease now =
     (case lease of None \<Rightarrow> None | Some (_, l) \<Rightarrow> if cl_expiresAt l > now then cl_holder l else None)"

definition grant_lease ::
  "int \<Rightarrow> string \<Rightarrow> string \<Rightarrow> string \<Rightarrow> identity \<Rightarrow> bool \<Rightarrow> (nat \<times> controller_lease) option \<Rightarrow> db \<Rightarrow> int \<times> db" where
  "grant_lease now profile hostname inst identity ownLease current d =
     (let epoch = (case current of
                     None \<Rightarrow> 1
                   | Some (_, l) \<Rightarrow> if ownLease then cl_epoch l else cl_epoch l + 1);
          acquiredAt = (case current of
                          None \<Rightarrow> now
                        | Some (_, l) \<Rightarrow> if ownLease then or_else (cl_acquiredAt l) now else now);
          holder = identity_holder identity hostname inst
      in (epoch,
          case current of
            None \<Rightarrow> insert_lease
              \<lparr>cl_profile = profile, cl_epoch = epoch, cl_holder = Some holder,
               cl_acquiredAt = Some acquiredAt, cl_renewedAt = Some now,
               cl_expiresAt = now + LEASE_TTL_MS\<rparr> d
          | Some (k, _) \<Rightarrow> patch_lease k (\<lambda>l. l
              \<lparr>cl_epoch := epoch, cl_holder := Some holder, cl_acquiredAt := Some acquiredAt,
               cl_renewedAt := Some now, cl_expiresAt := now + LEASE_TTL_MS\<rparr>) d))"

definition acquire_lease ::
  "int \<Rightarrow> string \<Rightarrow> string \<Rightarrow> string \<Rightarrow> identity \<Rightarrow> bool \<Rightarrow> profile option \<Rightarrow> db \<Rightarrow> (acquire_result \<times> db) res" where
  "acquire_lease now name hostname inst identity networkPoor profile d =
     res_bind (leaseFor name d) (\<lambda>lease.
       let live = lease_unexpired lease now;
           ownLease = (case live of
                         None \<Rightarrow> False
                       | Some h \<Rightarrow> lh_instance h = inst \<and> holderMatches h identity);
           freeSince = (case lease of None \<Rightarrow> now | Some (_, l) \<Rightarrow> min (cl_expiresAt l) now);
           d1 = (if \<not> ownLease \<and> networkPoor \<and> lease = None
                 then insert_lease \<lparr>cl_profile = name, cl_epoch = 0, cl_holder = None, cl_acquiredAt = None,
                                    cl_renewedAt = None, cl_expiresAt = now\<rparr> d
                 else d)
       in if \<not> ownLease \<and> live \<noteq> None
          then Inr (NotGranted Held (map_option lh_hostname live)
                      (max LEASE_MIN_RETRY_MS
                           ((case lease of None \<Rightarrow> 0 | Some (_, l) \<Rightarrow> cl_expiresAt l) - now +
                            (if networkPoor then POOR_NETWORK_HEAD_START_MS else 0))) networkPoor, d)
          else if \<not> ownLease \<and> networkPoor \<and> now - freeSince < POOR_NETWORK_HEAD_START_MS
          then Inr (NotGranted HeadStart None
                      (max LEASE_MIN_RETRY_MS (freeSince + POOR_NETWORK_HEAD_START_MS - now)) networkPoor, d1)
          else res_bind (case lease of Some l \<Rightarrow> Inr (Some l) | None \<Rightarrow> leaseFor name d1) (\<lambda>current.
            let (epoch, d2) = grant_lease now name hostname inst identity ownLease current d1
            in Inr (Granted epoch LEASE_TTL_MS LEASE_RENEW_INTERVAL_MS networkPoor
                      (Option.bind profile profileSettings), d2)))"

definition acquire ::
  "int \<Rightarrow> string \<Rightarrow> string \<Rightarrow> string \<Rightarrow> bool option \<Rightarrow> bool option \<Rightarrow> controller_caller \<Rightarrow> db \<Rightarrow>
   (acquire_result \<times> db) res" where
  "acquire now name hostname inst activate canPublishCacheFacts caller d =
     res_bind (profileFor name d) (\<lambda>profile.
       res_bind (acquire_candidate now name activate canPublishCacheFacts caller (map_option snd profile) d)
         (\<lambda>candidate.
           case candidate of
             Inl refusal \<Rightarrow> Inr (refusal, d)
           | Inr (identity, networkPoor) \<Rightarrow>
               acquire_lease now name hostname inst identity networkPoor (map_option snd profile) d))"

section \<open>Renew and release\<close>

fun caller_identity :: "controller_caller \<Rightarrow> db \<Rightarrow> identity option res" where
  "caller_identity (MachineCaller token epoch) d =
     res_bind (machineFor token d) (\<lambda>machine. Inr (map_option (\<lambda>(m, _). MachineIdentity m) machine))"
| "caller_identity (TokenCaller slot epoch) d = Inr (Some TokenIdentity)"

definition renew :: "int \<Rightarrow> string \<Rightarrow> string \<Rightarrow> controller_caller \<Rightarrow> db \<Rightarrow> ((int \<times> int \<times> int) \<times> db) res" where
  "renew now profile inst caller d =
     res_bind (caller_identity caller d) (\<lambda>who.
       case who of
         None \<Rightarrow> Inl (Refused Unauthorized ''Unknown machine token'')
       | Some identity \<Rightarrow>
           res_bind (leaseFor profile d) (\<lambda>lease.
             case lease of
               None \<Rightarrow> Inl (Refused Lease ''The lease is held by another controller'')
             | Some (k, l) \<Rightarrow>
                 if (case cl_holder l of
                       None \<Rightarrow> True
                     | Some holder \<Rightarrow> lh_instance holder \<noteq> inst \<or> cl_expiresAt l \<le> now \<or>
                         \<not> holderMatches holder identity \<or> Some (cl_epoch l) \<noteq> caller_epoch caller)
                 then Inl (Refused Lease ''The lease is held by another controller'')
                 else Inr ((cl_epoch l, LEASE_TTL_MS, LEASE_RENEW_INTERVAL_MS),
                           patch_lease k (\<lambda>l. l\<lparr>cl_renewedAt := Some now,
                                                 cl_expiresAt := now + LEASE_TTL_MS\<rparr>) d)))"

definition release :: "int \<Rightarrow> string \<Rightarrow> string \<Rightarrow> controller_caller \<Rightarrow> db \<Rightarrow> db res" where
  "release now profile inst caller d =
     res_bind (leaseFor profile d) (\<lambda>lease.
       case lease of
         None \<Rightarrow> Inr d
       | Some (k, l) \<Rightarrow>
           (case cl_holder l of
              None \<Rightarrow> Inr d
            | Some holder \<Rightarrow>
                if lh_instance holder \<noteq> inst \<or> Some (cl_epoch l) \<noteq> caller_epoch caller then Inr d
                else res_bind (caller_identity caller d) (\<lambda>who.
                  case who of
                    None \<Rightarrow> Inr d
                  | Some identity \<Rightarrow>
                      if \<not> holderMatches holder identity then Inr d
                      else Inr (patch_lease k (\<lambda>r. r
                             \<lparr>cl_epoch := cl_epoch l + 1, cl_holder := None, cl_acquiredAt := None,
                              cl_renewedAt := None, cl_expiresAt := min (cl_expiresAt l) now\<rparr>) d))))"

definition githubTokenTarget ::
  "int \<Rightarrow> string \<Rightarrow> controller_caller \<Rightarrow> db \<Rightarrow> (string \<times> bool) option res" where
  "githubTokenTarget now name caller d =
     res_bind (authorizeController now name caller d) (\<lambda>_.
       res_bind (profileFor name d) (\<lambda>profile.
         Inr (Option.bind profile (\<lambda>(_, p).
           map_option (\<lambda>url. (url, pf_githubCacheFacts p = Some True)) (pf_githubConfigUrl p)))))"

fun authorizeStandbyReport :: "string \<Rightarrow> controller_caller \<Rightarrow> db \<Rightarrow> unit res" where
  "authorizeStandbyReport profile (TokenCaller slot epoch) d = Inr ()"
| "authorizeStandbyReport profile (MachineCaller token epoch) d =
     res_bind (machineFor token d) (\<lambda>machine.
       case machine of
         None \<Rightarrow> Inl (Refused Unauthorized ''Unknown machine token'')
       | Some (m, _) \<Rightarrow>
           res_bind (readinessFor m profile d) (\<lambda>readiness.
             throw_if (readiness = None)
               (Refused Forbidden ''This Worker does not serve the Profile'') (Inr ())))"

section \<open>The contract of a fenced lease\<close>

text \<open>
  The epoch never falls, and while it stays the same the lease has no new owner. So an epoch names
  one owner for ever, and an owner that lost the lease never regains it under the epoch it had.
\<close>

locale fenced_lease =
  fixes epoch :: "'s \<Rightarrow> int"
    and owner :: "'s \<Rightarrow> 'h option"
    and inv :: "'s \<Rightarrow> bool"
    and step :: "'s \<Rightarrow> 's \<Rightarrow> bool"
  assumes inv_step: "inv s \<Longrightarrow> step s t \<Longrightarrow> inv t"
    and epoch_step: "inv s \<Longrightarrow> step s t \<Longrightarrow> epoch s \<le> epoch t"
    and owner_step: "inv s \<Longrightarrow> step s t \<Longrightarrow> epoch t = epoch s \<Longrightarrow> owner t = Some h \<Longrightarrow> owner s = Some h"
begin

lemma epoch_steps: "step\<^sup>*\<^sup>* s t \<Longrightarrow> inv s \<Longrightarrow> inv t \<and> epoch s \<le> epoch t"
proof (induction rule: rtranclp_induct)
  case (step t u)
  then show ?case using inv_step [of t u] epoch_step [of t u] by auto
qed simp

lemma owner_steps:
  "step\<^sup>*\<^sup>* s t \<Longrightarrow> inv s \<Longrightarrow> epoch t = epoch s \<Longrightarrow> owner t = Some h \<Longrightarrow> owner s = Some h"
proof (induction rule: rtranclp_induct)
  case (step t u)
  have "inv t" "epoch s \<le> epoch t" using epoch_steps step.hyps(1) step.prems(1) by auto
  moreover have "epoch t \<le> epoch u" using epoch_step calculation(1) step.hyps(2) by auto
  ultimately have "epoch u = epoch t" using step.prems(2) by auto
  then have "owner t = Some h" using owner_step [OF \<open>inv t\<close> step.hyps(2)] step.prems(3) by auto
  then show ?case using step.IH step.prems \<open>epoch u = epoch t\<close> by simp
qed simp

lemma lost_for_good:
  assumes "inv s" "step\<^sup>*\<^sup>* s t" "step\<^sup>*\<^sup>* t u" "epoch t \<noteq> epoch s \<or> owner t \<noteq> Some h"
  shows "\<not> (epoch u = epoch s \<and> owner u = Some h)"
proof
  assume u: "epoch u = epoch s \<and> owner u = Some h"
  have t: "inv t" "epoch s \<le> epoch t" using epoch_steps assms(1,2) by auto
  then have "epoch t \<le> epoch u" using epoch_steps [OF assms(3)] by auto
  then have "epoch t = epoch s" using t u by auto
  moreover from this have "owner t = Some h" using owner_steps [OF assms(3) t(1)] u by auto
  ultimately show False using assms(4) by blast
qed

end

section \<open>The lease table\<close>

definition leases_ok :: "db \<Rightarrow> bool" where
  "leases_ok d \<longleftrightarrow> db_wf (d_controllerLeases d) \<and> list_all (\<lambda>i. i < d_nextId d) (db_ids (d_controllerLeases d))"

lemma db_query_patch:
  assumes "\<And>r. P (f r) = P r"
  shows "db_query P (db_patch t i f) = db_patch (db_query P t) i f"
  by (induction t) (auto simp: db_query_def db_patch_def assms split: if_splits)

lemma db_unique_patch:
  "db_unique (db_patch t i f) =
     res_bind (db_unique t) (\<lambda>r. Inr (map_option (\<lambda>(k, r). (k, if k = i then f r else r)) r))"
  by (auto simp: db_unique_def db_patch_def split: list.splits)

lemma leaseFor_patch:
  assumes "\<And>l. cl_profile (f l) = cl_profile l"
  shows "leaseFor p (patch_lease k f d) =
    res_bind (leaseFor p d) (\<lambda>r. Inr (map_option (\<lambda>(i, l). (i, if i = k then f l else l)) r))"
  by (simp add: leaseFor_def patch_lease_def db_query_patch assms db_unique_patch)

lemma leaseFor_insert:
  "leaseFor p d = Inr None \<Longrightarrow> cl_profile l = p \<Longrightarrow> leaseFor p (insert_lease l d) = Inr (Some (d_nextId d, l))"
  "cl_profile l \<noteq> p \<Longrightarrow> leaseFor p (insert_lease l d) = leaseFor p d"
  by (simp_all add: leaseFor_def insert_lease_def db_insert_def db_query_def db_unique_None)
     (simp add: db_unique_def)

lemma leaseFor_Some:
  "leaseFor p d = Inr (Some (k, l)) \<Longrightarrow> (k, l) \<in> set (d_controllerLeases d) \<and> cl_profile l = p"
  by (auto simp: leaseFor_def db_unique_Some db_query_def filter_eq_Cons_iff)

lemma leaseFor_same_id:
  assumes "leases_ok d" "leaseFor p d = Inr (Some (k, l))" "leaseFor q d = Inr (Some (k, m))"
  shows "p = q"
  using leaseFor_Some [OF assms(2)] leaseFor_Some [OF assms(3)] assms(1)
  by (auto simp: leases_ok_def db_wf_def dest: eq_key_imp_eq_value)

text \<open>What a lease operation may write: nothing, a first row, or a patch of the Profile's row.\<close>

definition holder_process :: "lease_holder \<Rightarrow> lease_credential \<times> nat option \<times> string" where
  "holder_process h =
     (lh_credential h, if lh_credential h = ControllerToken then None else lh_machineId h, lh_instance h)"

definition lease_write :: "int \<Rightarrow> string \<Rightarrow> db \<Rightarrow> db \<Rightarrow> bool" where
  "lease_write now q d d' \<longleftrightarrow> d' = d \<or>
     (leaseFor q d = Inr None \<and> (\<exists>l. d' = insert_lease l d \<and> cl_profile l = q \<and>
        (cl_epoch l = 0 \<and> cl_holder l = None \<or> cl_epoch l = 1))) \<or>
     (\<exists>k l f. leaseFor q d = Inr (Some (k, l)) \<and> d' = patch_lease k f d \<and>
        (\<forall>l. cl_profile (f l) = cl_profile l) \<and>
        (cl_epoch (f l) = cl_epoch l + 1 \<or>
         cl_epoch (f l) = cl_epoch l \<and> cl_expiresAt l > now \<and>
         map_option holder_process (cl_holder (f l)) = map_option holder_process (cl_holder l)))"

lemma lease_write_insert:
  assumes "leaseFor q d = Inr None" "cl_profile l = q" "cl_epoch l = 0 \<and> cl_holder l = None \<or> cl_epoch l = 1"
  shows "lease_write now q d (insert_lease l d)"
  unfolding lease_write_def
  by (rule disjI2, rule disjI1, intro conjI exI [of _ l] assms refl)

lemma lease_write_patch:
  assumes "leaseFor q d = Inr (Some (k, l))" "\<And>l. cl_profile (f l) = cl_profile l"
    "cl_epoch (f l) = cl_epoch l + 1 \<or> cl_epoch (f l) = cl_epoch l \<and> cl_expiresAt l > now \<and>
     map_option holder_process (cl_holder (f l)) = map_option holder_process (cl_holder l)"
  shows "lease_write now q d (patch_lease k f d)"
  unfolding lease_write_def
  by (rule disjI2, rule disjI2, intro conjI exI [of _ k] exI [of _ l] exI [of _ f] allI assms refl)

lemma lease_writeE:
  assumes "lease_write now q d d'"
  obtains (same) "d' = d"
  | (first) l where "leaseFor q d = Inr None" "d' = insert_lease l d" "cl_profile l = q"
      "cl_epoch l = 0 \<and> cl_holder l = None \<or> cl_epoch l = 1"
  | (changed) k l f where "leaseFor q d = Inr (Some (k, l))" "d' = patch_lease k f d"
      "\<And>l. cl_profile (f l) = cl_profile l"
      "cl_epoch (f l) = cl_epoch l + 1 \<or> cl_epoch (f l) = cl_epoch l \<and> cl_expiresAt l > now \<and>
       map_option holder_process (cl_holder (f l)) = map_option holder_process (cl_holder l)"
  using assms unfolding lease_write_def by (elim disjE exE conjE) metis+

lemma own_process:
  "holderMatches h identity \<Longrightarrow> lh_instance h = inst \<Longrightarrow>
   holder_process (identity_holder identity hostname inst) = holder_process h"
  by (cases identity) (simp_all add: holder_process_def)

lemma grant_lease_write:
  assumes "leaseFor q d = Inr current"
    and "ownLease \<Longrightarrow> \<exists>h. lease_unexpired current now = Some h \<and> lh_instance h = inst \<and> holderMatches h identity"
  shows "lease_write now q d (snd (grant_lease now q hostname inst identity ownLease current d))"
proof (cases current)
  case None
  then have "leaseFor q d = Inr None" using assms(1) by simp
  then show ?thesis
    unfolding grant_lease_def Let_def None
    by (simp only: option.case snd_conv) (rule lease_write_insert, simp_all)
next
  case (Some c)
  then obtain k l where c: "current = Some (k, l)" by (cases c) auto
  have row: "leaseFor q d = Inr (Some (k, l))" using assms(1) c by simp
  show ?thesis
  proof (cases ownLease)
    case True
    then obtain h where "lease_unexpired current now = Some h" and own: "lh_instance h = inst" "holderMatches h identity"
      using assms(2) by blast
    then have live: "cl_expiresAt l > now" "cl_holder l = Some h"
      using c by (auto simp: lease_unexpired_def split: if_splits)
    have "holder_process (identity_holder identity hostname inst) = holder_process h"
      by (rule own_process [OF own(2,1)])
    with live show ?thesis
      unfolding grant_lease_def Let_def c using True
      by (simp only: option.case prod.case if_True snd_conv) (rule lease_write_patch [OF row], simp_all)
  next
    case False
    then show ?thesis
      unfolding grant_lease_def Let_def c
      by (simp only: option.case prod.case if_False snd_conv) (rule lease_write_patch [OF row], simp_all)
  qed
qed

lemma lease_write_refl [simp, intro]: "lease_write now q d d"
  by (simp add: lease_write_def)

lemma acquire_lease_write:
  assumes "acquire_lease now q hostname inst identity poor profile d = Inr (r, d')"
  shows "lease_write now q d d'"
proof -
  obtain lease where lease: "leaseFor q d = Inr lease" using assms by (auto simp: acquire_lease_def res_simps)
  let ?own = "case lease_unexpired lease now of None \<Rightarrow> False
              | Some h \<Rightarrow> lh_instance h = inst \<and> holderMatches h identity"
  let ?free = "insert_lease \<lparr>cl_profile = q, cl_epoch = 0, cl_holder = None, cl_acquiredAt = None,
                             cl_renewedAt = None, cl_expiresAt = now\<rparr> d"
  have own: "?own \<Longrightarrow> \<exists>h. lease_unexpired lease now = Some h \<and> lh_instance h = inst \<and> holderMatches h identity"
    by (auto split: option.splits)
  have free: "lease = None \<Longrightarrow> lease_write now q d ?free"
    using lease by (intro lease_write_insert) simp_all
  consider "d' = d" | "lease = None" "d' = ?free" |
    "d' = snd (grant_lease now q hostname inst identity ?own lease d)"
    using assms lease
    by (cases lease) (auto simp: acquire_lease_def Let_def POOR_NETWORK_HEAD_START_MS_def res_simps
        split: if_splits prod.splits)
  then show ?thesis using free grant_lease_write [OF lease own] by cases auto
qed

lemma acquire_write: "acquire now q hostname inst act can caller d = Inr (r, d') \<Longrightarrow> lease_write now q d d'"
  unfolding acquire_def res_simps
  by (elim exE conjE) (auto split: sum.splits prod.splits dest: acquire_lease_write)

lemma renew_write:
  assumes "renew now q inst caller d = Inr (r, d')"
  shows "lease_write now q d d'"
proof -
  obtain k l h where row: "leaseFor q d = Inr (Some (k, l))" and "cl_holder l = Some h" "cl_expiresAt l > now"
    and d': "d' = patch_lease k (\<lambda>l. l\<lparr>cl_renewedAt := Some now, cl_expiresAt := now + LEASE_TTL_MS\<rparr>) d"
    using assms unfolding renew_def
    by (auto split: option.split_asm if_split_asm prod.split_asm elim!: res_bind_InrE)
  then show ?thesis unfolding d' by (intro lease_write_patch [OF row]) simp_all
qed

lemma release_write:
  assumes "release now q inst caller d = Inr d'"
  shows "lease_write now q d d'"
proof -
  consider "d' = d" | k l where "leaseFor q d = Inr (Some (k, l))"
    "d' = patch_lease k (\<lambda>r. r\<lparr>cl_epoch := cl_epoch l + 1, cl_holder := None, cl_acquiredAt := None,
                              cl_renewedAt := None, cl_expiresAt := min (cl_expiresAt l) now\<rparr>) d"
    using assms unfolding release_def
    by (auto split: option.split_asm if_split_asm prod.split_asm elim!: res_bind_InrE)
  then show ?thesis
  proof cases
    case (2 k l)
    then show ?thesis unfolding 2(2) by (intro lease_write_patch [OF 2(1)]) simp_all
  qed simp
qed

section \<open>Steps of the lease\<close>

text \<open>Time goes on; a lease operation of any Profile, or any mutation that leaves the leases alone.\<close>

inductive lease_step :: "int \<times> db \<Rightarrow> int \<times> db \<Rightarrow> bool" where
  acquire_step: "t \<le> now \<Longrightarrow> acquire now q hostname inst act can caller d = Inr (r, d') \<Longrightarrow>
    lease_step (t, d) (now, d')"
| renew_step: "t \<le> now \<Longrightarrow> renew now q inst caller d = Inr (r', d') \<Longrightarrow> lease_step (t, d) (now, d')"
| release_step: "t \<le> now \<Longrightarrow> release now q inst caller d = Inr d' \<Longrightarrow> lease_step (t, d) (now, d')"
| other_step: "t \<le> now \<Longrightarrow> d_controllerLeases d' = d_controllerLeases d \<Longrightarrow> d_nextId d \<le> d_nextId d' \<Longrightarrow>
    lease_step (t, d) (now, d')"

definition lease_epoch :: "string \<Rightarrow> int \<times> db \<Rightarrow> int" where
  "lease_epoch p s = (case leaseFor p (snd s) of Inr (Some (_, l)) \<Rightarrow> cl_epoch l | _ \<Rightarrow> 0)"

definition lease_owner :: "string \<Rightarrow> int \<times> db \<Rightarrow> (lease_credential \<times> nat option \<times> string) option" where
  "lease_owner p s = (case leaseFor p (snd s) of
     Inr lease \<Rightarrow> map_option holder_process (lease_unexpired lease (fst s)) | Inl _ \<Rightarrow> None)"

lemma lease_write_ok:
  assumes "leases_ok d" "lease_write now q d d'"
  shows "leases_ok d'"
  using assms(2)
proof (cases rule: lease_writeE)
  case (first l)
  have "d_nextId d \<notin> set (db_ids (d_controllerLeases d))" using assms(1) by (auto simp: leases_ok_def list_all_iff)
  then show ?thesis using assms(1) unfolding first(2)
    by (auto simp: leases_ok_def insert_lease_def list_all_iff less_Suc_eq intro!: tb.wf_add)
qed (use assms(1) in \<open>simp_all add: leases_ok_def patch_lease_def\<close>)

lemma lease_write_other:
  assumes "leases_ok d" "lease_write now q d d'" "p \<noteq> q"
  shows "leaseFor p d' = leaseFor p d"
  using assms(2)
proof (cases rule: lease_writeE)
  case (first l)
  then show ?thesis using assms(3) by (simp add: leaseFor_insert)
next
  case (changed k l f)
  have "i \<noteq> k" if "leaseFor p d = Inr (Some (i, m))" for i m
    using leaseFor_same_id [OF assms(1) that] changed(1) assms(3) by auto
  then show ?thesis using changed(2,3)
    by (cases "leaseFor p d") (auto simp: leaseFor_patch map_option_case split: option.splits)
qed simp

lemma lease_write_fenced:
  assumes "leases_ok d" "lease_write now q d d'" "t \<le> now"
  shows "lease_epoch p (t, d) \<le> lease_epoch p (now, d') \<and>
    (lease_epoch p (now, d') = lease_epoch p (t, d) \<longrightarrow> lease_owner p (now, d') = Some h \<longrightarrow>
     lease_owner p (t, d) = Some h)"
proof (cases "p = q")
  case False
  from lease_write_other [OF assms(1,2) False] assms(3) show ?thesis
    by (auto simp: lease_epoch_def lease_owner_def lease_unexpired_def split: sum.splits option.splits if_splits)
next
  case True
  show ?thesis using assms(2)
  proof (cases rule: lease_writeE)
    case same
    then show ?thesis using assms(3)
      by (auto simp: lease_epoch_def lease_owner_def lease_unexpired_def split: sum.splits option.splits if_splits)
  next
    case (first l)
    then have "leaseFor q d' = Inr (Some (d_nextId d, l))" by (simp add: leaseFor_insert)
    then show ?thesis using first(1,4) True
      by (auto simp: lease_epoch_def lease_owner_def lease_unexpired_def)
  next
    case (changed k l f)
    then have "leaseFor q d' = Inr (Some (k, f l))" by (simp add: leaseFor_patch)
    then show ?thesis using changed(1,4) True assms(3)
      by (cases "cl_holder l") (auto simp: lease_epoch_def lease_owner_def lease_unexpired_def split: if_splits)
  qed
qed

lemma lease_step_cases:
  assumes "lease_step s s'"
  shows "fst s \<le> fst s' \<and> ((\<exists>q. lease_write (fst s') q (snd s) (snd s')) \<or>
    d_controllerLeases (snd s') = d_controllerLeases (snd s) \<and> d_nextId (snd s) \<le> d_nextId (snd s'))"
  using assms by cases (auto dest: acquire_write renew_write release_write)

lemma lease_step_fenced:
  assumes "leases_ok (snd s)" "lease_step s s'"
  shows "leases_ok (snd s') \<and> lease_epoch p s \<le> lease_epoch p s' \<and>
    (lease_epoch p s' = lease_epoch p s \<longrightarrow> lease_owner p s' = Some h \<longrightarrow> lease_owner p s = Some h)"
  using lease_step_cases [OF assms(2)]
proof (elim conjE disjE exE)
  fix q assume "fst s \<le> fst s'" "lease_write (fst s') q (snd s) (snd s')"
  then show ?thesis
    using lease_write_fenced [OF assms(1), of "fst s'" q "snd s'" "fst s" p h] lease_write_ok [OF assms(1)] by auto
next
  assume "fst s \<le> fst s'" and same: "d_controllerLeases (snd s') = d_controllerLeases (snd s)" "d_nextId (snd s) \<le> d_nextId (snd s')"
  moreover have "leaseFor p (snd s') = leaseFor p (snd s)" using same by (simp add: leaseFor_def)
  ultimately show ?thesis using assms(1)
    by (auto simp: lease_epoch_def lease_owner_def lease_unexpired_def leases_ok_def list_all_iff
        split: sum.splits option.splits if_splits)
qed

interpretation clease: fenced_lease "lease_epoch p" "lease_owner p" "\<lambda>s. leases_ok (snd s)" lease_step for p
  by unfold_locales (use lease_step_fenced in blast)+

section \<open>Authorised callers\<close>

fun process_identity :: "lease_credential \<times> nat option \<times> string \<Rightarrow> identity \<Rightarrow> bool" where
  "process_identity (cred, m, inst) TokenIdentity \<longleftrightarrow> cred = ControllerToken"
| "process_identity (cred, m, inst) (MachineIdentity k) \<longleftrightarrow> cred = MachineCredential \<and> m = Some k"

lemma holder_process_identity: "holderMatches h i \<Longrightarrow> process_identity (holder_process h) i"
  by (cases i) (auto simp: holder_process_def)

lemma holder_process_instance: "snd (snd (holder_process h)) = lh_instance h"
  by (simp add: holder_process_def)

lemma process_identity_unique: "process_identity x i \<Longrightarrow> process_identity x j \<Longrightarrow> i = j"
  by (cases x; cases i; cases j) auto

text \<open>An authorised caller is the live owner and carries its epoch.\<close>

lemma authorized_owner:
  assumes "authorizeController now p caller d = Inr i"
  obtains x where "lease_owner p (now, d) = Some x" "process_identity x i"
    "caller_epoch caller = Some (lease_epoch p (now, d))"
proof -
  obtain k l h where "leaseFor p d = Inr (Some (k, l))" "cl_holder l = Some h" "cl_expiresAt l > now"
    "holderMatches h i" "caller_epoch caller = Some (cl_epoch l)"
    using assms
    by (cases caller) (auto elim!: res_bind_InrE split: option.split_asm if_split_asm prod.split_asm)
  then show thesis
    by (intro that [of "holder_process h"])
       (simp_all add: lease_owner_def lease_epoch_def lease_unexpired_def holder_process_identity)
qed



section \<open>What a grant gives\<close>

fun with_epoch :: "int \<Rightarrow> controller_caller \<Rightarrow> controller_caller" where
  "with_epoch e (TokenCaller slot epoch) = TokenCaller slot (Some e)"
| "with_epoch e (MachineCaller token epoch) = MachineCaller token (Some e)"

lemma grant_lease_row:
  assumes "leaseFor p d = Inr current" "grant_lease now p hostname inst i own current d = (e, d')"
  shows "\<exists>k row. leaseFor p d' = Inr (Some (k, row)) \<and> cl_epoch row = e \<and>
      cl_holder row = Some (identity_holder i hostname inst) \<and> cl_expiresAt row = now + LEASE_TTL_MS"
    and "d_machines d' = d_machines d"
    and "e = (case current of None \<Rightarrow> 1 | Some (_, l) \<Rightarrow> if own then cl_epoch l else cl_epoch l + 1)"
  using assms
  by (auto simp: grant_lease_def Let_def leaseFor_insert leaseFor_patch split: option.splits)
     (auto simp: insert_lease_def patch_lease_def)

lemma acquire_lease_granted:
  assumes "acquire_lease now p hostname inst i poor profile d = Inr (Granted e ttl every poor' settings, d')"
  obtains lease where "leaseFor p d = Inr lease" "ttl = LEASE_TTL_MS"
    "grant_lease now p hostname inst i (lease_unexpired lease now \<noteq> None) lease d = (e, d')"
    "\<forall>h. lease_unexpired lease now = Some h \<longrightarrow> lh_instance h = inst \<and> holderMatches h i"
proof -
  obtain lease where lease: "leaseFor p d = Inr lease" using assms by (auto simp: acquire_lease_def res_simps)
  then show thesis using assms that [OF lease]
    by (cases lease; cases "lease_unexpired lease now")
       (auto simp: acquire_lease_def Let_def lease POOR_NETWORK_HEAD_START_MS_def split: if_split_asm prod.split_asm)
qed

lemma acquire_candidate_identity:
  "acquire_candidate now p act can caller profile d = Inr (Inr (i, poor)) \<Longrightarrow> caller_identity caller d = Inr (Some i)"
  by (cases caller)
     (auto simp: Let_def elim!: res_bind_InrE split: option.split_asm if_split_asm prod.split_asm)

lemma acquire_candidate_refuses:
  "acquire_candidate now p act can caller profile d \<noteq> Inr (Inl (Granted e ttl every poor settings))"
  by (cases caller)
     (auto simp: Let_def elim!: res_bind_InrE split: option.split_asm if_split_asm prod.split_asm)

lemma acquire_grantedE:
  assumes "acquire now p hostname inst act can caller d = Inr (Granted e ttl every poor settings, d')"
  obtains i poor' prof where "caller_identity caller d = Inr (Some i)"
    "acquire_lease now p hostname inst i poor' prof d = Inr (Granted e ttl every poor settings, d')"
  using assms unfolding acquire_def
  by (elim res_bind_InrE)
     (auto simp: acquire_candidate_refuses dest: acquire_candidate_identity split: sum.split_asm)

lemma authorized_holder:
  assumes "leaseFor p d = Inr (Some (k, l))" "cl_holder l = Some (identity_holder i hostname inst)"
    "cl_expiresAt l > t" "caller_identity caller d = Inr (Some i)"
  shows "authorizeController t p (with_epoch (cl_epoch l) caller) d = Inr i"
  using assms by (cases caller) (auto simp: res_simps)

text \<open>A granted \<open>acquire\<close> authorises its caller under the granted epoch until the grant runs out.
  When another process held the unexpired lease there is no grant; the same process keeps its epoch,
  and a new holder gets the next one.\<close>

lemma acquire_granted:
  assumes "acquire now profile hostname inst act can caller d = Inr (Granted e ttl every poor settings, d')"
    and "t < now + ttl"
  shows "\<exists>i. authorizeController t profile (with_epoch e caller) d' = Inr i \<and>
    (case lease_owner profile (now, d) of
       None \<Rightarrow> e = lease_epoch profile (now, d) + 1
     | Some owner \<Rightarrow> process_identity owner i \<and> snd (snd owner) = inst \<and> e = lease_epoch profile (now, d))"
proof -
  obtain i poor' prof where i: "caller_identity caller d = Inr (Some i)"
    and grant: "acquire_lease now profile hostname inst i poor' prof d = Inr (Granted e ttl every poor settings, d')"
    by (rule acquire_grantedE [OF assms(1)])
  obtain lease where lease: "leaseFor profile d = Inr lease" "ttl = LEASE_TTL_MS"
    "grant_lease now profile hostname inst i (lease_unexpired lease now \<noteq> None) lease d = (e, d')"
    and own: "\<forall>h. lease_unexpired lease now = Some h \<longrightarrow> lh_instance h = inst \<and> holderMatches h i"
    by (rule acquire_lease_granted [OF grant])
  note row = grant_lease_row [OF lease(1,3)]
  have "caller_identity caller d' = Inr (Some i)"
    using i row(2) by (cases caller) (auto simp: machineFor_def)
  then have "authorizeController t profile (with_epoch e caller) d' = Inr i"
    using row(1) authorized_holder assms(2) lease(2) by auto
  moreover have "case lease_owner profile (now, d) of
       None \<Rightarrow> e = lease_epoch profile (now, d) + 1
     | Some owner \<Rightarrow> process_identity owner i \<and> snd (snd owner) = inst \<and> e = lease_epoch profile (now, d)"
    using lease(1) own row(3)
    by (auto simp: lease_owner_def lease_epoch_def lease_unexpired_def holder_process_identity
        holder_process_instance split: option.splits if_splits)
  ultimately show ?thesis by blast
qed

text \<open>The first holder is the controller token on host \<open>a\<close>; host \<open>b\<close> takes over after its grant ran out.\<close>

definition token_db :: db where
  "token_db = sample_db\<lparr>d_controllerLeases :=
     [(6, \<lparr>cl_profile = ''p'', cl_epoch = 1, cl_holder = Some (identity_holder TokenIdentity ''a'' ''x''),
           cl_acquiredAt = Some 1000, cl_renewedAt = Some 1000, cl_expiresAt = 31000\<rparr>)], d_nextId := 7\<rparr>"

definition taken_db :: db where
  "taken_db = sample_db\<lparr>d_controllerLeases :=
     [(6, \<lparr>cl_profile = ''p'', cl_epoch = 2, cl_holder = Some (identity_holder TokenIdentity ''b'' ''y''),
           cl_acquiredAt = Some 40000, cl_renewedAt = Some 40000, cl_expiresAt = 70000\<rparr>)], d_nextId := 7\<rparr>"

lemma first_grant:
  "acquire 1000 ''p'' ''a'' ''x'' None None (TokenCaller CurrentSlot None) sample_db =
     Inr (Granted 1 30000 10000 False None, token_db)"
  by code_simp

lemma takeover_grant:
  "acquire 40000 ''p'' ''b'' ''y'' None None (TokenCaller CurrentSlot None) token_db =
     Inr (Granted 2 30000 10000 False None, taken_db)"
  by code_simp

lemma token_authorized:
  "authorizeController 1000 ''p'' (TokenCaller CurrentSlot (Some 1)) token_db = Inr TokenIdentity"
  "authorizeController 2000 ''p'' (TokenCaller NextSlot (Some 1)) token_db = Inr TokenIdentity"
  "authorizeController 40000 ''p'' (TokenCaller CurrentSlot (Some 2)) taken_db = Inr TokenIdentity"
  "leases_ok token_db"
  by code_simp+



end
