(* ===== verification/ControllerApi.thy ===== *)
theory ControllerApi
  imports ControllerLease ScaleSetLabels
begin

text \<open>
  The functions a Profile's controller calls (\<open>packages/backend/convex/controllerApi.ts\<close>): publishing
  and pausing a Profile, heartbeats, creating and scaling down Attempts, and GitHub's job messages.
  Every one runs the lease check in the transaction it guards; a caller of \<open>None\<close> is server code.
\<close>

section \<open>Operations\<close>

definition authorize :: "int \<Rightarrow> string \<Rightarrow> controller_caller option \<Rightarrow> db \<Rightarrow> unit res" where
  "authorize now profile caller d =
     (case caller of
        None \<Rightarrow> Inr ()
      | Some c \<Rightarrow> res_bind (authorizeController now profile c d) (\<lambda>_. Inr ()))"

definition terminal_state :: "attempt_state \<Rightarrow> bool" where
  "terminal_state s \<longleftrightarrow> s \<in> {ACompleted, ACancelled, AFailed}"

definition activeAttemptStates :: "attempt_state list" where
  "activeAttemptStates = [APending, APreparing, AReady, ARunning]"

definition attempt_named :: "string \<Rightarrow> db \<Rightarrow> (nat \<times> attempt) option res" where
  "attempt_named name d = db_unique (db_query (\<lambda>a. at_runnerName a = name) (d_attempts d))"

subsection \<open>Profiles\<close>

record registration =
  rg_name :: string
  rg_scaleSetName :: string
  rg_executor :: executor
  rg_imageRelease :: string
  rg_vcpus :: int
  rg_memoryMiB :: int
  rg_warmPool :: "int option"
  rg_fitPolicy :: "fit_policy option"
  rg_minRunners :: int
  rg_maxRunners :: int
  rg_egress :: "profile_egress option"
  rg_githubConfigUrl :: "string option"
  rg_githubCacheFacts :: "bool option"
  rg_runnerGroup :: "string option"
  rg_labels :: "string list option"
  rg_workerLabels :: "string list option"

definition registration_value :: "int \<Rightarrow> registration \<Rightarrow> profile option \<Rightarrow> profile" where
  "registration_value now args existing =
     (let legacy = (rg_githubConfigUrl args = None)
      in \<lparr>pf_name = rg_name args, pf_scaleSetName = rg_scaleSetName args, pf_executor = rg_executor args,
          pf_imageRelease = rg_imageRelease args, pf_vcpus = rg_vcpus args,
          pf_memoryMiB = rg_memoryMiB args, pf_warmPool = Some (or_else (rg_warmPool args) 0),
          pf_fitPolicy = Some (or_else (rg_fitPolicy args) Balanced),
          pf_minRunners = rg_minRunners args, pf_maxRunners = rg_maxRunners args,
          pf_egress = (case rg_egress args of
                         None \<Rightarrow> None
                       | Some e \<Rightarrow> if eg_mode e = Public then None else Some e),
          pf_githubConfigUrl = (case rg_githubConfigUrl args of
                                  None \<Rightarrow> Option.bind existing pf_githubConfigUrl
                                | Some url \<Rightarrow> Some url),
          pf_githubCacheFacts = (if legacy then Option.bind existing pf_githubCacheFacts
                                 else Some (rg_githubCacheFacts args = Some True)),
          pf_runnerGroup = (if legacy then Option.bind existing pf_runnerGroup else rg_runnerGroup args),
          pf_labels = (if legacy then Option.bind existing pf_labels else rg_labels args),
          pf_workerLabels = (if rg_workerLabels args = Some [] then None else rg_workerLabels args),
          pf_state = Active, pf_updatedAt = now\<rparr>)"

definition scale_set_of :: "profile \<Rightarrow> scale_set_profile" where
  "scale_set_of p = \<lparr>ss_name = pf_name p, ss_scaleSetName = pf_scaleSetName p, ss_labels = pf_labels p\<rparr>"

definition introducedLabelConflicts ::
  "profile option \<Rightarrow> profile \<Rightarrow> db \<Rightarrow> label_conflict list \<times> label_conflict list" where
  "introducedLabelConflicts existing v d =
     (let others = map (\<lambda>x. scale_set_of (snd x))
                     (filter (\<lambda>x. pf_name (snd x) \<noteq> pf_name v)
                       (db_query (\<lambda>p. pf_state p = Active) (d_profiles d)));
          before = (case existing of
                      None \<Rightarrow> []
                    | Some p \<Rightarrow> if pf_state p \<noteq> Active then []
                                else map lc_other (conflictsOf (scale_set_of p) others));
          current = conflictsOf (scale_set_of v) others
      in (filter (\<lambda>c. lc_other c \<notin> set before) current, filter (\<lambda>c. lc_other c \<in> set before) current))"

definition insert_profile :: "profile \<Rightarrow> db \<Rightarrow> db" where
  "insert_profile p d = d\<lparr>d_profiles := db_insert (d_profiles d) (d_nextId d) p, d_nextId := Suc (d_nextId d)\<rparr>"

definition patch_profile :: "nat \<Rightarrow> (profile \<Rightarrow> profile) \<Rightarrow> db \<Rightarrow> db" where
  "patch_profile i f d = d\<lparr>d_profiles := db_patch (d_profiles d) i f\<rparr>"

text \<open>The result is the conflict a registration is refused for.\<close>

definition registerProfile ::
  "int \<Rightarrow> registration \<Rightarrow> controller_caller option \<Rightarrow> db \<Rightarrow> (string option \<times> db) res" where
  "registerProfile now args caller d =
     res_bind (authorize now (rg_name args) caller d) (\<lambda>_.
     res_bind (case caller of None \<Rightarrow> Inr () | Some c \<Rightarrow> requireControllerToken c) (\<lambda>_.
     res_bind (profileFor (rg_name args) d) (\<lambda>found.
       let existing = map_option snd found;
           v = registration_value now args existing
       in case fst (introducedLabelConflicts existing v d) of
            conflict # _ \<Rightarrow> Inr (Some (lc_reason conflict), d)
          | [] \<Rightarrow>
              (let (profileId, d1) = (case found of
                                        None \<Rightarrow> (d_nextId d, insert_profile v d)
                                      | Some (i, _) \<Rightarrow> (i, patch_profile i (\<lambda>_. v) d))
               in if map_option (js_join '','') (Option.bind existing pf_workerLabels) \<noteq>
                     map_option (js_join '','') (pf_workerLabels v)
                  then res_bind (case db_get (d_profiles d1) profileId of
                                   None \<Rightarrow> Inr d1
                                 | Some stored \<Rightarrow> res_bind (retireOffPinForProfile now stored d1) (\<lambda>(_, d2). Inr d2))
                         (\<lambda>d2. Inr (None, runAfter AttemptTryAssign d2))
                  else Inr (None, d1)))))"

definition pauseProfile ::
  "int \<Rightarrow> string \<Rightarrow> controller_caller option \<Rightarrow> db \<Rightarrow> (bool \<times> db) res" where
  "pauseProfile now name caller d =
     res_bind (case caller of
                 None \<Rightarrow> Inr ()
               | Some c \<Rightarrow> res_bind (authorize now name caller d) (\<lambda>_. requireControllerToken c)) (\<lambda>_.
     res_bind (profileFor name d) (\<lambda>existing.
       case existing of
         None \<Rightarrow> Inr (False, d)
       | Some (i, p) \<Rightarrow>
           Inr (True, if pf_state p \<noteq> Paused
                      then patch_profile i (\<lambda>p. p\<lparr>pf_state := Paused, pf_updatedAt := now\<rparr>) d else d)))"

subsection \<open>Heartbeats\<close>

record heartbeat_report =
  hr_profile :: string
  hr_hostname :: string
  hr_version :: string
  hr_scaleSetId :: "int option"
  hr_sessionState :: session_state
  hr_leaseRole :: "lease_role option"
  hr_leaseEpoch :: "int option"
  hr_lastMessageAt :: "int option"
  hr_startedAt :: "int option"
  hr_assignedJobs :: int
  hr_runningJobs :: int
  hr_lastError :: "string option"
  hr_tokenSlot :: token_slot

definition authorize_heartbeat ::
  "int \<Rightarrow> heartbeat_report \<Rightarrow> controller_caller option \<Rightarrow> db \<Rightarrow> unit res" where
  "authorize_heartbeat now args caller d =
     (case caller of
        None \<Rightarrow> Inr ()
      | Some c \<Rightarrow>
          (case hr_leaseRole args of
             Some StandbyRole \<Rightarrow>
               res_bind (if caller_epoch c \<noteq> None then authorize now (hr_profile args) caller d else Inr ())
                 (\<lambda>_. authorizeStandbyReport (hr_profile args) c d)
           | _ \<Rightarrow> authorize now (hr_profile args) caller d))"

definition heartbeat_row :: "int \<Rightarrow> heartbeat_report \<Rightarrow> string \<Rightarrow> controller_heartbeat option \<Rightarrow> controller_heartbeat" where
  "heartbeat_row now args reporter existing =
     \<lparr>hb_profile = hr_profile args, hb_reporter = Some reporter, hb_hostname = hr_hostname args,
      hb_version = hr_version args, hb_scaleSetId = hr_scaleSetId args,
      hb_sessionState = hr_sessionState args, hb_leaseRole = hr_leaseRole args,
      hb_leaseEpoch = hr_leaseEpoch args, hb_lastMessageAt = hr_lastMessageAt args,
      hb_startedAt = hr_startedAt args, hb_assignedJobs = hr_assignedJobs args,
      hb_runningJobs = hr_runningJobs args, hb_lastError = hr_lastError args,
      hb_tokenSlot = hr_tokenSlot args,
      hb_firstSeenAt = (case existing of None \<Rightarrow> now | Some h \<Rightarrow> hb_firstSeenAt h),
      hb_receivedAt = now,
      hb_lastListeningAt = (if hr_sessionState args = Listening then Some now
                            else Option.bind existing hb_lastListeningAt)\<rparr>"

definition recordHeartbeat ::
  "int \<Rightarrow> heartbeat_report \<Rightarrow> controller_caller option \<Rightarrow> db \<Rightarrow> db res" where
  "recordHeartbeat now args caller d =
     res_bind (authorize_heartbeat now args caller d) (\<lambda>_.
     res_bind (case caller of
                 Some (MachineCaller token _) \<Rightarrow>
                   db_unique (db_query (\<lambda>m. mc_token m = token) (d_machines d))
               | _ \<Rightarrow> Inr None) (\<lambda>machine.
       let reporter = (case machine of
                         None \<Rightarrow> ''controller:'' @ hr_hostname args
                       | Some (m, _) \<Rightarrow> ''machine:'' @ show_nat m)
       in res_bind (db_unique (db_query (\<lambda>h. hb_profile h = hr_profile args \<and> hb_reporter h = Some reporter)
                      (d_controllerHeartbeats d))) (\<lambda>own.
            let existing = (if own = None \<and> machine = None
                            then db_first (db_query (\<lambda>h. hb_profile h = hr_profile args \<and>
                                   hb_hostname h = hr_hostname args \<and> hb_reporter h = None)
                                   (d_controllerHeartbeats d))
                            else own)
            in Inr (case existing of
                      None \<Rightarrow> d\<lparr>d_controllerHeartbeats :=
                                   db_insert (d_controllerHeartbeats d) (d_nextId d)
                                     (heartbeat_row now args reporter None),
                                 d_nextId := Suc (d_nextId d)\<rparr>
                    | Some (i, h) \<Rightarrow> d\<lparr>d_controllerHeartbeats :=
                        db_patch (d_controllerHeartbeats d) i
                          (\<lambda>_. heartbeat_row now args reporter (Some h))\<rparr>))))"

subsection \<open>Attempts\<close>

definition listActiveAttempts ::
  "int \<Rightarrow> string \<Rightarrow> controller_caller option \<Rightarrow> db \<Rightarrow> (string \<times> int \<times> attempt_state \<times> int) list res" where
  "listActiveAttempts now profile caller d =
     res_bind (authorize now profile caller d) (\<lambda>_.
       Inr (concat (map (\<lambda>state.
              map (\<lambda>x. (at_runnerName (snd x), at_runnerId (snd x), state, at_createdAt (snd x)))
                (filter (\<lambda>x. \<not> isRetiring (snd x))
                  (db_query (\<lambda>a. at_profile a = profile \<and> at_state a = state) (d_attempts d))))
            activeAttemptStates)))"

definition listRunnerCleanups ::
  "int \<Rightarrow> string \<Rightarrow> controller_caller option \<Rightarrow> db \<Rightarrow> (string \<times> int) list res" where
  "listRunnerCleanups now profile caller d =
     res_bind (authorize now profile caller d) (\<lambda>_.
       Inr (map (\<lambda>x. (at_runnerName (snd x), at_runnerId (snd x)))
              (db_query (\<lambda>a. at_profile a = profile \<and> at_runnerCleanupPending a = Some True) (d_attempts d))))"

definition completeRunnerCleanup ::
  "int \<Rightarrow> string \<Rightarrow> string \<Rightarrow> int \<Rightarrow> controller_caller option \<Rightarrow> db \<Rightarrow> (bool \<times> db) res" where
  "completeRunnerCleanup now profile runnerName runnerId caller d =
     res_bind (authorize now profile caller d) (\<lambda>_.
     res_bind (attempt_named runnerName d) (\<lambda>attempt.
       case attempt of
         None \<Rightarrow> Inr (False, d)
       | Some (i, a) \<Rightarrow>
           if at_profile a \<noteq> profile \<or> at_runnerId a \<noteq> runnerId then Inr (False, d)
           else if at_runnerCleanupPending a \<noteq> Some True then Inr (True, d)
           else if isRetiring a
           then res_bind (finishRetirement now (i, a) False d) (\<lambda>d1. Inr (True, runAfter AttemptTryAssign d1))
           else Inr (True, patch_attempt i (\<lambda>a. a\<lparr>at_runnerCleanupPending := None, at_retirement := None\<rparr>) d)))"

record attempt_request =
  aq_profile :: string
  aq_executor :: executor
  aq_imageRelease :: string
  aq_vcpus :: int
  aq_memoryMiB :: int
  aq_runnerName :: string
  aq_runnerId :: int
  aq_encodedJITConfig :: string

definition new_attempt :: "int \<Rightarrow> attempt_request \<Rightarrow> attempt" where
  "new_attempt now args =
     \<lparr>at_profile = aq_profile args, at_executor = aq_executor args,
      at_imageRelease = aq_imageRelease args, at_vcpus = aq_vcpus args,
      at_memoryMiB = aq_memoryMiB args, at_runnerName = aq_runnerName args,
      at_runnerId = aq_runnerId args, at_state = APending, at_machineId = None,
      at_selectionReason = None, at_jitConfig = None, at_createdAt = now, at_claimedAt = None,
      at_readyAt = None, at_startedAt = None, at_finishedAt = None, at_executorFinishedAt = None,
      at_executorExitCode = None, at_job = no_metadata, at_result = None, at_lastError = None,
      at_cancelReason = None, at_runnerCleanupPending = None, at_retirement = None\<rparr>"

definition insert_attempt :: "attempt \<Rightarrow> db \<Rightarrow> db" where
  "insert_attempt a d = d\<lparr>d_attempts := db_insert (d_attempts d) (d_nextId d) a, d_nextId := Suc (d_nextId d)\<rparr>"

definition insert_secret :: "attempt_secret \<Rightarrow> db \<Rightarrow> db" where
  "insert_secret s d =
     d\<lparr>d_attemptSecrets := db_insert (d_attemptSecrets d) (d_nextId d) s, d_nextId := Suc (d_nextId d)\<rparr>"

definition matches_contract :: "profile \<Rightarrow> attempt_request \<Rightarrow> bool" where
  "matches_contract p args \<longleftrightarrow> pf_state p = Active \<and> pf_executor p = aq_executor args \<and>
     pf_imageRelease p = aq_imageRelease args \<and> pf_vcpus p = aq_vcpus args \<and> pf_memoryMiB p = aq_memoryMiB args"

definition same_request :: "attempt \<Rightarrow> attempt_request \<Rightarrow> bool" where
  "same_request a args \<longleftrightarrow> at_profile a = aq_profile args \<and> at_executor a = aq_executor args \<and>
     at_imageRelease a = aq_imageRelease args \<and> at_vcpus a = aq_vcpus args \<and>
     at_memoryMiB a = aq_memoryMiB args \<and> at_runnerId a = aq_runnerId args"

definition createAttempt :: "int \<Rightarrow> attempt_request \<Rightarrow> controller_caller option \<Rightarrow> db \<Rightarrow> db res" where
  "createAttempt now args caller d =
     res_bind (authorize now (aq_profile args) caller d) (\<lambda>_.
     res_bind (profileFor (aq_profile args) d) (\<lambda>profile.
       if (case profile of None \<Rightarrow> True | Some (_, p) \<Rightarrow> \<not> matches_contract p args)
       then Inl (ConvexError ''Attempt does not match the registered Profile contract'')
       else res_bind (attempt_named (aq_runnerName args) d) (\<lambda>existing.
         case existing of
           Some (_, a) \<Rightarrow>
             if same_request a args then Inr d
             else Inl (ConvexError ''Runner name already belongs to another Attempt'')
         | None \<Rightarrow>
             (let attemptId = d_nextId d
              in Inr (runAfter AttemptTryAssign
                   (insert_secret \<lparr>as_attemptId = attemptId, as_jitConfig = aq_encodedJITConfig args,
                                   as_createdAt = now\<rparr>
                     (insert_attempt (new_attempt now args) d)))))))"

definition cancelAttempt ::
  "int \<Rightarrow> string \<Rightarrow> string \<Rightarrow> string \<Rightarrow> controller_caller option \<Rightarrow> db \<Rightarrow> db res" where
  "cancelAttempt now profile runnerName reason caller d =
     res_bind (authorize now profile caller d) (\<lambda>_.
     res_bind (attempt_named runnerName d) (\<lambda>attempt.
       case attempt of
         None \<Rightarrow> Inr d
       | Some (i, a) \<Rightarrow>
           if at_profile a \<noteq> profile \<or> terminal_state (at_state a) then Inr d
           else if at_state a = ARunning
           then Inl (ConvexError ''A running Attempt cannot be removed by a scale-down reconciliation'')
           else res_bind (endIdleAttempt now (i, a) reason d) (\<lambda>(ended, d1).
                  Inr (if ended = EndCancelled then runAfter AttemptTryAssign d1 else d1))))"

subsection \<open>Job messages\<close>

text \<open>\<open>or_kept x old\<close> is a field that is only written when the message has it.\<close>

fun or_kept :: "'a option \<Rightarrow> 'a option \<Rightarrow> 'a option" where
  "or_kept None old = old"
| "or_kept (Some x) old = Some x"

definition started_metadata :: "job_metadata \<Rightarrow> job_metadata \<Rightarrow> job_metadata" where
  "started_metadata args old =
     \<lparr>jm_runnerRequestId = or_kept (jm_runnerRequestId args) (jm_runnerRequestId old),
      jm_repo = or_kept (jm_repo args) (jm_repo old), jm_owner = or_kept (jm_owner args) (jm_owner old),
      jm_jobId = or_kept (jm_jobId args) (jm_jobId old),
      jm_workflowRef = or_kept (jm_workflowRef args) (jm_workflowRef old),
      jm_headBranch = or_kept (jm_headBranch args) (jm_headBranch old),
      jm_displayName = or_kept (jm_displayName args) (jm_displayName old),
      jm_workflowRunId = or_kept (jm_workflowRunId args) (jm_workflowRunId old),
      jm_eventName = or_kept (jm_eventName args) (jm_eventName old),
      jm_queueTime = jm_queueTime args, jm_assignedAt = jm_assignedAt args,
      jm_runnerAssignedAt = jm_runnerAssignedAt args\<rparr>"

definition markJobStarted ::
  "int \<Rightarrow> string \<Rightarrow> string \<Rightarrow> job_metadata \<Rightarrow> controller_caller option \<Rightarrow> db \<Rightarrow> db res" where
  "markJobStarted now profile runnerName args caller d =
     res_bind (authorize now profile caller d) (\<lambda>_.
     res_bind (attempt_named runnerName d) (\<lambda>attempt.
       case attempt of
         None \<Rightarrow> Inl (ConvexError ''Job started for an unknown Attempt'')
       | Some (i, a) \<Rightarrow>
           if at_profile a \<noteq> profile then Inl (ConvexError ''Job started for an unknown Attempt'')
           else if terminal_state (at_state a)
           then Inr (if jm_headBranch args \<noteq> None \<and> at_startedAt a \<noteq> None \<and> jm_headBranch (at_job a) = None
                     then patch_attempt i (at_job_update (jm_headBranch_update (\<lambda>_. jm_headBranch args))) d
                     else d)
           else Inr (patch_attempt i (\<lambda>r.
                  (if at_state a = ARunning then r else keepForJob a r)
                    \<lparr>at_state := ARunning,
                     at_startedAt := Some (or_else (at_startedAt a) now),
                     at_job := started_metadata args (at_job r)\<rparr>) d)))"

definition acknowledgeRunnerlessJobCompleted ::
  "int \<Rightarrow> string \<Rightarrow> controller_caller option \<Rightarrow> db \<Rightarrow> db res" where
  "acknowledgeRunnerlessJobCompleted now profile caller d =
     res_bind (authorize now profile caller d) (\<lambda>_. Inr d)"

definition markJobCompleted ::
  "int \<Rightarrow> string \<Rightarrow> string \<Rightarrow> string option \<Rightarrow> string option \<Rightarrow> string option \<Rightarrow> int \<Rightarrow>
   controller_caller option \<Rightarrow> db \<Rightarrow> db res" where
  "markJobCompleted now profile runnerName runnerRequestId jobId result finishedAt caller d =
     res_bind (authorize now profile caller d) (\<lambda>_.
     res_bind (attempt_named runnerName d) (\<lambda>attempt.
       case attempt of
         None \<Rightarrow> Inl (ConvexError ''Job completed for an unknown Attempt'')
       | Some (i, a) \<Rightarrow>
           if at_profile a \<noteq> profile then Inl (ConvexError ''Job completed for an unknown Attempt'')
           else res_bind (deleteAttemptSecret i (if terminal_state (at_state a) then d else releaseAttemptSlot a d))
             (\<lambda>d1. Inr (runAfter AttemptTryAssign
               (patch_attempt i (\<lambda>r. r
                 \<lparr>at_state := ACompleted, at_jitConfig := None, at_runnerCleanupPending := None,
                  at_retirement := None,
                  at_job := (at_job r)\<lparr>jm_runnerRequestId := or_kept runnerRequestId (jm_runnerRequestId (at_job r)),
                                       jm_jobId := or_kept jobId (jm_jobId (at_job r))\<rparr>,
                  at_result := or_kept result (at_result r), at_finishedAt := Some finishedAt\<rparr>) d1)))))"

section \<open>The state invariant\<close>

lemma state_ok_patch_profile:
  assumes "state_ok d" "db_get (d_profiles d) i = Some p" "pf_name v = pf_name p"
  shows "state_ok (patch_profile i (\<lambda>_. v) d)"
proof (rule state_ok_profiles [OF assms(1)])
  have "map (\<lambda>x. pf_name (snd x)) (db_patch (d_profiles d) i (\<lambda>_. v)) = map (\<lambda>x. pf_name (snd x)) (d_profiles d)"
    by (rule map_db_patch_const) (use assms in \<open>auto simp: db_ok_def\<close>)
  then show "profiles_ok (patch_profile i (\<lambda>_. v) d)"
    using assms(1) by (simp add: patch_profile_def profiles_ok_def state_ok_def)
qed (use assms(1) in \<open>auto simp: patch_profile_def state_ok_def db_ok_def fresh_ok_split\<close>)

lemma patch_profile_const:
  assumes "db_wf (d_profiles d)" "db_get (d_profiles d) i = Some p"
  shows "patch_profile i f d = patch_profile i (\<lambda>_. f p) d"
  unfolding patch_profile_def by (subst db_patch_const [OF assms, of f]) (rule refl)

lemma state_ok_insert_profile:
  assumes ok: "state_ok d" and new: "\<And>x. x \<in> set (d_profiles d) \<Longrightarrow> pf_name (snd x) \<noteq> pf_name v"
  shows "state_ok (insert_profile v d)"
proof (rule state_ok_profiles [OF ok])
  show "db_wf (d_profiles (insert_profile v d))"
    using ok by (auto simp: insert_profile_def state_ok_def db_ok_def fresh_ok_split)
  show "profiles_ok (insert_profile v d)"
    using ok new by (force simp: insert_profile_def state_ok_def profiles_ok_def db_insert_def)
qed (use ok in \<open>auto simp: insert_profile_def state_ok_def fresh_ok_split\<close>)

lemma profileFor_Some:
  assumes "state_ok d" "profileFor name d = Inr (Some (i, p))"
  shows "db_get (d_profiles d) i = Some p" "pf_name p = name"
  using db_unique_query_Some [of "d_profiles d" "\<lambda>p. pf_name p = name" i p] assms
  by (auto simp: profileFor_def state_ok_def db_ok_def)

lemma profileFor_None:
  "profileFor name d = Inr None \<Longrightarrow> x \<in> set (d_profiles d) \<Longrightarrow> pf_name (snd x) \<noteq> name"
  by (auto simp: profileFor_def db_unique_None db_query_def filter_empty_conv)

lemma attempt_named_Some:
  assumes "state_ok d" "attempt_named name d = Inr (Some (i, a))"
  shows "db_get (d_attempts d) i = Some a" "at_runnerName a = name"
  using db_unique_query_Some [of "d_attempts d" "\<lambda>a. at_runnerName a = name" i a] assms
  by (auto simp: attempt_named_def state_ok_def db_ok_def)

lemma attempt_named_None:
  "attempt_named name d = Inr None \<Longrightarrow> x \<in> set (d_attempts d) \<Longrightarrow> at_runnerName (snd x) \<noteq> name"
  by (auto simp: attempt_named_def db_unique_None db_query_def filter_empty_conv)

text \<open>Under the invariant the look-up of a Runner name does not throw.\<close>

lemma attempt_named_total: "state_ok d \<Longrightarrow> \<exists>r. attempt_named name d = Inr r"
  unfolding attempt_named_def by (rule db_unique_distinct) (auto simp: state_ok_def names_ok_def)

lemma profileFor_total: "state_ok d \<Longrightarrow> \<exists>r. profileFor name d = Inr r"
  unfolding profileFor_def by (rule db_unique_distinct) (auto simp: state_ok_def profiles_ok_def)

lemma state_ok_insert_attempt:
  assumes ok: "state_ok d" and new: "\<And>x. x \<in> set (d_attempts d) \<Longrightarrow> at_runnerName (snd x) \<noteq> at_runnerName a"
    and a: "attempt_ok a" "at_machineId a = None"
  shows "state_ok (insert_attempt a d)"
proof -
  have fresh: "ids_below (d_nextId d) (d_attempts d)" "db_wf (d_attempts d)"
    using ok by (auto simp: state_ok_def fresh_ok_split db_ok_def)
  have "work_on m (insert_attempt a d) = work_on m d" for m
    using a(2) unfolding work_on_def insert_attempt_def
    by (simp del: db_ids_simps add: tb.count_add [OF ids_below_fresh [OF fresh(1)]] attempt_on_def [of m a])
  moreover have "d_machines (insert_attempt a d) = d_machines d" by (simp add: insert_attempt_def)
  ultimately have "slots_ok (insert_attempt a d)"
    using slots_ok_frame [OF state_okD(2) [OF ok]] by blast
  moreover have "at_runnerName a \<notin> (\<lambda>x. at_runnerName (snd x)) ` set (d_attempts d)"
    using new by (simp add: image_iff) metis
  then have "names_ok (insert_attempt a d)" "attempts_ok (insert_attempt a d)"
    using ok a(1) by (simp_all add: insert_attempt_def state_ok_def names_ok_def attempts_ok_def db_insert_def)
  moreover have "secret_live (insert_attempt a d) s" if "secret_live d s" for s
    using that fresh db_get_below [OF fresh(1), of "as_attemptId s"]
    by (cases "db_get (d_attempts d) (as_attemptId s)") (auto simp: insert_attempt_def secret_live_def)
  then have "secrets_ok (insert_attempt a d)"
    using ok by (auto simp: state_ok_def secrets_ok_def list_all_iff insert_attempt_def)
  ultimately show ?thesis
    using ok fresh unfolding state_ok_def
    by (auto simp: insert_attempt_def db_ok_def fresh_ok_split profiles_ok_def)
qed

lemma state_ok_insert_secret:
  assumes ok: "state_ok d" and "no_secret (as_attemptId s) d" "secret_live d s"
  shows "state_ok (insert_secret s d)"
proof -
  have "slots_ok (insert_secret s d)"
    by (rule slots_ok_tables [of d]) (use ok in \<open>auto simp: insert_secret_def\<close>)
  moreover have "secrets_ok (insert_secret s d)"
    using assms by (force simp: insert_secret_def state_ok_def secrets_ok_def secret_live_def db_insert_def
        no_secret_def list_all_iff)
  ultimately show ?thesis
    using ok by (auto simp: insert_secret_def state_ok_def db_ok_def attempts_ok_def names_ok_def
        profiles_ok_def fresh_ok_split)
qed

lemma no_secret_fresh: "state_ok d \<Longrightarrow> db_get (d_attempts d) i = None \<Longrightarrow> no_secret i d"
  by (force simp: state_ok_def secrets_ok_def secret_live_def no_secret_def list_all_iff)

subsection \<open>Every operation keeps it\<close>

lemma createAttempt_ok:
  assumes ok: "state_ok d" and run: "createAttempt now args caller d = Inr d'"
  shows "state_ok d'"
proof -
  consider "d' = d" | "attempt_named (aq_runnerName args) d = Inr None"
    "d' = runAfter AttemptTryAssign (insert_secret \<lparr>as_attemptId = d_nextId d, as_jitConfig = aq_encodedJITConfig args,
            as_createdAt = now\<rparr> (insert_attempt (new_attempt now args) d))"
    using run unfolding createAttempt_def Let_def
    by (auto elim!: res_bind_InrE split: option.split_asm if_split_asm)
  then show ?thesis
  proof cases
    case 2
    let ?d = "insert_attempt (new_attempt now args) d"
    have fresh: "ids_below (d_nextId d) (d_attempts d)" using ok by (auto simp: state_ok_def fresh_ok_split)
    have "state_ok ?d"
      by (rule state_ok_insert_attempt [OF ok])
         (use attempt_named_None [OF 2(1)] in \<open>auto simp: new_attempt_def attempt_ok_def\<close>)
    moreover have "db_get (d_attempts d) (d_nextId d) = None"
      using db_get_below [OF fresh] by (cases "db_get (d_attempts d) (d_nextId d)") auto
    then have "no_secret (d_nextId d) ?d"
      using no_secret_fresh [OF ok] by (simp add: no_secret_def insert_attempt_def)
    ultimately show ?thesis unfolding 2(2)
      using fresh by (auto intro!: state_ok_insert_secret simp: secret_live_def insert_attempt_def new_attempt_def)
  qed (use ok in simp)
qed

lemma endIdleAttempt_ok:
  assumes "state_ok d" "db_get (d_attempts d) i = Some a" "\<not> terminal_state (at_state a)" "at_state a \<noteq> ARunning"
    and "endIdleAttempt now (i, a) reason d = Inr (ended, d')"
  shows "state_ok d'"
proof (cases "at_state a = APending")
  case True
  obtain d1 where "cancelUnclaimedAttempt now (i, a) reason d = Inr d1" "state_ok d1"
    by (rule cancelUnclaimedAttempt_ok [OF assms(1,2) True])
  then show ?thesis using assms(5) True by (simp add: endIdleAttempt_def)
next
  case False
  then have online: "runnerMayBeOnline (at_state a)" "at_machineId a \<noteq> None"
    using assms(3,4) attempts_okD [OF _ assms(2)] assms(1)
    by (cases "at_state a"; auto simp: terminal_state_def attempt_ok_def state_ok_def)+
  obtain b d1 where "retireAttempt now (i, a) RetireCancelled reason d = Inr (b, d1)" "state_ok d1"
    by (rule retireAttempt_ok [OF assms(1,2) online])
  then show ?thesis using assms(5) False by (simp add: endIdleAttempt_def)
qed

lemma cancelAttempt_ok:
  assumes ok: "state_ok d" and run: "cancelAttempt now profile name reason caller d = Inr d'"
  shows "state_ok d'"
proof -
  consider "d' = d" | i a ended d1 where "attempt_named name d = Inr (Some (i, a))"
    "\<not> terminal_state (at_state a)" "at_state a \<noteq> ARunning" "endIdleAttempt now (i, a) reason d = Inr (ended, d1)"
    "d' = (if ended = EndCancelled then runAfter AttemptTryAssign d1 else d1)"
    using run unfolding cancelAttempt_def
    by (auto elim!: res_bind_InrE split: option.split_asm if_split_asm prod.split_asm)
  then show ?thesis
  proof cases
    case (2 i a ended d1)
    from endIdleAttempt_ok [OF ok attempt_named_Some(1) [OF ok 2(1)] 2(2-4)] 2(5) show ?thesis by simp
  qed (use ok in simp)
qed

lemma completeRunnerCleanup_ok:
  assumes ok: "state_ok d" and run: "completeRunnerCleanup now profile name rid caller d = Inr (b, d')"
  shows "state_ok d'"
proof -
  consider "d' = d" | i a d1 where "attempt_named name d = Inr (Some (i, a))" "isRetiring a"
      "finishRetirement now (i, a) False d = Inr d1" "d' = runAfter AttemptTryAssign d1"
    | i a where "attempt_named name d = Inr (Some (i, a))" "\<not> isRetiring a"
      "d' = patch_attempt i (\<lambda>a. a\<lparr>at_runnerCleanupPending := None, at_retirement := None\<rparr>) d"
    using run unfolding completeRunnerCleanup_def
    by (auto elim!: res_bind_InrE split: option.split_asm if_split_asm)
  then show ?thesis
  proof cases
    case (2 i a d1)
    from finishRetirement_ok [OF ok attempt_named_Some(1) [OF ok 2(1)] 2(2), of now False] 2(3,4)
    show ?thesis by auto
  next
    case (3 i a)
    note row = attempt_named_Some(1) [OF ok 3(1)]
    show ?thesis unfolding 3(3)
    proof (rule state_ok_patch_attempt [OF ok row])
      show "active_attempt_state (at_state (a\<lparr>at_runnerCleanupPending := None, at_retirement := None\<rparr>)) \<or> no_secret i d"
        using ok row by (force simp: state_ok_def secrets_ok_def secret_live_def no_secret_def list_all_iff)
    qed (use attempts_okD [OF _ row] ok in \<open>auto simp: attempt_ok_def attempt_on_def state_ok_def\<close>)
  qed (use ok in simp)
qed

lemma terminal_state_active: "terminal_state s \<longleftrightarrow> \<not> active_attempt_state s"
  by (cases s) (auto simp: terminal_state_def)

lemma markJobStarted_ok:
  assumes ok: "state_ok d" and run: "markJobStarted now profile name args caller d = Inr d'"
  shows "state_ok d'"
proof -
  obtain i a where named: "attempt_named name d = Inr (Some (i, a))"
    and d': "d' = d \<or> d' = patch_attempt i (at_job_update (jm_headBranch_update (\<lambda>_. jm_headBranch args))) d \<or>
      \<not> terminal_state (at_state a) \<and> d' = patch_attempt i (\<lambda>r.
        (if at_state a = ARunning then r else keepForJob a r)
          \<lparr>at_state := ARunning, at_startedAt := Some (or_else (at_startedAt a) now),
           at_job := started_metadata args (at_job r)\<rparr>) d"
    using run unfolding markJobStarted_def by (auto elim!: res_bind_InrE split: option.split_asm if_split_asm)
  note row = attempt_named_Some(1) [OF ok named]
  have good: "attempt_ok a" using attempts_okD [OF _ row] ok by (auto simp: state_ok_def)
  from d' show ?thesis
  proof (elim disjE conjE)
    assume "d' = patch_attempt i (at_job_update (jm_headBranch_update (\<lambda>_. jm_headBranch args))) d"
    moreover have "active_attempt_state (at_state a) \<or> no_secret i d"
      using ok row by (force simp: state_ok_def secrets_ok_def secret_live_def no_secret_def list_all_iff)
    ultimately show ?thesis
      using state_ok_patch_attempt [OF ok row] good by (simp add: attempt_ok_def attempt_on_def)
  next
    assume live: "\<not> terminal_state (at_state a)"
    assume "d' = patch_attempt i (\<lambda>r. (if at_state a = ARunning then r else keepForJob a r)
          \<lparr>at_state := ARunning, at_startedAt := Some (or_else (at_startedAt a) now),
           at_job := started_metadata args (at_job r)\<rparr>) d"
    then show ?thesis
      using good live
      by (auto intro!: state_ok_patch_attempt [OF ok row]
          simp: attempt_ok_def attempt_on_def keepForJob_def terminal_state_active split: if_splits)
  qed (use ok in simp)
qed

lemma markJobCompleted_ok:
  assumes ok: "state_ok d" and run: "markJobCompleted now profile name rr job result finishedAt caller d = Inr d'"
  shows "state_ok d'"
proof -
  let ?f = "\<lambda>r. r\<lparr>at_state := ACompleted, at_jitConfig := None, at_runnerCleanupPending := None,
                  at_retirement := None,
                  at_job := (at_job r)\<lparr>jm_runnerRequestId := or_kept rr (jm_runnerRequestId (at_job r)),
                                       jm_jobId := or_kept job (jm_jobId (at_job r))\<rparr>,
                  at_result := or_kept result (at_result r), at_finishedAt := Some finishedAt\<rparr>"
  obtain i a d1 where named: "attempt_named name d = Inr (Some (i, a))"
    and d1: "deleteAttemptSecret i (if terminal_state (at_state a) then d else releaseAttemptSlot a d) = Inr d1"
    and d': "d' = runAfter AttemptTryAssign (patch_attempt i ?f d1)"
    using run unfolding markJobCompleted_def by (auto elim!: res_bind_InrE split: option.split_asm if_split_asm)
  note row = attempt_named_Some(1) [OF ok named]
  show ?thesis
  proof (cases "terminal_state (at_state a)")
    case True
    then have "d1 = drop_secret i d" using d1 secret_deleted [OF ok] by simp
    moreover have "state_ok (patch_attempt i ?f (drop_secret i d))"
      by (rule state_ok_patch_attempt [where a = a])
         (use ok row True in \<open>auto simp: attempt_ok_def attempt_on_def terminal_state_active\<close>)
    ultimately show ?thesis by (simp add: d')
  next
    case False
    then have "d1 = releaseMachineSlot (at_machineId a) (drop_secret i d)"
      using d1 secret_deleted_release [OF ok] by (simp add: releaseAttemptSlot_def)
    moreover have "state_ok (patch_attempt i ?f (releaseMachineSlot (at_machineId a) (drop_secret i d)))"
      by (rule state_ok_end_attempt)
         (use ok row False in \<open>auto simp: attempt_ok_def attempt_on_def terminal_state_active\<close>)
    ultimately show ?thesis by (simp add: d')
  qed
qed

lemma pauseProfile_ok:
  assumes ok: "state_ok d" and run: "pauseProfile now name caller d = Inr (b, d')"
  shows "state_ok d'"
proof -
  consider "d' = d" | i p where "profileFor name d = Inr (Some (i, p))"
    "d' = patch_profile i (\<lambda>p. p\<lparr>pf_state := Paused, pf_updatedAt := now\<rparr>) d"
    using run unfolding pauseProfile_def by (auto elim!: res_bind_InrE split: option.split_asm if_split_asm)
  then show ?thesis
  proof cases
    case (2 i p)
    note p = profileFor_Some [OF ok 2(1)]
    have "d' = patch_profile i (\<lambda>_. p\<lparr>pf_state := Paused, pf_updatedAt := now\<rparr>) d"
      unfolding 2(2) by (rule patch_profile_const) (use ok p in \<open>auto simp: db_ok_def\<close>)
    then show ?thesis using state_ok_patch_profile [OF ok p(1)] by simp
  qed (use ok in simp)
qed

lemma registration_value_name [simp]:
  "pf_name (registration_value now args existing) = rg_name args"
  "pf_state (registration_value now args existing) = Active"
  by (simp_all add: registration_value_def Let_def)

definition stored_registration :: "int \<Rightarrow> registration \<Rightarrow> (nat \<times> profile) option \<Rightarrow> db \<Rightarrow> db" where
  "stored_registration now args found d =
     (case found of
        None \<Rightarrow> insert_profile (registration_value now args None) d
      | Some (i, p) \<Rightarrow> patch_profile i (\<lambda>_. registration_value now args (Some p)) d)"

lemma stored_registration_ok:
  assumes ok: "state_ok d" and found: "profileFor (rg_name args) d = Inr found"
  shows "state_ok (stored_registration now args found d)"
proof (cases found)
  case None
  then show ?thesis using found profileFor_None
    by (auto simp: stored_registration_def intro!: state_ok_insert_profile [OF ok])
next
  case (Some x)
  then obtain i p where x: "found = Some (i, p)" by (cases x) auto
  note p = profileFor_Some [OF ok found [unfolded x]]
  show ?thesis using p by (auto simp: stored_registration_def x intro!: state_ok_patch_profile [OF ok])
qed

lemma registerProfile_cases:
  assumes "registerProfile now args caller d = Inr (r, d')"
  obtains (conflict) c where "r = Some c" "d' = d"
  | (stored) found where "profileFor (rg_name args) d = Inr found" "r = None"
      "fst (introducedLabelConflicts (map_option snd found)
         (registration_value now args (map_option snd found)) d) = []"
      "d' = stored_registration now args found d \<or>
       d' = runAfter AttemptTryAssign (stored_registration now args found d) \<or>
       (\<exists>p tally d2. retireOffPinForProfile now p (stored_registration now args found d) = Inr (tally, d2) \<and>
          d' = runAfter AttemptTryAssign d2)"
proof -
  obtain found where f: "profileFor (rg_name args) d = Inr found"
    using assms unfolding registerProfile_def by (elim res_bind_InrE)
  let ?v = "registration_value now args (map_option snd found)"
  let ?s = "stored_registration now args found d"
  show thesis
  proof (cases "fst (introducedLabelConflicts (map_option snd found) ?v d)")
    case (Cons c cs)
    then have "r = Some (lc_reason c) \<and> d' = d" using assms f unfolding registerProfile_def Let_def
      by (elim res_bind_InrE) auto
    then show thesis using conflict by blast
  next
    case Nil
    let ?id = "case found of None \<Rightarrow> d_nextId d | Some (i, _) \<Rightarrow> i"
    have "(case found of None \<Rightarrow> (d_nextId d, insert_profile ?v d) | Some (i, _) \<Rightarrow> (i, patch_profile i (\<lambda>_. ?v) d)) = (?id, ?s)"
      by (auto simp: stored_registration_def split: option.splits)
    then have "r = None \<and> (d' = ?s \<or> d' = runAfter AttemptTryAssign ?s \<or>
        (\<exists>p tally d2. retireOffPinForProfile now p ?s = Inr (tally, d2) \<and> d' = runAfter AttemptTryAssign d2))"
      using assms f Nil unfolding registerProfile_def Let_def
      by (elim res_bind_InrE) (auto elim!: res_bind_InrE split: if_split_asm option.split_asm prod.split_asm)
    then show thesis using stored f Nil by simp
  qed
qed

lemma registerProfile_ok:
  assumes ok: "state_ok d" and run: "registerProfile now args caller d = Inr (r, d')"
  shows "state_ok d'"
  using run
proof (cases rule: registerProfile_cases)
  case (stored found)
  have s: "state_ok (stored_registration now args found d)" by (rule stored_registration_ok [OF ok stored(1)])
  from stored(4) show ?thesis
  proof (elim disjE exE conjE)
    fix p tally d2
    assume r: "retireOffPinForProfile now p (stored_registration now args found d) = Inr (tally, d2)"
      "d' = runAfter AttemptTryAssign d2"
    from retireOffPinForProfile_ok [OF s, of now p] r show ?thesis by auto
  qed (use s in auto)
qed (use ok in simp)

lemma recordHeartbeat_ok:
  assumes ok: "state_ok d" and run: "recordHeartbeat now args caller d = Inr d'"
  shows "state_ok d'"
proof (rule state_ok_frame [OF ok])
qed (use run in \<open>auto simp: recordHeartbeat_def Let_def elim!: res_bind_InrE split: option.split_asm\<close>)

section \<open>Properties\<close>



subsection \<open>Label conflicts\<close>

definition active_profiles :: "db \<Rightarrow> profile list" where
  "active_profiles d = filter (\<lambda>p. pf_state p = Active) (map snd (d_profiles d))"

lemma retireAttempt_frame:
  assumes "retireAttempt now (i, a) outcome reason d = Inr (b, d')"
  shows "d_profiles d' = d_profiles d \<and> d_machines d' = d_machines d \<and>
    (\<forall>j. j \<noteq> i \<longrightarrow> db_get (d_attempts d') j = db_get (d_attempts d) j)"
  using assms
  by (auto simp: retireAttempt_def deleteAttemptSecret_def throw_if_Inr
      elim!: res_bind_InrE split: if_split_asm option.split_asm)

lemma retireIfOffPin_frame:
  assumes "retireIfOffPin now doc p m st = Inr st'"
  shows "d_profiles (snd st') = d_profiles (snd st) \<and>
    (\<forall>j. j \<noteq> fst doc \<longrightarrow> db_get (d_attempts (snd st')) j = db_get (d_attempts (snd st)) j)"
  using assms
  by (cases st; cases doc; cases p; cases m)
     (auto simp: retireIfOffPin_def releaseAttemptSlot_def Let_def dest: retireAttempt_frame
       elim!: res_bind_InrE split: if_split_asm)

lemma off_pin_of_profile_frame:
  assumes "off_pin_of_profile now p state st = Inr st'" "db_wf (d_attempts (snd st))"
    and "db_get (d_attempts (snd st)) k = Some a" "at_state a \<noteq> state"
  shows "db_get (d_attempts (snd st')) k = Some a"
  using assms(1) unfolding off_pin_of_profile_def
proof (rule res_fold_invariant [where I = "\<lambda>s. db_get (d_attempts (snd s)) k = Some a"])
  fix x s s'
  assume "x \<in> set (db_query (\<lambda>a. at_profile a = pf_name p \<and> at_state a = state) (d_attempts (snd st)))"
  then have "db_get (d_attempts (snd st)) (fst x) = Some (snd x)" "at_state (snd x) = state"
    using assms(2) by (simp_all add: db_query_def db_wf_get_iff)
  then have "fst x \<noteq> k" using assms(3,4) by auto
  moreover assume "db_get (d_attempts (snd s)) k = Some a"
    "(case at_machineId (snd x) of None \<Rightarrow> Inr s
      | Some m \<Rightarrow> retireIfOffPin now x (Some p) (db_get (d_machines (snd s)) m) s) = Inr s'"
  ultimately show "db_get (d_attempts (snd s')) k = Some a"
    using retireIfOffPin_frame [of now x "Some p" _ s s'] by (cases "at_machineId (snd x)") simp_all
qed (use assms(3) in simp)

lemma off_pin_of_profile_profiles:
  assumes "off_pin_of_profile now p state st = Inr st'"
  shows "d_profiles (snd st') = d_profiles (snd st)"
  using assms unfolding off_pin_of_profile_def
  by (rule res_fold_invariant [where I = "\<lambda>s. d_profiles (snd s) = d_profiles (snd st)"])
     (auto split: option.split_asm dest!: retireIfOffPin_frame)

lemma retireOffPinForProfile_frame:
  assumes ok: "state_ok d" and run: "retireOffPinForProfile now p d = Inr (tally, d')"
  shows "d_profiles d' = d_profiles d"
    and "db_get (d_attempts d) k = Some a \<Longrightarrow> at_state a \<notin> set IDLE_STATES \<Longrightarrow> db_get (d_attempts d') k = Some a"
proof -
  let ?I = "\<lambda>s. state_ok (snd s) \<and> d_profiles (snd s) = d_profiles d \<and>
    (db_get (d_attempts d) k = Some a \<longrightarrow> at_state a \<notin> set IDLE_STATES \<longrightarrow> db_get (d_attempts (snd s)) k = Some a)"
  have "?I st" if "res_fold (off_pin_of_profile now p) IDLE_STATES (no_pin_retirement, d) = Inr st" for st
    using that
  proof (rule res_fold_invariant [where I = ?I])
    fix x s s' assume x: "x \<in> set IDLE_STATES" and s: "?I s" and run: "off_pin_of_profile now p x s = Inr s'"
    have "state_ok (snd s')" using off_pin_of_profile_ok [OF x, of s now p] s run by auto
    then show "?I s'"
      using s x off_pin_of_profile_profiles [OF run] off_pin_of_profile_frame [OF run, of k a]
      by (auto simp: state_ok_def db_ok_def)
  qed (use ok in simp)
  with ok run show "d_profiles d' = d_profiles d"
    "db_get (d_attempts d) k = Some a \<Longrightarrow> at_state a \<notin> set IDLE_STATES \<Longrightarrow> db_get (d_attempts d') k = Some a"
    by (auto simp: retireOffPinForProfile_def split: if_split_asm)
qed

lemma stored_registration_rows:
  assumes ok: "state_ok d" and found: "profileFor (rg_name args) d = Inr found"
    and p: "p \<in> set (map snd (d_profiles (stored_registration now args found d)))"
  shows "p = registration_value now args (map_option snd found) \<or> p \<in> set (map snd (d_profiles d)) \<and> pf_name p \<noteq> rg_name args"
proof (cases found)
  case None
  then show ?thesis using p profileFor_None found
    by (force simp: stored_registration_def insert_profile_def db_insert_def)
next
  case (Some x)
  then obtain i e where x: "found = Some (i, e)" by (cases x) auto
  note e = profileFor_Some [OF ok found [unfolded x]]
  from p obtain k r where kr: "(k, r) \<in> set (d_profiles d)"
    "p = (if k = i then registration_value now args (Some e) else r)"
    by (auto simp: stored_registration_def x patch_profile_def set_db_patch)
  show ?thesis
  proof (cases "k = i")
    case False
    have "db_query (\<lambda>p. pf_name p = rg_name args) (d_profiles d) = [(i, e)]"
      using found x by (simp add: profileFor_def db_unique_Some)
    then have "(k, r) \<notin> set (db_query (\<lambda>p. pf_name p = rg_name args) (d_profiles d))" using False by simp
    then have "pf_name r \<noteq> rg_name args" using kr(1) by (simp add: db_query_iff)
    then show ?thesis using kr False by force
  qed (use kr x in simp)
qed

lemma scale_set_names: "ss_name (scale_set_of p) = pf_name p"
  by (simp add: scale_set_of_def)

lemma introduced_none:
  assumes "fst (introducedLabelConflicts existing v d) = []" "q \<in> set (active_profiles d)" "pf_name q \<noteq> pf_name v"
    and conflict: "scaleSetConflict (scale_set_of v) (scale_set_of q) \<noteq> None"
  obtains e q' where "existing = Some e" "pf_state e = Active" "q' \<in> set (active_profiles d)" "pf_name q' = pf_name q"
    "scaleSetConflict (scale_set_of e) (scale_set_of q') \<noteq> None"
proof -
  let ?others = "map (\<lambda>x. scale_set_of (snd x)) (filter (\<lambda>x. pf_name (snd x) \<noteq> pf_name v)
                   (db_query (\<lambda>p. pf_state p = Active) (d_profiles d)))"
  have "scale_set_of q \<in> set ?others" using assms(2,3) by (force simp: active_profiles_def db_query_def)
  moreover obtain r where "scaleSetConflict (scale_set_of v) (scale_set_of q) = Some r" using conflict by auto
  ultimately have "\<lparr>lc_profile = pf_name v, lc_other = pf_name q, lc_reason = r\<rparr> \<in> set (conflictsOf (scale_set_of v) ?others)"
    unfolding conflictsOf_other
    by (intro exI [of _ "scale_set_of q"] exI [of _ r] conjI) (simp_all only: scale_set_names)
  moreover have "\<forall>c \<in> set (conflictsOf (scale_set_of v) ?others). lc_other c \<in> set (case existing of None \<Rightarrow> []
      | Some p \<Rightarrow> if pf_state p \<noteq> Active then [] else map lc_other (conflictsOf (scale_set_of p) ?others))"
    using assms(1) by (simp add: introducedLabelConflicts_def Let_def filter_empty_conv)
  ultimately have "lc_other \<lparr>lc_profile = pf_name v, lc_other = pf_name q, lc_reason = r\<rparr> \<in> set (case existing of None \<Rightarrow> []
      | Some p \<Rightarrow> if pf_state p \<noteq> Active then [] else map lc_other (conflictsOf (scale_set_of p) ?others))"
    by (rule bspec [rotated])
  then obtain e where e: "existing = Some e" "pf_state e = Active"
    "pf_name q \<in> lc_other ` set (conflictsOf (scale_set_of e) ?others)"
    by (auto split: option.split_asm if_split_asm)
  then obtain c where "c \<in> set (conflictsOf (scale_set_of e) ?others)" "lc_other c = pf_name q" by auto
  then obtain s r' where s: "s \<in> set ?others" "scaleSetConflict (scale_set_of e) s = Some r'" "ss_name s = pf_name q"
    unfolding conflictsOf_other by (elim exE conjE) simp
  then obtain q' where "q' \<in> set (active_profiles d)" "s = scale_set_of q'"
    by (auto simp: active_profiles_def db_query_def)
  then show thesis using that e s by (simp add: scale_set_of_def)
qed

text \<open>C27: Registering a Profile never adds a scale-set label conflict: two active Profiles that conflict
  afterwards were both active and conflicted before. So a fleet without conflicts stays without.\<close>

theorem registerProfile_adds_no_conflict:
  assumes ok: "state_ok d" and run: "registerProfile now args caller d = Inr (r, d')"
    and p: "p \<in> set (active_profiles d')" and q: "q \<in> set (active_profiles d')"
    and conflict: "scaleSetConflict (scale_set_of p) (scale_set_of q) \<noteq> None"
  shows "\<exists>p0 \<in> set (active_profiles d). \<exists>q0 \<in> set (active_profiles d). pf_name p0 = pf_name p \<and>
    pf_name q0 = pf_name q \<and> scaleSetConflict (scale_set_of p0) (scale_set_of q0) \<noteq> None"
  using run
proof (cases rule: registerProfile_cases)
  case (stored found)
  let ?v = "registration_value now args (map_option snd found)"
  have sok: "state_ok (stored_registration now args found d)" by (rule stored_registration_ok [OF ok stored(1)])
  have "d_profiles d' = d_profiles (stored_registration now args found d)"
    using stored(4) retireOffPinForProfile_frame(1) [OF sok] by auto
  then have row: "x = ?v \<or> x \<in> set (active_profiles d) \<and> pf_name x \<noteq> rg_name args"
    if "x \<in> set (active_profiles d')" for x
    using that stored_registration_rows [OF ok stored(1), of x now] by (auto simp: active_profiles_def)
  have existing: "e \<in> set (active_profiles d)" "pf_name e = rg_name args"
    if e: "map_option snd found = Some e" "pf_state e = Active" for e
  proof -
    obtain i where "found = Some (i, e)" using e(1) by auto
    from profileFor_Some [OF ok stored(1) [unfolded this]] e(2) ok
    show "e \<in> set (active_profiles d)" "pf_name e = rg_name args"
      by (force simp: active_profiles_def dest: db_get_in_set)+
  qed
  have key: "\<exists>p0 \<in> set (active_profiles d). \<exists>q0 \<in> set (active_profiles d). pf_name p0 = rg_name args \<and>
      pf_name q0 = pf_name x \<and> scaleSetConflict (scale_set_of p0) (scale_set_of q0) \<noteq> None"
    if x: "x \<in> set (active_profiles d)" "pf_name x \<noteq> rg_name args"
      "scaleSetConflict (scale_set_of ?v) (scale_set_of x) \<noteq> None" for x
    using introduced_none [OF stored(3) x(1) _ x(3)] x(2) existing by (metis registration_value_name(1))
  from row [OF p] row [OF q] show ?thesis
  proof (elim disjE conjE)
    assume "p = ?v" "q = ?v"
    then show ?thesis using conflict scaleSetConflict_iff by blast
  next
    assume "p = ?v" "q \<in> set (active_profiles d)" "pf_name q \<noteq> rg_name args"
    then show ?thesis using key [of q] conflict by auto
  next
    assume pq: "p \<in> set (active_profiles d)" "pf_name p \<noteq> rg_name args" "q = ?v"
    then have "scaleSetConflict (scale_set_of ?v) (scale_set_of p) \<noteq> None"
      using conflict scaleSetConflict_sym by auto
    then show ?thesis using key [OF pq(1,2)] pq(3) scaleSetConflict_sym by (metis registration_value_name(1))
  qed (use conflict in blast)
qed (use p q conflict in blast)

definition sample_registration :: registration where
  "sample_registration =
     \<lparr>rg_name = ''p'', rg_scaleSetName = ''s'', rg_executor = Docker, rg_imageRelease = ''i'', rg_vcpus = 2,
      rg_memoryMiB = 4096, rg_warmPool = None, rg_fitPolicy = None, rg_minRunners = 0, rg_maxRunners = 4,
      rg_egress = None, rg_githubConfigUrl = None, rg_githubCacheFacts = None, rg_runnerGroup = None,
      rg_labels = None, rg_workerLabels = None\<rparr>"

definition old_conflict :: profile where
  "old_conflict = sample_profile\<lparr>pf_labels := Some [''q'']\<rparr>"

definition other_profile :: profile where
  "other_profile = sample_profile\<lparr>pf_name := ''q'', pf_scaleSetName := ''q''\<rparr>"

definition conflict_db :: db where
  "conflict_db = sample_db\<lparr>d_profiles := [(2, old_conflict), (6, other_profile)], d_nextId := 7\<rparr>"

theorem registerProfile_adds_no_conflict_witness:
  "\<exists>p0 \<in> set (active_profiles conflict_db). \<exists>q0 \<in> set (active_profiles conflict_db). pf_name p0 = ''p'' \<and>
    pf_name q0 = ''q'' \<and> scaleSetConflict (scale_set_of p0) (scale_set_of q0) \<noteq> None"
proof -
  let ?p = "registration_value 2000 sample_registration (Some old_conflict)"
  let ?d = "patch_profile 2 (\<lambda>_. ?p) conflict_db"
  have ok: "state_ok conflict_db" by code_simp
  have run: "registerProfile 2000 sample_registration None conflict_db = Inr (None, ?d)" by code_simp
  have "?p \<in> set (active_profiles ?d)" "other_profile \<in> set (active_profiles ?d)"
    "scaleSetConflict (scale_set_of ?p) (scale_set_of other_profile) \<noteq> None"
    "pf_name ?p = ''p''" "pf_name other_profile = ''q''" by code_simp+
  with registerProfile_adds_no_conflict [OF ok run, of ?p other_profile] show ?thesis by simp
qed

subsection \<open>Attempts\<close>

lemma endIdleAttempt_frame:
  assumes "endIdleAttempt now (i, a) reason d = Inr (ended, d')" "j \<noteq> i"
  shows "db_get (d_attempts d') j = db_get (d_attempts d) j"
  using assms
  by (auto simp: endIdleAttempt_def cancelUnclaimedAttempt_def deleteAttemptSecret_def releaseAttemptSlot_def throw_if_Inr
      elim!: res_bind_InrE split: if_split_asm option.split_asm dest: retireAttempt_frame)

lemma stored_registration_attempts [simp]:
  "d_attempts (stored_registration now args found d) = d_attempts d"
  by (auto simp: stored_registration_def insert_profile_def patch_profile_def split: option.splits)

text \<open>C26: Work that runs a job is never taken away by a scale-down or by a change of a Profile's pin: the
  row of a running Attempt is the same after \<open>cancelAttempt\<close> and after \<open>registerProfile\<close>, with every argument.\<close>

theorem running_attempt_kept:
  assumes ok: "state_ok d" and row: "db_get (d_attempts d) k = Some a" and running: "at_state a = ARunning"
    and run: "cancelAttempt now profile name reason caller d = Inr d' \<or> registerProfile now args caller d = Inr (r, d')"
  shows "db_get (d_attempts d') k = Some a"
  using run
proof
  assume "cancelAttempt now profile name reason caller d = Inr d'"
  then consider "d' = d" | i b ended d1 where "attempt_named name d = Inr (Some (i, b))" "at_state b \<noteq> ARunning"
    "endIdleAttempt now (i, b) reason d = Inr (ended, d1)" "d_attempts d' = d_attempts d1"
    unfolding cancelAttempt_def
    by (auto elim!: res_bind_InrE split: option.split_asm if_split_asm prod.split_asm)
  then show ?thesis
  proof cases
    case (2 i b ended d1)
    have "k \<noteq> i" using attempt_named_Some(1) [OF ok 2(1)] row running 2(2) by auto
    then show ?thesis using endIdleAttempt_frame [OF 2(3)] row 2(4) by simp
  qed (use row in simp)
next
  assume "registerProfile now args caller d = Inr (r, d')"
  then show ?thesis
  proof (cases rule: registerProfile_cases)
    case (stored found)
    have s: "state_ok (stored_registration now args found d)" by (rule stored_registration_ok [OF ok stored(1)])
    have "at_state a \<notin> set IDLE_STATES" using running by (simp add: IDLE_STATES_def)
    then show ?thesis
      using stored(4) retireOffPinForProfile_frame(2) [OF s, of now _ _ _ k a] row by auto
  qed (use row in simp)
qed

definition running_db :: db where
  "running_db = sample_db\<lparr>d_machines := [(1, sample_machine\<lparr>mc_usedSlots := 1\<rparr>)],
     d_attempts := [(4, sample_attempt\<lparr>at_state := ARunning, at_machineId := Some 1\<rparr>)], d_attemptSecrets := []\<rparr>"

theorem running_attempt_kept_witness:
  "db_get (d_attempts (runAfter AttemptTryAssign (patch_profile 2 (\<lambda>_. registration_value 2000
     (sample_registration\<lparr>rg_workerLabels := Some [''gpu'']\<rparr>) (Some sample_profile)) running_db))) 4 =
   Some (sample_attempt\<lparr>at_state := ARunning, at_machineId := Some 1\<rparr>)"
proof -
  have run: "registerProfile 2000 (sample_registration\<lparr>rg_workerLabels := Some [''gpu'']\<rparr>) None running_db =
    Inr (None, runAfter AttemptTryAssign (patch_profile 2 (\<lambda>_. registration_value 2000
      (sample_registration\<lparr>rg_workerLabels := Some [''gpu'']\<rparr>) (Some sample_profile)) running_db))"
    by code_simp
  show ?thesis
    by (rule running_attempt_kept [OF _ _ _ disjI2 [OF run]]) code_simp+
qed

lemma attempt_named_get:
  assumes "state_ok d" "db_get (d_attempts d) i = Some a"
  shows "attempt_named (at_runnerName a) d = Inr (Some (i, a))"
proof -
  have "filter (\<lambda>x. at_runnerName (snd x) = at_runnerName a) (d_attempts d) = [(i, a)]"
    by (rule filter_length_1_distinct)
       (use assms in \<open>auto simp: state_ok_def names_ok_def dest: db_get_in_set\<close>)
  then show ?thesis by (simp add: attempt_named_def db_query_def db_unique_def)
qed

text \<open>C25: Creating an Attempt is idempotent: the controller may repeat the request, at any later time, and
  nothing changes; there is one Attempt of that Runner name.\<close>

theorem createAttempt_idempotent:
  assumes ok: "state_ok d" and run: "createAttempt now args caller d = Inr d1"
    and auth: "authorize later (aq_profile args) caller d1 = Inr ()"
  shows "createAttempt later args caller d1 = Inr d1 \<and>
    length (db_query (\<lambda>a. at_runnerName a = aq_runnerName args) (d_attempts d1)) = 1"
proof -
  from run obtain j p where p: "profileFor (aq_profile args) d = Inr (Some (j, p))" "matches_contract p args"
    unfolding createAttempt_def by (elim res_bind_InrE) (auto split: option.split_asm if_split_asm)
  have "profileFor (aq_profile args) d1 = Inr (Some (j, p)) \<and>
      (\<exists>i a. attempt_named (aq_runnerName args) d1 = Inr (Some (i, a)) \<and> same_request a args)"
  proof (cases "attempt_named (aq_runnerName args) d")
    case (Inr found)
    have ok1: "state_ok d1" by (rule createAttempt_ok [OF ok run])
    show ?thesis
    proof (cases found)
      case None
      then have d1: "d1 = runAfter AttemptTryAssign (insert_secret \<lparr>as_attemptId = d_nextId d,
          as_jitConfig = aq_encodedJITConfig args, as_createdAt = now\<rparr> (insert_attempt (new_attempt now args) d))"
        using run p Inr unfolding createAttempt_def Let_def by (elim res_bind_InrE) (simp split: if_split_asm)
      have "ids_below (d_nextId d) (d_attempts d)" using ok by (auto simp: state_ok_def fresh_ok_split)
      then have "db_get (d_attempts d1) (d_nextId d) = Some (new_attempt now args)"
        by (simp add: d1 insert_secret_def insert_attempt_def)
      from attempt_named_get [OF ok1 this] show ?thesis
        using p(1) by (simp add: new_attempt_def same_request_def d1 insert_secret_def insert_attempt_def profileFor_def)
    next
      case (Some x)
      then show ?thesis using run p Inr unfolding createAttempt_def
        by (elim res_bind_InrE) (auto split: if_split_asm prod.split_asm)
    qed
  qed (use run p in \<open>auto simp: createAttempt_def elim!: res_bind_InrE\<close>)
  then show ?thesis using auth p(2)
    by (auto simp: createAttempt_def attempt_named_def db_unique_Some) (simp add: db_unique_def)
qed

definition sample_request :: attempt_request where
  "sample_request = \<lparr>aq_profile = ''p'', aq_executor = Docker, aq_imageRelease = ''i'', aq_vcpus = 2,
     aq_memoryMiB = 4096, aq_runnerName = ''r2'', aq_runnerId = 8, aq_encodedJITConfig = ''jit2''\<rparr>"

definition created_db :: db where
  "created_db = runAfter AttemptTryAssign (insert_secret \<lparr>as_attemptId = 6, as_jitConfig = ''jit2'', as_createdAt = 2000\<rparr>
     (insert_attempt (new_attempt 2000 sample_request) sample_db))"

lemma created_db_run: "createAttempt 2000 sample_request None sample_db = Inr created_db"
  by code_simp

lemma sample_state_ok: "state_ok sample_db"
  by code_simp

theorem createAttempt_idempotent_witness:
  "createAttempt 3000 sample_request None created_db = Inr created_db"
  using createAttempt_idempotent [OF sample_state_ok created_db_run, of 3000] by (simp add: authorize_def)

subsection \<open>The end of an Attempt\<close>

lemma claimed_attempt_retired:
  assumes ok: "state_ok d" and row: "db_get (d_attempts d) i = Some a"
    and claimed: "at_state a = APreparing \<or> at_state a = AReady"
    and run: "cancelAttempt now (at_profile a) (at_runnerName a) reason caller d = Inr d'"
  obtains a' where "db_get (d_attempts d') i = Some a'" "isRetiring a'" "at_state a' = at_state a"
    "at_machineId a' = at_machineId a" "at_runnerName a' = at_runnerName a" "at_profile a' = at_profile a"
    "at_startedAt a' = at_startedAt a" "at_runnerId a' = at_runnerId a" "d_machines d' = d_machines d"
    "at_runnerCleanupPending a' = Some True" "state_ok d'"
proof -
  have online: "runnerMayBeOnline (at_state a)" "\<not> terminal_state (at_state a)" "at_state a \<noteq> APending"
    "at_state a \<noteq> ARunning" using claimed by (auto simp: terminal_state_def)
  obtain b where "retireAttempt now (i, a) RetireCancelled reason d = Inr (b, d')"
    using run attempt_named_get [OF ok row] online unfolding cancelAttempt_def endIdleAttempt_def
    by (elim res_bind_InrE) (auto elim!: res_bind_InrE split: if_split_asm)
  then have d': "d' = (if at_retirement a \<noteq> None then d else patch_attempt i (\<lambda>a. a
        \<lparr>at_jitConfig := None, at_runnerCleanupPending := Some True,
         at_retirement := Some \<lparr>rt_outcome = RetireCancelled, rt_reason = take 500 reason,
                                rt_requestedAt = now\<rparr>\<rparr>) (drop_secret i d))"
    using retireAttempt_result [OF ok online(1)] by (auto split: if_split_asm)
  have "attempt_ok a" using attempts_okD [OF _ row] ok by (auto simp: state_ok_def)
  then show thesis
    using that row online d' cancelAttempt_ok [OF ok run]
    by (auto simp: isRetiring_def attempt_ok_def split: if_split_asm)
qed

lemma jobStarted_row:
  assumes ok: "state_ok d" and row: "db_get (d_attempts d) i = Some a" and live: "\<not> terminal_state (at_state a)"
    and idle: "at_state a \<noteq> ARunning"
    and run: "markJobStarted now profile (at_runnerName a) metadata caller d = Inr d'"
  obtains a' where "db_get (d_attempts d') i = Some a'" "at_state a' = ARunning" "at_retirement a' = None"
    "at_machineId a' = at_machineId a" "at_runnerName a' = at_runnerName a"
    "at_retirement a \<noteq> None \<Longrightarrow> at_runnerCleanupPending a' = None" "d_machines d' = d_machines d"
    "at_startedAt a' = Some (or_else (at_startedAt a) now)" "at_profile a = profile"
proof -
  have "at_profile a = profile"
    "d' = patch_attempt i (\<lambda>r. (keepForJob a r)\<lparr>at_state := ARunning,
            at_startedAt := Some (or_else (at_startedAt a) now), at_job := started_metadata metadata (at_job r)\<rparr>) d"
    using run attempt_named_get [OF ok row] live idle unfolding markJobStarted_def
    by (elim res_bind_InrE; auto split: if_split_asm)+
  then show thesis using that row by (cases "at_retirement a") (simp_all add: keepForJob_def)
qed

text \<open>C21: The race of a scale-down with a job: when GitHub hands a Runner a job while the scale-down retires
  it, the job wins. The Attempt runs on the Worker it had, its retirement is called off, and the controller's
  acknowledgement of the deletion, which comes later, changes nothing.\<close>

theorem job_wins_over_scale_down:
  assumes ok: "state_ok d" and row: "db_get (d_attempts d) i = Some a"
    and claimed: "at_state a = APreparing \<or> at_state a = AReady"
    and cancel: "cancelAttempt t1 (at_profile a) (at_runnerName a) reason c1 d = Inr d1"
    and started: "markJobStarted t2 (at_profile a) (at_runnerName a) metadata c2 d1 = Inr d2"
    and cleanup: "completeRunnerCleanup t3 (at_profile a) (at_runnerName a) runnerId c3 d2 = Inr (b, d3)"
  shows "d3 = d2 \<and> (\<exists>a2. db_get (d_attempts d2) i = Some a2 \<and> at_state a2 = ARunning \<and> at_retirement a2 = None \<and>
    at_machineId a2 = at_machineId a) \<and> d_machines d2 = d_machines d"
proof -
  obtain a1 where a1: "db_get (d_attempts d1) i = Some a1" "isRetiring a1" "at_state a1 = at_state a"
    "at_machineId a1 = at_machineId a" "at_runnerName a1 = at_runnerName a" "d_machines d1 = d_machines d" "state_ok d1"
    by (rule claimed_attempt_retired [OF ok row claimed cancel])
  have live: "\<not> terminal_state (at_state a1)" "at_state a1 \<noteq> ARunning" "at_retirement a1 \<noteq> None"
    using claimed a1(2,3) by (auto simp: terminal_state_def isRetiring_def)
  obtain a2 where a2: "db_get (d_attempts d2) i = Some a2" "at_state a2 = ARunning" "at_retirement a2 = None"
    "at_machineId a2 = at_machineId a1" "at_runnerName a2 = at_runnerName a1"
    "at_runnerCleanupPending a2 = None" "d_machines d2 = d_machines d1"
    using jobStarted_row [OF a1(7,1) live(1,2) started [folded a1(5)]] live(3) by metis
  have "state_ok d2" by (rule markJobStarted_ok [OF a1(7) started])
  from attempt_named_get [OF this a2(1)] have "d3 = d2"
    using cleanup a2(5,6) a1(5) unfolding completeRunnerCleanup_def
    by (elim res_bind_InrE) (auto split: if_split_asm)
  then show ?thesis using a1 a2 by simp
qed

text \<open>C22: A job that ended frees everything its Attempt held: the row is completed and no longer retiring, its
  secret is gone, and each Worker's used slots fall by one exactly if the Attempt held a slot there.\<close>

theorem markJobCompleted_frees:
  assumes ok: "state_ok d" and row: "db_get (d_attempts d) i = Some a"
    and run: "markJobCompleted now profile (at_runnerName a) request job result finishedAt caller d = Inr d'"
  shows "(\<exists>a'. db_get (d_attempts d') i = Some a' \<and> at_state a' = ACompleted \<and> at_retirement a' = None) \<and>
    no_secret i d' \<and>
    (\<forall>m before after. db_get (d_machines d) m = Some before \<longrightarrow> db_get (d_machines d') m = Some after \<longrightarrow>
       mc_usedSlots after = mc_usedSlots before - of_bool (attempt_on m a))"
proof -
  let ?f = "\<lambda>r. r\<lparr>at_state := ACompleted, at_jitConfig := None, at_runnerCleanupPending := None,
                  at_retirement := None,
                  at_job := (at_job r)\<lparr>jm_runnerRequestId := or_kept request (jm_runnerRequestId (at_job r)),
                                       jm_jobId := or_kept job (jm_jobId (at_job r))\<rparr>,
                  at_result := or_kept result (at_result r), at_finishedAt := Some finishedAt\<rparr>"
  let ?s = "drop_secret i d"
  have d': "d' = runAfter AttemptTryAssign (patch_attempt i ?f
      (if terminal_state (at_state a) then ?s else releaseMachineSlot (at_machineId a) ?s))"
    using run attempt_named_get [OF ok row] secret_deleted [OF ok] secret_deleted_release [OF ok]
    unfolding markJobCompleted_def releaseAttemptSlot_def
    by (elim res_bind_InrE) (simp split: if_split_asm)
  have "work_on m d' = work_on m (patch_attempt i ?f d)" for m
    by (rule work_on_cong) (simp_all add: d')
  then have work: "work_on m d' = work_on m d - of_bool (attempt_on m a)" for m
    using work_on_patch_attempt [OF state_okD(1) [OF ok] row, of m ?f] by (simp add: attempt_on_def)
  have "slots_ok d'" "db_ok d'" using markJobCompleted_ok [OF ok run] by auto
  then have "mc_usedSlots after = work_on m d'" if "db_get (d_machines d') m = Some after" for m after
    using that by (simp add: slots_ok_iff)
  moreover have "mc_usedSlots before = work_on m d" if "db_get (d_machines d) m = Some before" for m before
    using that ok slots_ok_iff by (auto simp: state_ok_def)
  moreover have "no_secret i d'" using no_secret_drop [of i d] by (simp add: d' no_secret_def)
  ultimately show ?thesis using row work by (simp add: d')
qed

definition ready_attempt :: attempt where
  "ready_attempt = sample_attempt\<lparr>at_state := AReady, at_machineId := Some 1\<rparr>"

definition ready_db :: db where
  "ready_db = running_db\<lparr>d_attempts := [(4, ready_attempt)]\<rparr>"

definition retiring_db :: db where
  "retiring_db = patch_attempt 4 (\<lambda>a. a\<lparr>at_runnerCleanupPending := Some True, at_retirement :=
     Some \<lparr>rt_outcome = RetireCancelled, rt_reason = ''idle'', rt_requestedAt = 2000\<rparr>\<rparr>) ready_db"

definition rescued_db :: db where
  "rescued_db = patch_attempt 4 (\<lambda>a. a\<lparr>at_state := ARunning, at_startedAt := Some 3000\<rparr>) ready_db"

lemma ready_db_facts:
  "state_ok ready_db" "db_get (d_attempts ready_db) 4 = Some ready_attempt"
  "cancelAttempt 2000 ''p'' ''r'' ''idle'' None ready_db = Inr retiring_db"
  "markJobStarted 3000 ''p'' ''r'' no_metadata None retiring_db = Inr rescued_db"
  "completeRunnerCleanup 4000 ''p'' ''r'' 7 None rescued_db = Inr (True, rescued_db)"
  "at_state ready_attempt = AReady" "at_profile ready_attempt = ''p''" "at_runnerName ready_attempt = ''r''"
  by code_simp+

theorem job_wins_over_scale_down_witness:
  "\<exists>a2. db_get (d_attempts rescued_db) 4 = Some a2 \<and> at_state a2 = ARunning \<and> at_retirement a2 = None \<and>
     at_machineId a2 = at_machineId ready_attempt"
  using job_wins_over_scale_down [OF ready_db_facts(1,2) disjI2 [OF ready_db_facts(6)], of 2000 "''idle''" None
      retiring_db 3000 no_metadata None rescued_db 4000 7 None True rescued_db]
  by (simp add: ready_db_facts)

theorem markJobCompleted_frees_witness:
  "\<exists>d'. markJobCompleted 5000 ''p'' ''r'' None None (Some ''succeeded'') 4900 None rescued_db = Inr d' \<and> no_secret 4 d'"
proof -
  obtain d' where run: "markJobCompleted 5000 ''p'' ''r'' None None (Some ''succeeded'') 4900 None rescued_db = Inr d'"
  proof -
    have "(case markJobCompleted 5000 ''p'' ''r'' None None (Some ''succeeded'') 4900 None rescued_db of
             Inl e \<Rightarrow> False | Inr d' \<Rightarrow> True)" by code_simp
    then show thesis using that by (auto split: sum.splits)
  qed
  have "state_ok rescued_db" by (rule markJobStarted_ok [OF _ ready_db_facts(4)]) code_simp
  moreover have "db_get (d_attempts rescued_db) 4 = Some (ready_attempt\<lparr>at_state := ARunning, at_startedAt := Some 3000\<rparr>)"
    by code_simp
  ultimately show ?thesis using markJobCompleted_frees [of rescued_db 4] run by (simp add: ready_db_facts)
qed

end
