(* ===== verification/WorkerApi.thy ===== *)
theory WorkerApi
  imports ControllerApi RunnerRelease "HOL-Library.Option_ord"
begin

text \<open>
  The functions a Worker calls (\<open>packages/backend/convex/workerApi.ts\<close>), the heartbeat of
  \<open>agentApi.ts\<close> and the operator's Experiments (\<open>experiments.ts\<close>). A Worker is known by its machine
  token; the operator's account check is the argument \<open>auth\<close>, the subject of an allowed account or
  the error. Chart and test uploads (\<open>reportAttemptMetrics\<close>, \<open>reportAttemptTests\<close>) write tables that
  nothing here reads and are left out.
\<close>

section \<open>Workers\<close>

definition completedExecutorDrainMs :: int where
  "completedExecutorDrainMs = 30000"

definition machineForToken :: "string \<Rightarrow> db \<Rightarrow> (nat \<times> machine) res" where
  "machineForToken token d =
     res_bind (db_unique (db_query (\<lambda>m. mc_token m = token) (d_machines d))) (\<lambda>machine.
       case machine of
         None \<Rightarrow> Inl (ConvexError ''Invalid machine token'')
       | Some x \<Rightarrow> Inr x)"

definition claimEgress :: "string \<Rightarrow> db \<Rightarrow> profile_egress res" where
  "claimEgress name d =
     res_bind (profileFor name d) (\<lambda>profile.
       Inr (profileEgressOf (Option.bind profile (\<lambda>x. pf_egress (snd x)))))"

record profile_spec =
  sp_profile :: string
  sp_executor :: executor
  sp_imageRelease :: string
  sp_vcpus :: int
  sp_memoryMiB :: int
  sp_warmPool :: int
  sp_egress :: profile_egress

fun compatibleExecutors :: "os \<Rightarrow> executor list" where
  "compatibleExecutors Linux = [Docker, Firecracker]"
| "compatibleExecutors Mac = [Tart]"
| "compatibleExecutors Win = [Hyperv]"

definition profiles_query ::
  "(string \<Rightarrow> string \<Rightarrow> int) \<Rightarrow> string \<Rightarrow> db \<Rightarrow> profile_spec list res" where
  "profiles_query localeCompare token d =
     res_bind (machineForToken token d) (\<lambda>(m, machine).
       Inr (map (\<lambda>p. \<lparr>sp_profile = pf_name p, sp_executor = pf_executor p,
                       sp_imageRelease = pf_imageRelease p, sp_vcpus = pf_vcpus p,
                       sp_memoryMiB = pf_memoryMiB p, sp_warmPool = or_else (pf_warmPool p) 0,
                       sp_egress = profileEgressOf (pf_egress p)\<rparr>)
              (js_sort (\<lambda>left right. localeCompare (pf_name left) (pf_name right))
                (filter (\<lambda>p. pf_executor p \<in> set (compatibleExecutors (mc_os machine)) \<and>
                             carriesHostLabels (pf_workerLabels p) (Some (mc_labels machine)))
                  (map snd (db_query (\<lambda>p. pf_state p = Active) (d_profiles d)))))))"

definition benchmark_of_machine :: "nat \<Rightarrow> machine \<Rightarrow> db \<Rightarrow> stored_benchmark option res" where
  "benchmark_of_machine m machine d =
     res_bind (db_unique (db_query (\<lambda>e. be_machineId e = m) (d_benchmarkEvidence d))) (\<lambda>evidence.
       Inr (case evidence of
              Some (_, e) \<Rightarrow> Some (be_benchmark e)
            | None \<Rightarrow> (case mc_benchmark machine of Some (FullBenchmark b) \<Rightarrow> Some b | _ \<Rightarrow> None)))"

definition slot_policy_of :: "machine \<Rightarrow> slot_policy" where
  "slot_policy_of machine = (if mc_slotPolicy machine = Some FixedSlots then FixedSlots else AutoSlots)"

definition configured_slots_of :: "machine \<Rightarrow> int option" where
  "configured_slots_of machine =
     (if slot_policy_of machine = FixedSlots
      then Some (or_else (mc_configuredSlots machine) (mc_maxSlots machine)) else None)"

definition reportHostFacts ::
  "int \<Rightarrow> string \<Rightarrow> string \<Rightarrow> js_number \<Rightarrow> js_number \<Rightarrow> db \<Rightarrow> ((int \<times> int) \<times> db) res" where
  "reportHostFacts now token arch cpus memoryMiB d =
     (if \<not> is_integer cpus \<or> int_val cpus < 1 \<or> \<not> is_integer memoryMiB \<or> int_val memoryMiB < 256 \<or>
         js_trim arch = []
      then Inl (ConvexError ''Invalid Worker host facts'')
      else res_bind (machineForToken token d) (\<lambda>(m, machine).
           res_bind (benchmark_of_machine m machine d) (\<lambda>benchmark.
             let resourceSlots = resourceRecommendedSlots (mc_os machine) (int_val cpus) (Some (int_val memoryMiB));
                 recommendedSlots = benchmarkRecommendedSlots resourceSlots benchmark now;
                 maxSlots = (if slot_policy_of machine = AutoSlots then recommendedSlots else mc_maxSlots machine)
             in Inr ((maxSlots, recommendedSlots),
                  runAfter AttemptTryAssign (patch_machine m (\<lambda>r. r
                    \<lparr>mc_arch := Some (js_trim arch), mc_cpus := Some (int_val cpus),
                     mc_memoryMiB := Some (int_val memoryMiB),
                     mc_slotPolicy := Some (slot_policy_of machine),
                     mc_configuredSlots := configured_slots_of machine,
                     mc_resourceRecommendedSlots := Some resourceSlots,
                     mc_recommendedSlots := Some recommendedSlots, mc_maxSlots := maxSlots\<rparr>) d)))))"

definition write_benchmark :: "nat \<Rightarrow> stored_benchmark \<Rightarrow> db \<Rightarrow> db res" where
  "write_benchmark m benchmark d =
     res_bind (db_unique (db_query (\<lambda>e. be_machineId e = m) (d_benchmarkEvidence d))) (\<lambda>existing.
       Inr (case existing of
              None \<Rightarrow> d\<lparr>d_benchmarkEvidence :=
                           db_insert (d_benchmarkEvidence d) (d_nextId d) \<lparr>be_machineId = m, be_benchmark = benchmark\<rparr>,
                         d_nextId := Suc (d_nextId d)\<rparr>
            | Some (i, _) \<Rightarrow> d\<lparr>d_benchmarkEvidence :=
                           db_patch (d_benchmarkEvidence d) i (\<lambda>e. e\<lparr>be_benchmark := benchmark\<rparr>)\<rparr>))"

definition reportBenchmark ::
  "int \<Rightarrow> string \<Rightarrow> benchmark_report \<Rightarrow> db \<Rightarrow> ((int \<times> int \<times> benchmark_scores) \<times> db) res" where
  "reportBenchmark now token report d =
     res_bind (machineForToken token d) (\<lambda>(m, machine).
     res_bind (normalizeBenchmark report now) (\<lambda>benchmark.
       let resourceSlots = (case (mc_cpus machine, mc_memoryMiB machine) of
                (Some cpus, Some memoryMiB) \<Rightarrow> resourceRecommendedSlots (mc_os machine) cpus (Some memoryMiB)
              | _ \<Rightarrow> or_else (mc_resourceRecommendedSlots machine)
                       (or_else (mc_recommendedSlots machine) (mc_maxSlots machine)));
           recommendedSlots = benchmarkRecommendedSlots resourceSlots (Some benchmark) now;
           configuredSlots = configured_slots_of machine;
           maxSlots = (if slot_policy_of machine = AutoSlots then recommendedSlots
                       else or_else configuredSlots (mc_maxSlots machine))
       in res_bind (write_benchmark m benchmark d) (\<lambda>d1.
            Inr ((maxSlots, recommendedSlots, sb_scores benchmark),
              runAfter AttemptTryAssign (patch_machine m (\<lambda>r. r
                \<lparr>mc_benchmark := Some (SummaryBenchmark (summary_of (FullBenchmark benchmark))),
                 mc_slotPolicy := Some (slot_policy_of machine),
                 mc_configuredSlots := configuredSlots,
                 mc_resourceRecommendedSlots := Some resourceSlots,
                 mc_recommendedSlots := Some recommendedSlots, mc_maxSlots := maxSlots\<rparr>) d1)))))"

section \<open>Work lists\<close>

text \<open>The index \<open>by_machine_state_finishedAt\<close> yields the rows of one state by \<open>finishedAt\<close>, absent first.\<close>

definition owned_in_state :: "nat \<Rightarrow> attempt_state \<Rightarrow> db \<Rightarrow> attempt docs" where
  "owned_in_state m state d =
     sort_key (\<lambda>x. at_finishedAt (snd x))
       (db_query (\<lambda>a. at_machineId a = Some m \<and> at_state a = state) (d_attempts d))"

definition pendingAttempts ::
  "int \<Rightarrow> string \<Rightarrow> db \<Rightarrow> (int \<times> (nat \<times> string) list \<times> nat list) res" where
  "pendingAttempts now token d =
     res_bind (machineForToken token d) (\<lambda>(m, machine).
       let owned = concat (map (\<lambda>state. owned_in_state m state d) activeAttemptStates) @
                   filter (\<lambda>x. case at_finishedAt (snd x) of
                                 None \<Rightarrow> False | Some t \<Rightarrow> t > now - completedExecutorDrainMs)
                     (owned_in_state m ACompleted d)
       in Inr (mc_maxSlots machine,
               map (\<lambda>x. (fst x, at_runnerName (snd x))) (filter (\<lambda>x. at_state (snd x) = APending) owned),
               map fst (filter (\<lambda>x. active_attempt_state (at_state (snd x)) \<or>
                                    at_state (snd x) = ACompleted \<and> at_executorFinishedAt (snd x) = None) owned)))"

definition liveExperimentStates :: "experiment_state list" where
  "liveExperimentStates = [EQueued, EPreparing, ERunning]"

definition pendingExperiments ::
  "string \<Rightarrow> db \<Rightarrow> (int \<times> (nat \<times> string) list \<times> nat list) res" where
  "pendingExperiments token d =
     res_bind (machineForToken token d) (\<lambda>(m, machine).
       let owned = concat (map (\<lambda>state. db_query (\<lambda>e. ex_machineId e = Some m \<and> ex_state e = state)
                                 (d_experiments d)) liveExperimentStates)
       in Inr (mc_maxSlots machine,
               map (\<lambda>x. (fst x, ex_name (snd x))) (filter (\<lambda>x. ex_state (snd x) = EQueued) owned),
               map fst (filter (\<lambda>x. active_experiment_state (ex_state (snd x))) owned)))"

section \<open>Experiments\<close>

record experiment_claim =
  ec_name :: string
  ec_profile :: string
  ec_executor :: executor
  ec_imageRelease :: string
  ec_vcpus :: int
  ec_memoryMiB :: int
  ec_command :: "string list"
  ec_timeoutSeconds :: int
  ec_egress :: profile_egress

definition claimExperiment :: "int \<Rightarrow> string \<Rightarrow> nat \<Rightarrow> db \<Rightarrow> (experiment_claim option \<times> db) res" where
  "claimExperiment now token experimentId d =
     res_bind (machineForToken token d) (\<lambda>(m, _).
       case db_get (d_experiments d) experimentId of
         None \<Rightarrow> Inr (None, d)
       | Some e \<Rightarrow>
           if ex_machineId e \<noteq> Some m \<or> ex_state e \<noteq> EQueued then Inr (None, d)
           else let d1 = patch_experiment experimentId (\<lambda>r. r\<lparr>ex_state := EPreparing, ex_claimedAt := Some now\<rparr>) d
                in res_bind (claimEgress (ex_profile e) d1) (\<lambda>egress.
                     Inr (Some \<lparr>ec_name = ex_name e, ec_profile = ex_profile e, ec_executor = Firecracker,
                                ec_imageRelease = ex_imageRelease e, ec_vcpus = ex_vcpus e,
                                ec_memoryMiB = ex_memoryMiB e, ec_command = ex_command e,
                                ec_timeoutSeconds = ex_timeoutSeconds e, ec_egress = egress\<rparr>, d1)))"

definition markExperimentRunning :: "int \<Rightarrow> string \<Rightarrow> nat \<Rightarrow> db \<Rightarrow> (bool \<times> db) res" where
  "markExperimentRunning now token experimentId d =
     res_bind (machineForToken token d) (\<lambda>(m, _).
       case db_get (d_experiments d) experimentId of
         None \<Rightarrow> Inr (False, d)
       | Some e \<Rightarrow>
           if ex_machineId e \<noteq> Some m \<or> ex_state e \<noteq> EPreparing then Inr (False, d)
           else Inr (True, patch_experiment experimentId
                       (\<lambda>r. r\<lparr>ex_state := ERunning, ex_startedAt := Some now\<rparr>) d))"

definition reportExperiment :: "int \<Rightarrow> string \<Rightarrow> nat \<Rightarrow> js_number \<Rightarrow> db \<Rightarrow> (bool \<times> db) res" where
  "reportExperiment now token experimentId exitCode d =
     throw_if (\<not> is_integer exitCode) (ConvexError ''Exit code must be an integer'')
     (res_bind (machineForToken token d) (\<lambda>(m, _).
       case db_get (d_experiments d) experimentId of
         None \<Rightarrow> Inr (False, d)
       | Some e \<Rightarrow>
           if ex_machineId e \<noteq> Some m then Inr (False, d)
           else if \<not> active_experiment_state (ex_state e) then Inr (True, d)
           else let code = int_val exitCode
                in Inr (True, runAfter AttemptTryAssign
                     (patch_experiment experimentId (\<lambda>r. r
                        \<lparr>ex_state := (if code = 0 then ECompleted else EFailed), ex_exitCode := Some code,
                         ex_finishedAt := Some now,
                         ex_lastError := (if code = 0 then None
                                          else Some (''Experiment exited with code '' @ show_int code))\<rparr>)
                       (releaseMachineSlot (ex_machineId e) d)))))"

text \<open>The number of bytes \<open>TextEncoder\<close> encodes a string to.\<close>

definition utf8_length :: "string \<Rightarrow> nat" where
  "utf8_length s = sum_list (map (\<lambda>c. if code_of c < 128 then 1 else 2) s)"

definition validateCommand :: "string list \<Rightarrow> unit res" where
  "validateCommand command =
     throw_if (length command < 1 \<or> length command > 32 \<or> sum_list (map utf8_length command) > 16 * 1024)
       (ConvexError ''Experiment command must contain 1-32 arguments and fit within 16 KiB'')
     (throw_if (list_ex (\<lambda>v. v = [] \<or> char_of (0 :: nat) \<in> set v) command)
       (ConvexError ''Experiment command arguments must be non-empty and contain no NUL bytes'') (Inr ()))"

definition experiments_create ::
  "int \<Rightarrow> string res \<Rightarrow> string \<Rightarrow> string \<Rightarrow> string list \<Rightarrow> js_number \<Rightarrow> db \<Rightarrow> (nat \<times> db) res" where
  "experiments_create now auth name profile command timeoutSeconds d =
     res_bind auth (\<lambda>subject.
       let name = js_trim name
       in throw_if (length name < 1 \<or> length name > 80)
            (ConvexError ''Experiment name must contain 1-80 characters'')
          (res_bind (validateCommand command) (\<lambda>_.
           throw_if (\<not> is_integer timeoutSeconds \<or> int_val timeoutSeconds < 1 \<or> int_val timeoutSeconds > 21600)
            (ConvexError ''Experiment timeout must be between 1 and 21600 seconds'')
          (res_bind (profileFor profile d) (\<lambda>found.
             case found of
               None \<Rightarrow> Inl (ConvexError ''Experiment Profile is not active'')
             | Some (_, p) \<Rightarrow>
                 throw_if (pf_state p \<noteq> Active) (ConvexError ''Experiment Profile is not active'')
                (throw_if (pf_executor p \<noteq> Firecracker)
                   (ConvexError ''Experiments currently require a Linux Firecracker Profile'')
                (Inr (d_nextId d, runAfter AttemptTryAssign
                   (d\<lparr>d_experiments := db_insert (d_experiments d) (d_nextId d)
                        \<lparr>ex_name = name, ex_profile = pf_name p, ex_imageRelease = pf_imageRelease p,
                         ex_vcpus = pf_vcpus p, ex_memoryMiB = pf_memoryMiB p, ex_command = command,
                         ex_timeoutSeconds = int_val timeoutSeconds, ex_state = EQueued,
                         ex_machineId = None, ex_selectionReason = None, ex_createdBy = subject,
                         ex_createdAt = now, ex_claimedAt = None, ex_startedAt = None,
                         ex_finishedAt = None, ex_exitCode = None, ex_lastError = None\<rparr>,
                      d_nextId := Suc (d_nextId d)\<rparr>)))))))))"

definition experiments_cancel :: "int \<Rightarrow> string res \<Rightarrow> nat \<Rightarrow> db \<Rightarrow> (bool \<times> db) res" where
  "experiments_cancel now auth experimentId d =
     res_bind auth (\<lambda>_.
       case db_get (d_experiments d) experimentId of
         None \<Rightarrow> Inr (False, d)
       | Some e \<Rightarrow>
           if \<not> active_experiment_state (ex_state e) then Inr (True, d)
           else Inr (True, runAfter AttemptTryAssign
                  (patch_experiment experimentId (\<lambda>r. r
                     \<lparr>ex_state := ECancelled, ex_finishedAt := Some now,
                      ex_lastError := Some ''Cancelled by operator''\<rparr>)
                    (releaseMachineSlot (ex_machineId e) d))))"

section \<open>Attempts\<close>

record attempt_claim =
  ac_runnerName :: string
  ac_profile :: string
  ac_executor :: executor
  ac_imageRelease :: string
  ac_vcpus :: int
  ac_memoryMiB :: int
  ac_jitConfig :: string
  ac_egress :: profile_egress

definition claimAttempt :: "int \<Rightarrow> string \<Rightarrow> nat \<Rightarrow> db \<Rightarrow> (attempt_claim option \<times> db) res" where
  "claimAttempt now token attemptId d =
     res_bind (machineForToken token d) (\<lambda>(m, _).
       case db_get (d_attempts d) attemptId of
         None \<Rightarrow> Inr (None, d)
       | Some a \<Rightarrow>
           if at_machineId a \<noteq> Some m \<or> at_state a \<noteq> APending then Inr (None, d)
           else res_bind (db_unique (db_query (\<lambda>s. as_attemptId s = attemptId) (d_attemptSecrets d))) (\<lambda>secret.
             case (case secret of Some (_, s) \<Rightarrow> Some (as_jitConfig s) | None \<Rightarrow> at_jitConfig a) of
               None \<Rightarrow> Inr (None, d)
             | Some jitConfig \<Rightarrow>
                 (let d1 = (case secret of Some (k, _) \<Rightarrow> delete_secret_row k d | None \<Rightarrow> d);
                      d2 = patch_attempt attemptId (\<lambda>r. r
                             \<lparr>at_state := APreparing, at_claimedAt := Some now, at_jitConfig := None\<rparr>) d1
                  in res_bind (claimEgress (at_profile a) d2) (\<lambda>egress.
                       Inr (Some \<lparr>ac_runnerName = at_runnerName a, ac_profile = at_profile a,
                                  ac_executor = at_executor a, ac_imageRelease = at_imageRelease a,
                                  ac_vcpus = at_vcpus a, ac_memoryMiB = at_memoryMiB a,
                                  ac_jitConfig = jitConfig, ac_egress = egress\<rparr>, d2)))))"

definition markReady :: "int \<Rightarrow> string \<Rightarrow> nat \<Rightarrow> db \<Rightarrow> (bool \<times> db) res" where
  "markReady now token attemptId d =
     res_bind (machineForToken token d) (\<lambda>(m, _).
       case db_get (d_attempts d) attemptId of
         None \<Rightarrow> Inr (False, d)
       | Some a \<Rightarrow>
           if at_machineId a \<noteq> Some m \<or> at_state a \<noteq> APreparing then Inr (False, d)
           else Inr (True, patch_attempt attemptId (\<lambda>r. r\<lparr>at_state := AReady, at_readyAt := Some now\<rparr>) d))"

definition runnerOutlivesExecutor :: "attempt \<Rightarrow> int \<Rightarrow> bool" where
  "runnerOutlivesExecutor attempt exitCode \<longleftrightarrow>
     at_state attempt \<noteq> ARunning \<or> exitCode \<noteq> 0 \<or> at_retirement attempt \<noteq> None"

record runner_exit =
  rx_exitCode :: js_number
  rx_ranJob :: bool
  rx_diagnostic :: "string option"

definition MAX_RUNNER_DIAGNOSTIC_CHARS :: nat where
  "MAX_RUNNER_DIAGNOSTIC_CHARS = 300"

definition is_control :: "char \<Rightarrow> bool" where
  "is_control c \<longleftrightarrow> code_of c < 32 \<or> 127 \<le> code_of c \<and> code_of c \<le> 159"

definition bounded_diagnostic :: "string option \<Rightarrow> string" where
  "bounded_diagnostic diagnostic =
     take MAX_RUNNER_DIAGNOSTIC_CHARS
       (js_trim (map (\<lambda>c. if is_control c then CHR '' '' else c) (or_else diagnostic '''')))"

definition joblessRunnerFailure :: "attempt_state \<Rightarrow> runner_exit option \<Rightarrow> string option" where
  "joblessRunnerFailure state runnerExit =
     (case runnerExit of
        None \<Rightarrow> None
      | Some x \<Rightarrow>
          if rx_ranJob x \<or> state = ARunning then None
          else let diagnostic = bounded_diagnostic (rx_diagnostic x)
               in Some (''GitHub runner exited with code '' @ show_int (int_val (rx_exitCode x)) @
                        '' without taking a job'' @ (if diagnostic = [] then [] else '': '' @ diagnostic)))"

definition write_egress :: "int \<Rightarrow> nat \<Rightarrow> nat \<times> attempt \<Rightarrow> egress_record option \<Rightarrow> db \<Rightarrow> db res" where
  "write_egress now m doc egress d =
     (case egress of
        None \<Rightarrow> Inr d
      | Some r \<Rightarrow>
          res_bind (db_unique (db_query (\<lambda>e. ae_attemptId e = fst doc) (d_attemptEgress d))) (\<lambda>existing.
            let row = \<lparr>ae_attemptId = fst doc, ae_machineId = m, ae_profile = at_profile (snd doc),
                       ae_recordedAt = now, ae_record = boundedEgressRecord r\<rparr>
            in Inr (case existing of
                      None \<Rightarrow> d\<lparr>d_attemptEgress := db_insert (d_attemptEgress d) (d_nextId d) row,
                                 d_nextId := Suc (d_nextId d)\<rparr>
                    | Some (i, _) \<Rightarrow> d\<lparr>d_attemptEgress := db_patch (d_attemptEgress d) i (\<lambda>_. row)\<rparr>)))"

definition settle_retiring :: "int \<Rightarrow> int \<Rightarrow> retirement \<Rightarrow> attempt \<Rightarrow> attempt" where
  "settle_retiring now exitCode retirement r =
     (let b = r\<lparr>at_state := outcome_state (rt_outcome retirement), at_jitConfig := None,
               at_executorFinishedAt := Some now, at_executorExitCode := Some exitCode,
               at_finishedAt := Some now, at_runnerCleanupPending := Some True, at_retirement := None\<rparr>
      in case rt_outcome retirement of
           RetireCancelled \<Rightarrow> b\<lparr>at_cancelReason := Some (rt_reason retirement)\<rparr>
         | RetireFailed \<Rightarrow> b\<lparr>at_lastError := Some (rt_reason retirement)\<rparr>)"

definition settle_exited :: "int \<Rightarrow> int \<Rightarrow> runner_exit option \<Rightarrow> attempt \<Rightarrow> attempt \<Rightarrow> attempt" where
  "settle_exited now exitCode runnerExit attempt r =
     (let runnerFailure = joblessRunnerFailure (at_state attempt) runnerExit
      in r\<lparr>at_state := (if exitCode = 0 \<and> runnerFailure = None then ACompleted else AFailed),
           at_jitConfig := None, at_executorFinishedAt := Some now, at_executorExitCode := Some exitCode,
           at_finishedAt := Some now,
           at_lastError := (case runnerFailure of
                              Some f \<Rightarrow> Some f
                            | None \<Rightarrow> if exitCode = 0 then None
                                      else Some (''Executor exited with code '' @ show_int exitCode)),
           at_runnerCleanupPending := (if runnerOutlivesExecutor attempt exitCode then Some True else None),
           at_retirement := None\<rparr>)"

definition reportAttempt ::
  "int \<Rightarrow> string \<Rightarrow> nat \<Rightarrow> js_number \<Rightarrow> egress_record option \<Rightarrow> runner_exit option \<Rightarrow> db \<Rightarrow> (bool \<times> db) res" where
  "reportAttempt now token attemptId exitCode egress runnerExit d =
     throw_if (\<not> is_integer exitCode) (ConvexError ''Exit code must be an integer'')
     (throw_if (case runnerExit of
                  None \<Rightarrow> False
                | Some x \<Rightarrow> \<not> (is_integer (rx_exitCode x) \<and> 0 \<le> int_val (rx_exitCode x) \<and> int_val (rx_exitCode x) \<le> 255))
       (ConvexError ''runnerExit exit code must be an integer from 0 to 255'')
     (res_bind (machineForToken token d) (\<lambda>(m, _).
       case db_get (d_attempts d) attemptId of
         None \<Rightarrow> Inr (False, d)
       | Some a \<Rightarrow>
           if at_machineId a \<noteq> Some m then Inr (False, d)
           else res_bind (write_egress now m (attemptId, a) egress d) (\<lambda>d1.
             if terminal_state (at_state a)
             then res_bind (deleteAttemptSecret attemptId d1) (\<lambda>d2.
                    Inr (True, patch_attempt attemptId (\<lambda>r. r
                      \<lparr>at_jitConfig := None, at_executorFinishedAt := Some now,
                       at_executorExitCode := Some (int_val exitCode)\<rparr>) d2))
             else res_bind (deleteAttemptSecret attemptId (releaseAttemptSlot a d1)) (\<lambda>d2.
                    Inr (True, runAfter AttemptTryAssign (patch_attempt attemptId
                      (case at_retirement a of
                         Some retirement \<Rightarrow>
                           if at_state a \<noteq> ARunning then settle_retiring now (int_val exitCode) retirement
                           else settle_exited now (int_val exitCode) runnerExit a
                       | None \<Rightarrow> settle_exited now (int_val exitCode) runnerExit a) d2)))))))"

section \<open>Readiness\<close>

record readiness_report =
  rp_profile :: string
  rp_executor :: executor
  rp_imageRelease :: string
  rp_vcpus :: "int option"
  rp_memoryMiB :: "int option"
  rp_state :: readiness_state
  rp_statusDetail :: "string option"
  rp_error :: "string option"
  rp_facts :: readiness_facts

definition report_matches :: "profile \<Rightarrow> readiness_report \<Rightarrow> bool" where
  "report_matches p args \<longleftrightarrow>
     pf_state p = Active \<and> pf_executor p = rp_executor args \<and> pf_imageRelease p = rp_imageRelease args \<and>
     rp_vcpus args \<in> {None, Some (pf_vcpus p)} \<and> rp_memoryMiB args \<in> {None, Some (pf_memoryMiB p)} \<and>
     \<not> (or_else (pf_warmPool p) 0 > 0 \<and> (rp_vcpus args = None \<or> rp_memoryMiB args = None)) \<and>
     (case rf_warmPool (rp_facts args) of
        None \<Rightarrow> True | Some w \<Rightarrow> wp_target w = js_int (or_else (pf_warmPool p) 0)) \<and>
     \<not> (rp_state args = Ready \<and> or_else (pf_warmPool p) 0 > 0 \<and> rf_warmPool (rp_facts args) = None)"

definition same_readiness_contract :: "profile \<Rightarrow> readiness_report \<Rightarrow> worker_readiness \<Rightarrow> bool" where
  "same_readiness_contract p args existing \<longleftrightarrow>
     rr_executor existing = rp_executor args \<and> rr_imageRelease existing = rp_imageRelease args \<and>
     or_else (rr_vcpus existing) (pf_vcpus p) = pf_vcpus p \<and>
     or_else (rr_memoryMiB existing) (pf_memoryMiB p) = pf_memoryMiB p \<and>
     (case rf_warmPool (rr_facts existing) of None \<Rightarrow> js_int 0 | Some w \<Rightarrow> wp_target w) =
       js_int (or_else (pf_warmPool p) 0)"

definition readiness_value ::
  "int \<Rightarrow> nat \<Rightarrow> profile \<Rightarrow> readiness_report \<Rightarrow> worker_readiness option \<Rightarrow> worker_readiness" where
  "readiness_value now m p args existing =
     (let sameContract = (case existing of None \<Rightarrow> False | Some e \<Rightarrow> same_readiness_contract p args e);
          preparedAt = (if rp_state args = Ready then Some now
                        else if sameContract then Option.bind existing wr_preparedAt else None);
          state = (if rp_state args = ReadinessFailed \<and> preparedAt \<noteq> None then Degraded else rp_state args)
      in \<lparr>rr_machineId = m, rr_profile = rp_profile args, rr_executor = rp_executor args,
          rr_imageRelease = rp_imageRelease args, rr_vcpus = rp_vcpus args, rr_memoryMiB = rp_memoryMiB args,
          rr_checkedAt = now,
          rr_facts = \<lparr>rf_isolation = None, rf_boundary = None, rf_checks = None, rf_cacheScope = None,
             rf_cacheSharedWritable = None, rf_hardware = None,
             rf_storage = map_option (\<lambda>s. \<lparr>st_snapshotter = None, st_poolName = None,
                                            st_poolTotalMiB = st_poolTotalMiB s, st_poolFreeMiB = st_poolFreeMiB s\<rparr>)
                            (rf_storage (rp_facts args)),
             rf_network = None,
             rf_warmPool = (case rf_warmPool (rp_facts args) of
                              Some w \<Rightarrow> Some w
                            | None \<Rightarrow> if sameContract then Option.bind existing (\<lambda>e. rf_warmPool (rr_facts e)) else None),
             rf_runnerVersion = Option.bind existing (\<lambda>e. rf_runnerVersion (rr_facts e))\<rparr>,
          wr_state = state, wr_preparedAt = preparedAt, wr_statusDetail = None, wr_lastError = None\<rparr>)"

definition evidence_value ::
  "int \<Rightarrow> nat \<Rightarrow> readiness_report \<Rightarrow> readiness_evidence option \<Rightarrow> readiness_evidence" where
  "evidence_value now m args existing =
     \<lparr>rr_machineId = m, rr_profile = rp_profile args, rr_executor = rp_executor args,
      rr_imageRelease = rp_imageRelease args, rr_vcpus = rp_vcpus args, rr_memoryMiB = rp_memoryMiB args,
      rr_checkedAt = now,
      rr_facts = (rp_facts args)
        \<lparr>rf_checks := map_option (take 32) (rf_checks (rp_facts args)),
         rf_runnerVersion :=
           (case runnerVersionOf (rf_runnerVersion (rp_facts args)) of
              Some v \<Rightarrow> Some v
            | None \<Rightarrow> Option.bind existing (\<lambda>e. if rr_imageRelease e = rp_imageRelease args
                                                then rf_runnerVersion (rr_facts e) else None))\<rparr>,
      re_statusDetail = map_option (take 1000) (rp_statusDetail args),
      re_lastError = map_option (take 1000) (rp_error args)\<rparr>"

definition write_readiness :: "(nat \<times> worker_readiness) option \<Rightarrow> worker_readiness \<Rightarrow> db \<Rightarrow> db" where
  "write_readiness existing row d =
     (case existing of
        None \<Rightarrow> d\<lparr>d_workerReadiness := db_insert (d_workerReadiness d) (d_nextId d) row, d_nextId := Suc (d_nextId d)\<rparr>
      | Some (i, _) \<Rightarrow> d\<lparr>d_workerReadiness := db_patch (d_workerReadiness d) i (\<lambda>_. row)\<rparr>)"

definition write_evidence :: "(nat \<times> readiness_evidence) option \<Rightarrow> readiness_evidence \<Rightarrow> db \<Rightarrow> db" where
  "write_evidence existing row d =
     (case existing of
        None \<Rightarrow> d\<lparr>d_readinessEvidence := db_insert (d_readinessEvidence d) (d_nextId d) row, d_nextId := Suc (d_nextId d)\<rparr>
      | Some (i, _) \<Rightarrow> d\<lparr>d_readinessEvidence := db_patch (d_readinessEvidence d) i (\<lambda>_. row)\<rparr>)"

definition reportReadiness ::
  "int \<Rightarrow> string \<Rightarrow> readiness_report \<Rightarrow> db \<Rightarrow> (readiness_state \<times> db) res" where
  "reportReadiness now token args d =
     res_bind (machineForToken token d) (\<lambda>(m, machine).
     res_bind (profileFor (rp_profile args) d) (\<lambda>found.
       case found of
         None \<Rightarrow> Inl (ConvexError ''Readiness does not match an active Profile contract'')
       | Some (_, p) \<Rightarrow>
           throw_if (\<not> report_matches p args)
             (ConvexError ''Readiness does not match an active Profile contract'')
          (let missing = missingHostLabels (pf_workerLabels p) (Some (mc_labels machine))
           in throw_if (length missing > 0)
                (ConvexError (''Readiness refused: '' @ missingHostLabelsDetail missing))
             (res_bind (assertReadinessContract (rp_state args) (rp_executor args) (rp_facts args)
                          (profileEgressOf (pf_egress p))) (\<lambda>_.
              res_bind (readinessFor m (rp_profile args) d) (\<lambda>existing.
              res_bind (db_unique (db_query (\<lambda>e. rr_machineId e = m \<and> rr_profile e = rp_profile args)
                          (d_readinessEvidence d))) (\<lambda>existingEvidence.
                let row = readiness_value now m p args (map_option snd existing);
                    d1 = write_readiness existing row d;
                    d2 = write_evidence existingEvidence
                           (evidence_value now m args (map_option snd existingEvidence)) d1
                in Inr (wr_state row, if rp_state args = Ready then runAfter AttemptTryAssign d2 else d2))))))))"

section \<open>Heartbeat\<close>

definition heartbeat :: "int \<Rightarrow> string \<Rightarrow> db \<Rightarrow> ((os \<times> int) \<times> db) res" where
  "heartbeat now token d =
     res_bind (machineForToken token d) (\<lambda>(m, machine).
       let d1 = (if workerReports machine now then d else snd (keepRunningAttemptsOfReturningWorker m d));
           d2 = patch_machine m (\<lambda>r. r\<lparr>mc_lastSeen := now\<rparr>) d1
       in Inr ((mc_os machine, mc_maxSlots machine),
               runAfter AttemptTryAssign (runAfter (LegacyTryAssign 0) d2)))"

section \<open>The state invariant\<close>

lemma machineForToken_Some:
  assumes "db_ok d" "machineForToken token d = Inr (m, row)"
  shows "db_get (d_machines d) m = Some row" "mc_token row = token"
proof -
  have "db_unique (db_query (\<lambda>m. mc_token m = token) (d_machines d)) = Inr (Some (m, row))"
    using assms(2) by (auto simp: machineForToken_def elim!: res_bind_InrE split: option.split_asm)
  from db_unique_query_Some [OF _ this] assms(1) show "db_get (d_machines d) m = Some row" "mc_token row = token"
    by (auto simp: db_ok_def)
qed

lemma state_ok_patch_machine:
  assumes ok: "state_ok d" and "\<And>r. mc_usedSlots (f r) = mc_usedSlots r"
  shows "state_ok (patch_machine m f d)"
proof -
  have "slots_ok (patch_machine m f d)" using ok assms(2) by (intro slots_ok_patch_machine_same) auto
  then show ?thesis using ok
    by (auto simp: state_ok_def attempts_ok_def names_ok_def secrets_ok_def secret_live_def profiles_ok_def)
qed

lemma state_ok_patch_experiment:
  assumes ok: "state_ok d" and row: "db_get (d_experiments d) i = Some e"
    and same: "\<And>m. experiment_on m (f e) = experiment_on m e"
  shows "state_ok (patch_experiment i f d)"
proof -
  have "slots_ok (patch_experiment i f d)" using ok row same by (intro slots_ok_patch_experiment_same) auto
  then show ?thesis using ok
    by (auto simp: state_ok_def attempts_ok_def names_ok_def secrets_ok_def secret_live_def profiles_ok_def)
qed

lemma state_ok_end_experiment:
  assumes ok: "state_ok d" and row: "db_get (d_experiments d) i = Some e"
    and live: "active_experiment_state (ex_state e)" and mid: "ex_machineId e = mid"
    and ends: "\<And>m. \<not> experiment_on m (f e)"
  shows "state_ok (patch_experiment i f (releaseMachineSlot mid d))"
proof -
  let ?d = "releaseMachineSlot mid d"
  have "slots_ok (patch_experiment i f ?d)" using ok row live ends unfolding mid [symmetric]
    by (intro slots_ok_end_experiment) auto
  moreover have "attempts_ok ?d" "names_ok ?d" "secrets_ok ?d" "profiles_ok ?d" "fresh_ok ?d"
    using ok by (auto simp: attempts_ok_def names_ok_def secrets_ok_def secret_live_def fresh_ok_def
        profiles_ok_def state_ok_def releaseMachineSlot_def split: option.splits)
  ultimately show ?thesis using ok
    by (auto simp: state_ok_def attempts_ok_def names_ok_def secrets_ok_def secret_live_def profiles_ok_def)
qed

lemma state_ok_insert_experiment:
  assumes ok: "state_ok d" and "ex_machineId e = None"
  shows "state_ok (d\<lparr>d_experiments := db_insert (d_experiments d) (d_nextId d) e, d_nextId := Suc (d_nextId d)\<rparr>)"
    (is "state_ok ?d")
proof -
  have fresh: "ids_below (d_nextId d) (d_experiments d)" using ok by (auto simp: state_ok_def fresh_ok_split)
  have "work_on m ?d = work_on m d" for m
    using assms(2) unfolding work_on_def
    by (simp del: db_ids_simps add: tb.count_add [OF ids_below_fresh [OF fresh]] experiment_on_def [of m e])
  then have "slots_ok ?d" using slots_ok_frame [OF state_okD(2) [OF ok], of ?d] by simp
  then show ?thesis using ok
    by (auto simp: state_ok_def db_ok_def attempts_ok_def names_ok_def secrets_ok_def secret_live_def
        profiles_ok_def fresh_ok_split)
qed

lemmas handler_cases = option.split_asm if_split_asm prod.split_asm

lemma reportHostFacts_ok:
  "state_ok d \<Longrightarrow> reportHostFacts now token arch cpus memory d = Inr (r, d') \<Longrightarrow> state_ok d'"
  by (auto simp: reportHostFacts_def Let_def elim!: res_bind_InrE split: handler_cases
      intro!: state_ok_patch_machine)

lemma write_benchmark_ok: "state_ok d \<Longrightarrow> write_benchmark m b d = Inr d' \<Longrightarrow> state_ok d'"
  by (rule state_ok_frame [of d]) (auto simp: write_benchmark_def elim!: res_bind_InrE split: handler_cases)

lemma reportBenchmark_ok:
  "state_ok d \<Longrightarrow> reportBenchmark now token report d = Inr (r, d') \<Longrightarrow> state_ok d'"
  unfolding reportBenchmark_def Let_def
  by (elim res_bind_InrE) (auto elim!: res_bind_InrE dest: write_benchmark_ok intro!: state_ok_patch_machine)

lemma claimExperiment_ok:
  "state_ok d \<Longrightarrow> claimExperiment now token i d = Inr (r, d') \<Longrightarrow> state_ok d'"
  by (auto simp: claimExperiment_def Let_def experiment_on_def elim!: res_bind_InrE split: handler_cases
      intro!: state_ok_patch_experiment)

lemma markExperimentRunning_ok:
  "state_ok d \<Longrightarrow> markExperimentRunning now token i d = Inr (r, d') \<Longrightarrow> state_ok d'"
  by (auto simp: markExperimentRunning_def experiment_on_def elim!: res_bind_InrE split: handler_cases
      intro!: state_ok_patch_experiment)

lemma reportExperiment_ok:
  assumes ok: "state_ok d" and run: "reportExperiment now token i code d = Inr (r, d')"
  shows "state_ok d'"
proof -
  let ?f = "\<lambda>r. r\<lparr>ex_state := (if int_val code = 0 then ECompleted else EFailed), ex_exitCode := Some (int_val code),
                  ex_finishedAt := Some now,
                  ex_lastError := (if int_val code = 0 then None
                                   else Some (''Experiment exited with code '' @ show_int (int_val code)))\<rparr>"
  consider "d' = d" | e where "db_get (d_experiments d) i = Some e" "active_experiment_state (ex_state e)"
    "d' = runAfter AttemptTryAssign (patch_experiment i ?f (releaseMachineSlot (ex_machineId e) d))"
    using run unfolding reportExperiment_def throw_if_Inr Let_def
    by (auto elim!: res_bind_InrE split: option.split_asm if_split_asm)
  then show ?thesis
  proof cases
    case (2 e)
    have "state_ok (patch_experiment i ?f (releaseMachineSlot (ex_machineId e) d))"
      by (rule state_ok_end_experiment [OF ok 2(1,2) refl]) (simp add: experiment_on_def)
    then show ?thesis by (simp add: 2(3))
  qed (use ok in simp)
qed

lemma experiments_create_ok:
  "state_ok d \<Longrightarrow> experiments_create now auth name profile command timeout d = Inr (i, d') \<Longrightarrow> state_ok d'"
  by (auto simp: experiments_create_def throw_if_Inr Let_def elim!: res_bind_InrE split: handler_cases
      intro!: state_ok_insert_experiment)

lemma experiments_cancel_ok:
  "state_ok d \<Longrightarrow> experiments_cancel now auth i d = Inr (r, d') \<Longrightarrow> state_ok d'"
  by (auto simp: experiments_cancel_def experiment_on_def elim!: res_bind_InrE split: handler_cases
      intro!: state_ok_end_experiment)

lemma claimAttempt_cases:
  assumes ok: "state_ok d" and run: "claimAttempt now token i d = Inr (r, d')"
  obtains (none) "r = None" "d' = d"
  | (claimed) m row a c where "machineForToken token d = Inr (m, row)" "db_get (d_attempts d) i = Some a"
      "at_machineId a = Some m" "at_state a = APending" "r = Some c" "ac_runnerName c = at_runnerName a"
      "d' = patch_attempt i (\<lambda>r. r\<lparr>at_state := APreparing, at_claimedAt := Some now, at_jitConfig := None\<rparr>)
              (drop_secret i d)"
proof -
  from run obtain m row where m: "machineForToken token d = Inr (m, row)"
    unfolding claimAttempt_def by (auto elim!: res_bind_InrE)
  obtain s where s: "db_unique (db_query (\<lambda>s. as_attemptId s = i) (d_attemptSecrets d)) = Inr s"
    "(case s of Some (k, _) \<Rightarrow> delete_secret_row k d | None \<Rightarrow> d) = drop_secret i d"
    using secret_deleted [OF ok, of i] unfolding deleteAttemptSecret_def
    by (elim res_bind_InrE) (auto split: option.split_asm)
  show thesis
  proof (cases "db_get (d_attempts d) i")
    case None
    then show thesis using none run m by (simp add: claimAttempt_def)
  next
    case (Some a)
    show thesis
    proof (cases "at_machineId a = Some m \<and> at_state a = APending")
      case False
      then show thesis using none run m Some by (auto simp: claimAttempt_def)
    next
      case True
      show thesis using run m Some True s none claimed [OF m Some]
        by (auto simp: claimAttempt_def Let_def elim!: res_bind_InrE split: option.split_asm)
    qed
  qed
qed

lemma claimAttempt_ok:
  assumes ok: "state_ok d" and run: "claimAttempt now token i d = Inr (r, d')"
  shows "state_ok d'"
  using ok run
proof (cases rule: claimAttempt_cases)
  case (claimed m row a c)
  note good = attempts_okD [OF state_okD(3) [OF ok] claimed(2)]
  show ?thesis unfolding claimed(7)
    by (rule state_ok_patch_attempt [where a = a])
       (use ok claimed good in \<open>auto simp: attempt_ok_def attempt_on_def\<close>)
qed (use ok in simp)

lemma markReady_ok:
  assumes ok: "state_ok d" and run: "markReady now token i d = Inr (r, d')"
  shows "state_ok d'"
proof -
  consider "d' = d" | a where "db_get (d_attempts d) i = Some a" "at_state a = APreparing"
    "d' = patch_attempt i (\<lambda>r. r\<lparr>at_state := AReady, at_readyAt := Some now\<rparr>) d"
    using run by (auto simp: markReady_def elim!: res_bind_InrE split: handler_cases)
  then show ?thesis
  proof cases
    case (2 a)
    note good = attempts_okD [OF state_okD(3) [OF ok] 2(1)]
    show ?thesis unfolding 2(3)
      by (rule state_ok_patch_attempt [OF ok 2(1)]) (use 2 good in \<open>auto simp: attempt_ok_def attempt_on_def\<close>)
  qed (use ok in simp)
qed

lemma write_egress_tables:
  assumes "write_egress now m doc egress d = Inr d'"
  shows "d_machines d' = d_machines d" "d_attempts d' = d_attempts d" "d_experiments d' = d_experiments d"
    "d_jobs d' = d_jobs d" "d_attemptSecrets d' = d_attemptSecrets d" "d_profiles d' = d_profiles d"
    "d_nextId d \<le> d_nextId d'"
  using assms by (auto simp: write_egress_def Let_def elim!: res_bind_InrE split: handler_cases)

lemma write_egress_ok: "state_ok d \<Longrightarrow> write_egress now m doc egress d = Inr d' \<Longrightarrow> state_ok d'"
  using state_ok_frame write_egress_tables by metis

definition settle_attempt :: "int \<Rightarrow> int \<Rightarrow> runner_exit option \<Rightarrow> attempt \<Rightarrow> attempt \<Rightarrow> attempt" where
  "settle_attempt now code runnerExit a =
     (case at_retirement a of
        Some retirement \<Rightarrow> if at_state a \<noteq> ARunning then settle_retiring now code retirement
                           else settle_exited now code runnerExit a
      | None \<Rightarrow> settle_exited now code runnerExit a)"

lemma settle_attempt_facts:
  "\<not> active_attempt_state (at_state (settle_attempt now code x a r))"
  "at_jitConfig (settle_attempt now code x a r) = None" "at_retirement (settle_attempt now code x a r) = None"
  "at_runnerName (settle_attempt now code x a r) = at_runnerName r"
  by (auto simp: settle_attempt_def settle_retiring_def settle_exited_def Let_def split: option.splits retirement_outcome.splits)

lemma settle_attempt_ok: "attempt_ok (settle_attempt now code x a r)"
  using settle_attempt_facts [of now code x a r] by (auto simp: attempt_ok_def)

lemma reportAttempt_cases:
  assumes "reportAttempt now token i code egress x d = Inr (r, d')"
  obtains (foreign) "r = False" "d' = d"
  | (over) m row a d1 d2 where "machineForToken token d = Inr (m, row)" "db_get (d_attempts d) i = Some a"
      "at_machineId a = Some m" "terminal_state (at_state a)" "write_egress now m (i, a) egress d = Inr d1"
      "deleteAttemptSecret i d1 = Inr d2" "r = True"
      "d' = patch_attempt i (\<lambda>r. r\<lparr>at_jitConfig := None, at_executorFinishedAt := Some now,
                                   at_executorExitCode := Some (int_val code)\<rparr>) d2"
  | (settled) m row a d1 d2 where "machineForToken token d = Inr (m, row)" "db_get (d_attempts d) i = Some a"
      "at_machineId a = Some m" "\<not> terminal_state (at_state a)" "write_egress now m (i, a) egress d = Inr d1"
      "deleteAttemptSecret i (releaseAttemptSlot a d1) = Inr d2" "r = True"
      "d' = runAfter AttemptTryAssign (patch_attempt i (settle_attempt now (int_val code) x a) d2)"
proof -
  from assms obtain m row where m: "machineForToken token d = Inr (m, row)"
    unfolding reportAttempt_def throw_if_Inr by (auto elim!: res_bind_InrE)
  note run = assms [unfolded reportAttempt_def throw_if_Inr m res_bind_simps prod.case]
  show thesis
  proof (cases "db_get (d_attempts d) i")
    case None
    then show thesis using foreign run by simp
  next
    case (Some a)
    show thesis
    proof (cases "at_machineId a = Some m")
      case False
      then show thesis using foreign run Some by simp
    next
      case True
      then obtain d1 where d1: "write_egress now m (i, a) egress d = Inr d1" using run Some by (auto elim!: res_bind_InrE)
      show thesis
      proof (cases "terminal_state (at_state a)")
        case over_state: True
        then show thesis using run Some True d1 over [OF m Some True over_state d1] by (auto elim!: res_bind_InrE)
      next
        case live: False
        then show thesis using run Some True d1 settled [OF m Some True live d1]
          by (auto simp: settle_attempt_def elim!: res_bind_InrE)
      qed
    qed
  qed
qed

lemma reportAttempt_ok:
  assumes ok: "state_ok d" and run: "reportAttempt now token i code egress x d = Inr (r, d')"
  shows "state_ok d'"
  using run
proof (cases rule: reportAttempt_cases)
  case (over m row a d1 d2)
  have ok1: "state_ok d1" by (rule write_egress_ok [OF ok over(5)])
  have row: "db_get (d_attempts d1) i = Some a" using over(2) write_egress_tables [OF over(5)] by simp
  have "d2 = drop_secret i d1" using over(6) secret_deleted [OF ok1] by simp
  then show ?thesis unfolding over(8)
    using attempts_okD [OF state_okD(3) [OF ok1] row] over(4) row
    by (auto intro!: state_ok_patch_attempt [OF state_ok_drop_secret [OF ok1, of i]]
        simp: attempt_ok_def attempt_on_def terminal_state_active)
next
  case (settled m row a d1 d2)
  have ok1: "state_ok d1" by (rule write_egress_ok [OF ok settled(5)])
  have row: "db_get (d_attempts d1) i = Some a" using settled(2) write_egress_tables [OF settled(5)] by simp
  have d2: "d2 = releaseMachineSlot (at_machineId a) (drop_secret i d1)"
    using settled(6) secret_deleted_release [OF ok1] by (simp add: releaseAttemptSlot_def)
  have "state_ok (patch_attempt i (settle_attempt now (int_val code) x a) d2)" unfolding d2
    by (rule state_ok_end_attempt)
       (use ok1 row settled(4) in \<open>auto simp: settle_attempt_facts settle_attempt_ok attempt_on_def terminal_state_active\<close>)
  then show ?thesis by (simp add: settled(8))
qed (use ok in simp)

lemma reportReadiness_ok:
  "state_ok d \<Longrightarrow> reportReadiness now token args d = Inr (r, d') \<Longrightarrow> state_ok d'"
  by (rule state_ok_frame [of d])
     (auto simp: reportReadiness_def throw_if_Inr Let_def write_readiness_def write_evidence_def
       elim!: res_bind_InrE split: handler_cases)

lemma res_fold_Inr: "res_fold (\<lambda>x s. Inr (f x s)) xs s = Inr (fold f xs s)"
  by (induction xs arbitrary: s) auto

text \<open>The fold form of \<open>res_fold_rows\<close>.\<close>

lemma fold_rows:
  assumes "distinct (map fst docs)" "\<forall>(i, a) \<in> set docs. db_get (tab s) i = Some a" "I s"
    and "\<And>i a s. (i, a) \<in> set docs \<Longrightarrow> I s \<Longrightarrow> db_get (tab s) i = Some a \<Longrightarrow>
      I (f (i, a) s) \<and> (\<forall>j. j \<noteq> i \<longrightarrow> db_get (tab (f (i, a) s)) j = db_get (tab s) j)"
  shows "I (fold f docs s)"
  using res_fold_rows [where f = "\<lambda>x s. Inr (f x s)" and tab = tab and I = I, OF assms(1-3)] assms(4) by (simp add: res_fold_Inr)

lemma keepRunningAttempts_ok:
  assumes ok: "state_ok d"
  shows "state_ok (snd (keepRunningAttemptsOfReturningWorker m d))"
  unfolding keepRunningAttemptsOfReturningWorker_def
proof (rule fold_rows [where tab = "\<lambda>s. d_attempts (snd s)" and I = "\<lambda>s. state_ok (snd s)"])
  let ?docs = "db_query (\<lambda>a. at_machineId a = Some m \<and> at_state a = ARunning) (d_attempts d)"
  show "distinct (map fst ?docs)" "\<forall>(i, a) \<in> set ?docs. db_get (d_attempts (snd (0 :: nat, d))) i = Some a"
    using query_rows [of "d_attempts d"] ok by (auto simp: state_ok_def db_ok_def)
  fix i a and s :: "nat \<times> db"
  assume "state_ok (snd s)" "db_get (d_attempts (snd s)) i = Some a"
  from keepForReturningWorker_ok [OF this]
  show "state_ok (snd (case s of (kept, d) \<Rightarrow> let (k, d') = keepForReturningWorker (i, a) d in (if k then kept + 1 else kept, d'))) \<and>
    (\<forall>j. j \<noteq> i \<longrightarrow> db_get (d_attempts (snd (case s of (kept, d) \<Rightarrow>
       let (k, d') = keepForReturningWorker (i, a) d in (if k then kept + 1 else kept, d')))) j = db_get (d_attempts (snd s)) j)"
    by (cases s) (auto simp: keepForReturningWorker_def split: if_splits)
qed (use ok in simp)

lemma heartbeat_ok:
  "state_ok d \<Longrightarrow> heartbeat now token d = Inr (r, d') \<Longrightarrow> state_ok d'"
  by (auto simp: heartbeat_def Let_def keepRunningAttempts_ok elim!: res_bind_InrE
      intro!: state_ok_patch_machine split: if_split_asm)

section \<open>Properties\<close>

subsection \<open>Readiness\<close>

lemma firecrackerReadinessError_version [simp]:
  "firecrackerReadinessError (facts\<lparr>rf_runnerVersion := v\<rparr>) egress = firecrackerReadinessError facts egress"
  by (simp add: firecrackerReadinessError_def firecracker_problems_def storage_field_def network_field_def Let_def)

lemma few_checks:
  "length (or_else (rf_checks facts) []) \<le> 32 \<Longrightarrow> facts\<lparr>rf_checks := map_option (take 32) (rf_checks facts)\<rparr> = facts"
  by (cases "rf_checks facts") (auto intro!: readiness_facts.equality)

lemma evidence_facts_ok:
  assumes "length (or_else (rf_checks (rp_facts args)) []) \<le> 32"
  shows "firecrackerReadinessError (rr_facts (evidence_value now m args existing)) egress =
    firecrackerReadinessError (rp_facts args) egress"
  using few_checks [OF assms] by (simp add: evidence_value_def)

lemma stored_row_in:
  assumes "existing = None \<or> (\<exists>i r. existing = Some (i, r) \<and> (i, r) \<in> set (d_workerReadiness d))"
  shows "row \<in> snd ` set (d_workerReadiness (write_readiness existing row d))"
proof (cases existing)
  case (Some x)
  then obtain i r where "existing = Some (i, r)" "(i, r) \<in> set (d_workerReadiness d)" using assms by auto
  then have "(i, row) \<in> set (d_workerReadiness (write_readiness existing row d))"
    by (auto simp: write_readiness_def set_db_patch)
  then show ?thesis by force
qed (simp add: write_readiness_def db_insert_def)

lemma stored_evidence_in:
  assumes "existing = None \<or> (\<exists>i r. existing = Some (i, r) \<and> (i, r) \<in> set (d_readinessEvidence d))"
  shows "row \<in> snd ` set (d_readinessEvidence (write_evidence existing row d))"
proof (cases existing)
  case (Some x)
  then obtain i r where "existing = Some (i, r)" "(i, r) \<in> set (d_readinessEvidence d)" using assms by auto
  then have "(i, row) \<in> set (d_readinessEvidence (write_evidence existing row d))"
    by (auto simp: write_evidence_def set_db_patch)
  then show ?thesis by force
qed (simp add: write_evidence_def db_insert_def)

lemma write_tables [simp]:
  "d_readinessEvidence (write_readiness x row d) = d_readinessEvidence d"
  "d_workerReadiness (write_evidence y ev d) = d_workerReadiness d"
  by (auto simp: write_readiness_def write_evidence_def split: option.splits)

lemma reportReadinessE:
  assumes "reportReadiness now token args d = Inr (s, d')" "machineForToken token d = Inr (m, machine)"
    "profileFor (rp_profile args) d = Inr (Some (k, p))"
  obtains existing existingEvidence where
    "report_matches p args" "missingHostLabels (pf_workerLabels p) (Some (mc_labels machine)) = []"
    "assertReadinessContract (rp_state args) (rp_executor args) (rp_facts args) (profileEgressOf (pf_egress p)) = Inr ()"
    "readinessFor m (rp_profile args) d = Inr existing"
    "db_unique (db_query (\<lambda>e. rr_machineId e = m \<and> rr_profile e = rp_profile args) (d_readinessEvidence d)) = Inr existingEvidence"
    "s = wr_state (readiness_value now m p args (map_option snd existing))"
    "d' = (let d2 = write_evidence existingEvidence (evidence_value now m args (map_option snd existingEvidence))
                      (write_readiness existing (readiness_value now m p args (map_option snd existing)) d)
           in if rp_state args = Ready then runAfter AttemptTryAssign d2 else d2)"
  using assms unfolding reportReadiness_def Let_def
  by (auto elim!: handlerE) blast

lemma unique_found:
  "db_unique (db_query P t) = Inr existing \<Longrightarrow> existing = None \<or> (\<exists>i r. existing = Some (i, r) \<and> (i, r) \<in> set t)"
  by (cases existing) (auto simp: db_unique_Some db_query_def filter_eq_Cons_iff)


definition sample_report :: readiness_report where
  "sample_report = \<lparr>rp_profile = ''p'', rp_executor = Docker, rp_imageRelease = ''i'', rp_vcpus = Some 2,
     rp_memoryMiB = Some 4096, rp_state = Ready, rp_statusDetail = None, rp_error = None, rp_facts = no_facts\<rparr>"

lemma sample_report_run:
  "\<exists>d'. reportReadiness 2000 ''t'' sample_report sample_db = Inr (Ready, d')"
proof -
  have "(case reportReadiness 2000 ''t'' sample_report sample_db of Inl e \<Rightarrow> False | Inr (s, d') \<Rightarrow> s = Ready)"
    by code_simp
  then show ?thesis by (auto split: sum.splits)
qed


subsection \<open>The end of an Attempt\<close>

lemma settle_attempt_cleanup:
  "\<not> (at_state a = ARunning \<and> code = 0 \<and> at_retirement a = None) \<Longrightarrow>
   at_runnerCleanupPending (settle_attempt now code x a r) = Some True"
  by (auto simp: settle_attempt_def settle_retiring_def settle_exited_def runnerOutlivesExecutor_def Let_def
      split: option.splits retirement_outcome.splits)



subsection \<open>Slots\<close>

text \<open>Slot recommendations are bounded by the hardware: a Worker's host facts always yield between 1 and 16
  recommended slots, an automatic Worker gets exactly these, and an operator's fixed choice is never changed.\<close>

lemma reportHostFacts_slots:
  assumes ok: "state_ok d" and m: "machineForToken token d = Inr (m, machine)"
    and run: "reportHostFacts now token arch cpus memory d = Inr ((maxSlots, recommended), d')"
  shows "1 \<le> recommended \<and> recommended \<le> 16 \<and>
    recommended \<le> resourceRecommendedSlots (mc_os machine) (int_val cpus) (Some (int_val memory)) \<and>
    maxSlots = (if mc_slotPolicy machine = Some FixedSlots then mc_maxSlots machine else recommended) \<and>
    (\<exists>row. db_get (d_machines d') m = Some row \<and> mc_maxSlots row = maxSlots \<and> mc_usedSlots row = mc_usedSlots machine)"
proof -
  let ?slots = "resourceRecommendedSlots (mc_os machine) (int_val cpus) (Some (int_val memory))"
  obtain benchmark where "recommended = benchmarkRecommendedSlots ?slots benchmark now"
    "maxSlots = (if slot_policy_of machine = AutoSlots then recommended else mc_maxSlots machine)"
    "\<exists>row. db_get (d_machines d') m = Some row \<and> mc_maxSlots row = maxSlots \<and> mc_usedSlots row = mc_usedSlots machine"
    using run m machineForToken_Some [OF state_okD(1) [OF ok] m] unfolding reportHostFacts_def Let_def
    by (auto elim!: handlerE split: if_split_asm)
  then show ?thesis
    using benchmarkRecommendedSlots_range [of ?slots benchmark now] resourceRecommendedSlots_range
    by (auto simp: slot_policy_of_def intro: order_trans)
qed

end
