(* ===== verification/Catalog.thy ===== *)
theory Catalog
  imports Schema "HOL-Library.Sublist"
begin

text \<open>
  Which image a legacy job gets on a Worker (\<open>packages/backend/convex/catalog.ts\<close>) and which
  repositories may put work on the fleet (\<open>policy.ts\<close>). The lemmas characterise the two decisions:
  a Worker serves a job exactly if an image of its platform covers every label of the job, and a
  repository is allowed exactly if the operator named it, its owner, or everything.
\<close>

section \<open>The image catalog\<close>

record image_catalog_entry =
  ic_os :: os
  ic_image :: string
  ic_description :: string
  ic_preview :: bool

definition PREVIEW_OPT_IN_LABEL :: string where
  "PREVIEW_OPT_IN_LABEL = ''rc-preview''"

definition ACTIONS_RUNNER_IMAGE :: string where
  "ACTIONS_RUNNER_IMAGE = ''ghcr.io/actions/actions-runner:2.338.2@sha256:759a1d94a15b05941aba5196974ff43fe15b4cbba29b694b35cbc32a1166b232''"

definition MACOS_SEQUOIA_IMAGE :: string where
  "MACOS_SEQUOIA_IMAGE = ''ghcr.io/cirruslabs/macos-sequoia-base@sha256:fdd8b72a6ee46fc8ad35dc1b9f3b1f162b6607b82a584947d20bb28d3dcb99ed''"

definition MACOS_TAHOE_IMAGE :: string where
  "MACOS_TAHOE_IMAGE = ''ghcr.io/cirruslabs/macos-tahoe-base:latest''"

definition WINDOWS_2025_IMAGE :: string where
  "WINDOWS_2025_IMAGE = ''rc-win2025''"

definition WINDOWS_2022_IMAGE :: string where
  "WINDOWS_2022_IMAGE = ''rc-win2022''"

definition IMAGE_CATALOG :: "(string \<times> image_catalog_entry) list" where
  "IMAGE_CATALOG =
    [(''ubuntu-22.04'', \<lparr>ic_os = Linux, ic_image = ACTIONS_RUNNER_IMAGE, ic_description =
        ''Compatibility label using GitHub's minimal runner image, which is currently Ubuntu 24.04-based.'', ic_preview = False\<rparr>),
     (''ubuntu-24.04'', \<lparr>ic_os = Linux, ic_image = ACTIONS_RUNNER_IMAGE, ic_description =
        ''Ubuntu 24.04-based minimal GitHub Actions runner image.'', ic_preview = False\<rparr>),
     (''rc-linux'', \<lparr>ic_os = Linux, ic_image = ACTIONS_RUNNER_IMAGE, ic_description =
        ''Alias for the default Linux runner image.'', ic_preview = False\<rparr>),
     (''macos-15'', \<lparr>ic_os = Mac, ic_image = MACOS_SEQUOIA_IMAGE, ic_description =
        ''macOS Sequoia base image for Tart, pinned to the digest jobs were verified on.'', ic_preview = False\<rparr>),
     (''macos-26'', \<lparr>ic_os = Mac, ic_image = MACOS_TAHOE_IMAGE, ic_description =
        ''Preview: macOS Tahoe base image for Tart. No Tahoe image has been pulled, booted or run a job on.'', ic_preview = True\<rparr>),
     (''rc-mac'', \<lparr>ic_os = Mac, ic_image = MACOS_SEQUOIA_IMAGE, ic_description =
        ''Alias for the default macOS runner image.'', ic_preview = False\<rparr>),
     (''windows-2022'', \<lparr>ic_os = Win, ic_image = WINDOWS_2022_IMAGE, ic_description =
        ''Windows Server 2022 parent VHDX for Hyper-V.'', ic_preview = False\<rparr>),
     (''windows-2025'', \<lparr>ic_os = Win, ic_image = WINDOWS_2025_IMAGE, ic_description =
        ''Windows Server 2025 parent VHDX for Hyper-V.'', ic_preview = False\<rparr>),
     (''rc-win'', \<lparr>ic_os = Win, ic_image = WINDOWS_2025_IMAGE, ic_description =
        ''Alias for the default Windows runner image.'', ic_preview = False\<rparr>)]"

fun DEFAULT_IMAGE_LABEL_BY_OS :: "os \<Rightarrow> string" where
  "DEFAULT_IMAGE_LABEL_BY_OS Linux = ''rc-linux''"
| "DEFAULT_IMAGE_LABEL_BY_OS Mac = ''rc-mac''"
| "DEFAULT_IMAGE_LABEL_BY_OS Win = ''rc-win''"

definition findImageLabel :: "string list \<Rightarrow> string option" where
  "findImageLabel labels = List.find (\<lambda>label. map_of IMAGE_CATALOG label \<noteq> None) labels"

definition selectImageForMachine :: "string list \<Rightarrow> os \<Rightarrow> string list \<Rightarrow> image_catalog_entry option" where
  "selectImageForMachine jobLabels mos labels =
     (let imageLabel = findImageLabel jobLabels in
      case map_of IMAGE_CATALOG (or_else imageLabel (DEFAULT_IMAGE_LABEL_BY_OS mos)) of
        None \<Rightarrow> None
      | Some catalogEntry \<Rightarrow>
          if ic_os catalogEntry \<noteq> mos then None
          else if ic_preview catalogEntry \<and> PREVIEW_OPT_IN_LABEL \<notin> set labels then None
          else if list_all (\<lambda>label. label = ''self-hosted'' \<or> Some label = imageLabel \<or> label \<in> set labels) jobLabels
          then Some catalogEntry else None)"

section \<open>The repository policy\<close>

record repository_policy =
  po_allowedRepos :: "string list"
  po_allowPublicRepos :: bool

datatype repository_decision = Allowed | Denied string

definition WILDCARD :: string where
  "WILDCARD = ''*''"

definition splitList :: "string option \<Rightarrow> string list" where
  "splitList value =
     (case value of
        None \<Rightarrow> []
      | Some s \<Rightarrow> filter (\<lambda>entry. length entry > 0) (map js_trim (js_split (CHR '','') s)))"

definition isTruthyFlag :: "string option \<Rightarrow> bool" where
  "isTruthyFlag value =
     (case value of
        None \<Rightarrow> False
      | Some s \<Rightarrow>
          let normalized = js_lower (js_trim s)
          in normalized = ''1'' \<or> normalized = ''true'' \<or> normalized = ''yes'')"

definition parseRepositoryPolicy :: "(string \<Rightarrow> string option) \<Rightarrow> repository_policy" where
  "parseRepositoryPolicy env =
     \<lparr>po_allowedRepos = map js_lower (splitList (env ''ALLOWED_REPOS'')),
      po_allowPublicRepos = isTruthyFlag (env ''ALLOW_PUBLIC_REPOS'')\<rparr>"

record repository_policy_summary =
  rs_configured :: bool
  rs_allowedRepos :: "string list"
  rs_allowsAllRepos :: bool
  rs_allowPublicRepos :: bool

text \<open>\<open>[...new Set(xs)]\<close> keeps the first of equal elements.\<close>

definition js_unique :: "'a list \<Rightarrow> 'a list" where
  "js_unique xs = rev (remdups (rev xs))"

definition summarizeRepositoryPolicy :: "repository_policy \<Rightarrow> repository_policy_summary" where
  "summarizeRepositoryPolicy policy =
     (let allowedRepos = js_unique (po_allowedRepos policy)
      in \<lparr>rs_configured = length allowedRepos > 0, rs_allowedRepos = allowedRepos,
          rs_allowsAllRepos = WILDCARD \<in> set allowedRepos,
          rs_allowPublicRepos = po_allowPublicRepos policy\<rparr>)"

definition matchesPattern :: "string \<Rightarrow> string \<Rightarrow> bool" where
  "matchesPattern repo pattern =
     (if pattern = WILDCARD then True
      else if pattern = repo then True
      else if \<not> suffix (CHR ''/'' # WILDCARD) pattern then False
      else let owner = take (length pattern - 2) pattern
           in length owner > 0 \<and> prefix (owner @ ''/'') repo)"

definition decideRepository :: "string \<Rightarrow> bool \<Rightarrow> repository_policy \<Rightarrow> repository_decision" where
  "decideRepository repo repoIsPublic policy =
     (let normalized = js_lower (js_trim repo) in
      if length normalized = 0 then Denied ''Webhook payload carried no repository name''
      else if length (po_allowedRepos policy) = 0
      then Denied (''ALLOWED_REPOS is not configured, so no repository may use this fleet. '' @
                   ''Set it to a comma-separated list of owner/name entries (owner/* and * are supported).'')
      else if \<not> list_ex (matchesPattern normalized) (po_allowedRepos policy)
      then Denied (''Repository '' @ repo @ '' is not in ALLOWED_REPOS'')
      else if repoIsPublic \<and> \<not> po_allowPublicRepos policy
      then Denied (''Repository '' @ repo @ '' is public and ALLOW_PUBLIC_REPOS is not enabled. '' @
                   ''Forks of a public repository can run untrusted code on your runner hosts.'')
      else Allowed)"

section \<open>The decisions\<close>

lemma set_js_unique [simp]: "set (js_unique xs) = set xs"
  by (simp add: js_unique_def)

lemma distinct_js_unique [simp]: "distinct (js_unique xs)"
  by (simp add: js_unique_def)

lemma matchesPattern_iff:
  "matchesPattern repo pattern \<longleftrightarrow>
     pattern = ''*'' \<or> pattern = repo \<or>
     (\<exists>owner name. owner \<noteq> [] \<and> pattern = owner @ ''/*'' \<and> repo = owner @ ''/'' @ name)"
  by (auto simp: matchesPattern_def WILDCARD_def suffix_def prefix_def)

lemma find_image_label:
  "findImageLabel labels = Some label \<Longrightarrow> label \<in> set labels \<and> map_of IMAGE_CATALOG label \<noteq> None"
  unfolding findImageLabel_def by (drule find_SomeD) simp

lemma findImageLabel_None:
  "findImageLabel labels = None \<longleftrightarrow> (\<forall>label \<in> set labels. map_of IMAGE_CATALOG label = None)"
  unfolding findImageLabel_def by (auto simp: find_None_iff)

text \<open>The default image of every platform is in the catalog, for that platform, and is no preview.\<close>

lemma default_image:
  "\<exists>e. map_of IMAGE_CATALOG (DEFAULT_IMAGE_LABEL_BY_OS mos) = Some e \<and> ic_os e = mos \<and> \<not> ic_preview e"
  by (cases mos) (simp_all add: IMAGE_CATALOG_def)

text \<open>A Worker serves a legacy job exactly if the image the job names, or else the default of the
  Worker's platform, is built for that platform, is not a preview the Worker has not opted in to, and
  every other label of the job is \<open>self-hosted\<close> or a label of the Worker.\<close>

lemma selectImageForMachine_iff:
  "selectImageForMachine jobLabels mos labels = Some entry \<longleftrightarrow>
     (case findImageLabel jobLabels of
        Some l \<Rightarrow> map_of IMAGE_CATALOG l = Some entry
      | None \<Rightarrow> map_of IMAGE_CATALOG (DEFAULT_IMAGE_LABEL_BY_OS mos) = Some entry) \<and>
     ic_os entry = mos \<and> \<not> (ic_preview entry \<and> PREVIEW_OPT_IN_LABEL \<notin> set labels) \<and>
     set jobLabels - {''self-hosted''} - set_option (findImageLabel jobLabels) \<subseteq> set labels"
  by (auto simp: selectImageForMachine_def Let_def list_all_iff split: option.splits if_splits)

text \<open>Repositories fail closed: work is accepted exactly from a repository whose trimmed, lower-cased
  name an entry of \<open>ALLOWED_REPOS\<close> admits (the name itself, \<open>owner/*\<close> for its owner, or \<open>*\<close>), and from a
  public one only with the explicit opt-in. Without a list nothing is accepted.\<close>

lemma decideRepository_Allowed:
  "decideRepository repo public (parseRepositoryPolicy env) = Allowed \<longleftrightarrow>
     (let name = js_lower (js_trim repo); entries = set (map js_lower (splitList (env ''ALLOWED_REPOS'')))
      in name \<noteq> [] \<and>
         (''*'' \<in> entries \<or> name \<in> entries \<or>
          (\<exists>owner rest. owner \<noteq> [] \<and> name = owner @ ''/'' @ rest \<and> owner @ ''/*'' \<in> entries)) \<and>
         (public \<longrightarrow> isTruthyFlag (env ''ALLOW_PUBLIC_REPOS'')))"
proof -
  let ?name = "js_lower (js_trim repo)" and ?entries = "map js_lower (splitList (env ''ALLOWED_REPOS''))"
  have "list_ex (matchesPattern ?name) ?entries \<longleftrightarrow>
      ''*'' \<in> set ?entries \<or> ?name \<in> set ?entries \<or>
      (\<exists>owner rest. owner \<noteq> [] \<and> ?name = owner @ ''/'' @ rest \<and> owner @ ''/*'' \<in> set ?entries)"
    unfolding list_ex_iff matchesPattern_iff by blast
  then show ?thesis
    unfolding decideRepository_def parseRepositoryPolicy_def Let_def by auto
qed

end
