(* ===== verification/LegacyJobs.thy ===== *)
theory LegacyJobs
  imports WorkerApi Catalog Retry
begin

text \<open>
  The webhook-driven path for repositories without a scale set: commands and the registrations they
  leave on GitHub (\<open>packages/backend/convex/runners.ts\<close>), the scheduler of Jobs (\<open>scheduler.ts\<close>), the
  Agent's side (\<open>agentApi.ts\<close>), the \<open>workflow_job\<close> events (\<open>jobs.ts\<close>) and the operator's corrections of
  a Job (\<open>admin.ts\<close>). A row read by a handler is passed as the pair of its id and its fields.

  \<open>core_ok\<close> is the part of the state invariant these operations keep; the slot accounting of Jobs is
  exact only while each live command is the assignment of its Job, and the reconciler restores it.
\<close>

section \<open>Table writes\<close>

definition insert_job :: "job \<Rightarrow> db \<Rightarrow> db" where
  "insert_job j d = d\<lparr>d_jobs := db_insert (d_jobs d) (d_nextId d) j, d_nextId := Suc (d_nextId d)\<rparr>"

definition delete_job :: "nat \<Rightarrow> db \<Rightarrow> db" where
  "delete_job i d = d\<lparr>d_jobs := db_delete (d_jobs d) i\<rparr>"

definition insert_command :: "command \<Rightarrow> db \<Rightarrow> db" where
  "insert_command c d =
     d\<lparr>d_commands := db_insert (d_commands d) (d_nextId d) c, d_nextId := Suc (d_nextId d)\<rparr>"

definition insert_deletion :: "runner_deletion \<Rightarrow> db \<Rightarrow> db" where
  "insert_deletion r d =
     d\<lparr>d_runnerDeletions := db_insert (d_runnerDeletions d) (d_nextId d) r, d_nextId := Suc (d_nextId d)\<rparr>"

section \<open>Runner registrations\<close>

definition enqueueRunnerDeletion :: "int \<Rightarrow> command \<Rightarrow> job option \<Rightarrow> db \<Rightarrow> bool \<times> db" where
  "enqueueRunnerDeletion now command job d =
     (case (cm_runnerId command, job) of
        (Some runnerId, Some j) \<Rightarrow>
          (True, insert_deletion
             \<lparr>rd_repo = jb_repo j, rd_githubInstallationId = jb_githubInstallationId j,
              rd_runnerId = runnerId, rd_runnerName = cm_runnerName command,
              rd_createdAt = now, rd_attempts = 0, rd_lastError = None\<rparr> d)
      | _ \<Rightarrow> (False, d))"

definition discardCommand :: "int \<Rightarrow> nat \<times> command \<Rightarrow> job option \<Rightarrow> db \<Rightarrow> db" where
  "discardCommand now command job d =
     delete_command (fst command) (snd (enqueueRunnerDeletion now (snd command) job d))"

definition enqueue :: "int \<Rightarrow> string \<Rightarrow> int option \<Rightarrow> int \<Rightarrow> string \<Rightarrow> db \<Rightarrow> db" where
  "enqueue now repo githubInstallationId runnerId runnerName d =
     insert_deletion
       \<lparr>rd_repo = repo, rd_githubInstallationId = githubInstallationId, rd_runnerId = runnerId,
        rd_runnerName = runnerName, rd_createdAt = now, rd_attempts = 0, rd_lastError = None\<rparr> d"

definition MAX_DELETION_ATTEMPTS :: int where
  "MAX_DELETION_ATTEMPTS = 5"

text \<open>The index \<open>by_createdAt\<close> yields the rows in the order of their creation time.\<close>

definition claimDeletions :: "nat \<Rightarrow> db \<Rightarrow> (nat \<times> string \<times> int option \<times> int \<times> string) list" where
  "claimDeletions limit d =
     map (\<lambda>(i, r). (i, rd_repo r, rd_githubInstallationId r, rd_runnerId r, rd_runnerName r))
       (take limit (sort_key (\<lambda>x. rd_createdAt (snd x)) (d_runnerDeletions d)))"

definition settleDeletion :: "nat \<Rightarrow> bool \<Rightarrow> string option \<Rightarrow> db \<Rightarrow> db" where
  "settleDeletion deletionId success error d =
     (case db_get (d_runnerDeletions d) deletionId of
        None \<Rightarrow> d
      | Some deletion \<Rightarrow>
          if success then d\<lparr>d_runnerDeletions := db_delete (d_runnerDeletions d) deletionId\<rparr>
          else let attempts = rd_attempts deletion + 1 in
            if attempts \<ge> MAX_DELETION_ATTEMPTS
            then d\<lparr>d_runnerDeletions := db_delete (d_runnerDeletions d) deletionId\<rparr>
            else d\<lparr>d_runnerDeletions := db_patch (d_runnerDeletions d) deletionId
                     (\<lambda>r. r\<lparr>rd_attempts := attempts, rd_lastError := error\<rparr>)\<rparr>)"

section \<open>The scheduler of Jobs\<close>

text \<open>A Worker with the used slots the run has counted for it so far.\<close>

type_synonym job_host = "(nat \<times> machine) \<times> int"

fun scan_machines ::
  "job \<Rightarrow> job_host list \<Rightarrow> (job_host \<times> image_catalog_entry) option \<Rightarrow> (job_host \<times> image_catalog_entry) option" where
  "scan_machines job [] fallback = fallback"
| "scan_machines job (((i, m), used) # rest) fallback =
     (if used \<ge> mc_maxSlots m then scan_machines job rest fallback
      else case selectImageForMachine (jb_labels job) (mc_os m) (mc_labels m) of
        None \<Rightarrow> scan_machines job rest fallback
      | Some entry \<Rightarrow>
          if jb_lastFailedMachineId job = Some i
          then scan_machines job rest (case fallback of None \<Rightarrow> Some (((i, m), used), entry) | Some f \<Rightarrow> Some f)
          else Some (((i, m), used), entry))"

definition job_runner_name :: "machine \<Rightarrow> job \<Rightarrow> int \<Rightarrow> string" where
  "job_runner_name m job attempts =
     ''rc-'' @ mc_name m @ ''-'' @ show_int (jb_ghJobId job) @ ''-'' @ show_int attempts"

definition assign_job :: "int \<Rightarrow> nat \<times> job \<Rightarrow> job_host \<times> image_catalog_entry \<Rightarrow> db \<Rightarrow> db" where
  "assign_job now doc choice d =
     (case (doc, choice) of
        ((j, job), (((m, machine), used), entry)) \<Rightarrow>
          let attempts = or_else (jb_attempts job) 0 + 1;
              runnerName = job_runner_name machine job attempts;
              d1 = patch_machine m (\<lambda>r. r\<lparr>mc_usedSlots := used + 1\<rparr>) d;
              d2 = patch_job j (\<lambda>r. r\<lparr>jb_status := JobAssigned, jb_machineId := Some m,
                     jb_runnerName := Some runnerName, jb_attempts := Some attempts,
                     jb_nextAttemptAt := None\<rparr>) d1;
              d3 = insert_command \<lparr>cm_machineId = m, cm_jobId = j, cm_jitConfig = None,
                     cm_image = Some (ic_image entry), cm_runnerName = runnerName, cm_runnerId = None,
                     cm_status = CmdPending, cm_claimedAt = None, cm_cancelledAt = None,
                     cm_exitCode = None, cm_creationTime = now\<rparr> d2
          in runAfter (IssueJit (d_nextId d2) j (jb_repo job) (jb_githubInstallationId job) runnerName
                         (jb_labels job)) d3)"

definition place_job ::
  "int \<Rightarrow> nat \<times> job \<Rightarrow> int \<times> job_host list \<times> db \<Rightarrow> int \<times> job_host list \<times> db" where
  "place_job now doc state =
     (case state of (assigned, machines, d) \<Rightarrow>
        case scan_machines (snd doc) machines None of
          None \<Rightarrow> (assigned, machines, d)
        | Some choice \<Rightarrow>
            (assigned + 1,
             map (\<lambda>(m, used). (m, if fst m = fst (fst (fst choice)) then used + 1 else used)) machines,
             assign_job now doc choice d))"

text \<open>The Workers come in the order of the index \<open>by_lastSeen\<close>.\<close>

definition job_hosts :: "int \<Rightarrow> db \<Rightarrow> job_host list" where
  "job_hosts now d =
     map (\<lambda>x. (x, mc_usedSlots (snd x))) (sort_key (\<lambda>x. mc_lastSeen (snd x)) (online_machines now d))"

definition eligible_jobs :: "int \<Rightarrow> db \<Rightarrow> job docs" where
  "eligible_jobs now d =
     js_sort (\<lambda>a b. jb_queuedAt (snd a) - jb_queuedAt (snd b))
       (filter (\<lambda>x. or_else (jb_nextAttemptAt (snd x)) 0 \<le> now)
         (db_query (\<lambda>j. jb_status j = JobQueued) (d_jobs d)))"

definition legacy_tryAssign :: "int \<Rightarrow> db \<Rightarrow> int \<times> db" where
  "legacy_tryAssign now d =
     (let (assigned, _, d') = fold (place_job now) (eligible_jobs now d) (0, job_hosts now d, d)
      in (assigned, d'))"

definition storeJitConfig :: "nat \<Rightarrow> string \<Rightarrow> int option \<Rightarrow> db \<Rightarrow> bool \<times> db" where
  "storeJitConfig commandId jitConfig runnerId d =
     (case db_get (d_commands d) commandId of
        None \<Rightarrow> (False, d)
      | Some command \<Rightarrow>
          if cm_status command \<noteq> CmdPending then (False, d)
          else (True, patch_command commandId
                        (\<lambda>c. c\<lparr>cm_jitConfig := Some jitConfig, cm_runnerId := runnerId\<rparr>) d))"

text \<open>What a failed provisioning attempt leaves of the Job; the reconciler uses it too.\<close>

definition failed_job :: "int \<Rightarrow> attempt_outcome \<Rightarrow> nat option \<Rightarrow> job \<Rightarrow> job" where
  "failed_job now outcome machineId j =
     (case outcome of
        Exhausted _ lastError \<Rightarrow>
          j\<lparr>jb_status := JobFailed, jb_conclusion := Some ''provision-failed'', jb_finishedAt := Some now,
            jb_lastError := Some lastError, jb_machineId := None, jb_runnerName := None,
            jb_nextAttemptAt := None\<rparr>
      | Retry _ nextAttemptAt lastError \<Rightarrow>
          j\<lparr>jb_status := JobQueued, jb_machineId := None, jb_runnerName := None,
            jb_lastError := Some lastError, jb_nextAttemptAt := Some nextAttemptAt,
            jb_lastFailedMachineId := machineId\<rparr>)"

definition failAttempt :: "int \<Rightarrow> nat option \<Rightarrow> nat \<Rightarrow> string \<Rightarrow> db \<Rightarrow> db" where
  "failAttempt now commandId jobId error d =
     (let command = Option.bind commandId (\<lambda>c. map_option (\<lambda>row. (c, row)) (db_get (d_commands d) c));
          j = (case command of None \<Rightarrow> jobId | Some (_, c) \<Rightarrow> cm_jobId c);
          job = db_get (d_jobs d) j;
          d1 = (case command of None \<Rightarrow> d | Some c \<Rightarrow> discardCommand now c job d)
      in case job of
           None \<Rightarrow> d1
         | Some row \<Rightarrow>
             if jb_status row \<noteq> JobAssigned then d1
             else
               let machineId = (case jb_machineId row of
                                  Some m \<Rightarrow> Some m
                                | None \<Rightarrow> map_option (\<lambda>c. cm_machineId (snd c)) command);
                   d2 = releaseMachineSlot machineId d1;
                   outcome = decideAttemptOutcome (or_else (jb_attempts row) 1) now error;
                   d3 = patch_job j (failed_job now outcome machineId) d2
               in case outcome of
                    Exhausted _ _ \<Rightarrow> d3
                  | Retry _ nextAttemptAt _ \<Rightarrow> runAfter (LegacyTryAssign (max 0 (nextAttemptAt - now))) d3)"

definition recordJobError :: "nat \<Rightarrow> string \<Rightarrow> db \<Rightarrow> db" where
  "recordJobError jobId error d =
     (case db_get (d_jobs d) jobId of
        None \<Rightarrow> d
      | Some _ \<Rightarrow> patch_job jobId (\<lambda>j. j\<lparr>jb_lastError := Some (summarizeError error)\<rparr>) d)"

section \<open>The Agent\<close>

definition commands_of_machine :: "nat \<Rightarrow> command_status \<Rightarrow> db \<Rightarrow> command docs" where
  "commands_of_machine m status d =
     db_query (\<lambda>c. cm_machineId c = m \<and> cm_status c = status) (d_commands d)"

definition pendingCommands :: "string \<Rightarrow> db \<Rightarrow> (os \<times> int \<times> (nat \<times> string) list \<times> nat list) res" where
  "pendingCommands token d =
     res_bind (machineForToken token d) (\<lambda>(m, machine).
       let pending = commands_of_machine m CmdPending d; claimed = commands_of_machine m CmdClaimed d
       in Inr (mc_os machine, mc_maxSlots machine,
               map (\<lambda>(i, c). (i, cm_runnerName c)) (filter (\<lambda>x. cm_jitConfig (snd x) \<noteq> None) pending),
               map fst (pending @ claimed)))"

record command_claim =
  cc_jitConfig :: string
  cc_image :: "string option"
  cc_runnerName :: string
  cc_os :: os

definition claim_command :: "int \<Rightarrow> string \<Rightarrow> nat \<Rightarrow> db \<Rightarrow> (command_claim option \<times> db) res" where
  "claim_command now token commandId d =
     res_bind (machineForToken token d) (\<lambda>(m, machine).
       case db_get (d_commands d) commandId of
         None \<Rightarrow> Inr (None, d)
       | Some command \<Rightarrow>
           if cm_machineId command \<noteq> m \<or> cm_status command \<noteq> CmdPending then Inr (None, d)
           else case cm_jitConfig command of
             None \<Rightarrow> Inr (None, d)
           | Some jitConfig \<Rightarrow>
               Inr (Some \<lparr>cc_jitConfig = jitConfig, cc_image = cm_image command,
                          cc_runnerName = cm_runnerName command, cc_os = mc_os machine\<rparr>,
                    patch_command commandId (\<lambda>c. c\<lparr>cm_status := CmdClaimed, cm_claimedAt := Some now,
                                                   cm_jitConfig := None\<rparr>) d))"

definition report_command :: "int \<Rightarrow> string \<Rightarrow> nat \<Rightarrow> js_number \<Rightarrow> db \<Rightarrow> (bool \<times> db) res" where
  "report_command now token commandId exitCode d =
     throw_if (\<not> is_integer exitCode) (ConvexError ''Exit code must be an integer'')
    (res_bind (machineForToken token d) (\<lambda>(m, machine).
       case db_get (d_commands d) commandId of
         None \<Rightarrow> Inr (False, d)
       | Some command \<Rightarrow>
           if cm_machineId command \<noteq> m \<or> cm_status command = CmdPending then Inr (False, d)
           else
             let job = db_get (d_jobs d) (cm_jobId command);
                 wasCancelled = (cm_status command = CmdCancelled);
                 code = int_val exitCode
             in if \<not> wasCancelled \<and> map_option jb_status job = Some JobAssigned \<and> code \<noteq> 0
                then Inr (True, failAttempt now (Some commandId) (cm_jobId command)
                                  (''Provisioner exited with code '' @ show_int code) d)
                else Inr (True, patch_command commandId
                            (\<lambda>c. c\<lparr>cm_status := CmdFinished, cm_exitCode := Some code\<rparr>) d)))"

section \<open>Workflow events\<close>

definition jobs_list :: "string res \<Rightarrow> db \<Rightarrow> ((nat \<times> job) \<times> string option) list res" where
  "jobs_list auth d =
     res_bind auth (\<lambda>_.
       Inr (map (\<lambda>x. (x, Option.bind (jb_machineId (snd x)) (\<lambda>m. map_option mc_name (db_get (d_machines d) m))))
              (js_sort (\<lambda>a b. jb_queuedAt (snd b) - jb_queuedAt (snd a)) (take 200 (rev (d_jobs d))))))"

definition commandsForJob :: "nat \<Rightarrow> db \<Rightarrow> command docs" where
  "commandsForJob jobId d = db_query (\<lambda>c. cm_jobId c = jobId) (d_commands d)"

definition discard_commands :: "int \<Rightarrow> command docs \<Rightarrow> job option \<Rightarrow> db \<Rightarrow> db" where
  "discard_commands now commands job d = fold (\<lambda>c d. discardCommand now c job d) commands d"

text \<open>
  The live command is the one GitHub started; \<open>move_assignment\<close> gives it to the Job that runs, and gives
  the displaced Job the other Job's live command or its place in the queue.
\<close>

definition requeue_displaced :: "job \<Rightarrow> job" where
  "requeue_displaced j =
     j\<lparr>jb_status := JobQueued, jb_machineId := None, jb_runnerName := None, jb_nextAttemptAt := None\<rparr>"

definition live_assignment :: "job \<Rightarrow> command \<Rightarrow> bool" where
  "live_assignment actual c \<longleftrightarrow>
     Some (cm_runnerName c) = jb_runnerName actual \<and> Some (cm_machineId c) = jb_machineId actual \<and>
     (cm_status c = CmdPending \<or> cm_status c = CmdClaimed)"

definition move_assignment :: "int \<Rightarrow> nat \<times> job \<Rightarrow> nat \<Rightarrow> nat \<Rightarrow> db \<Rightarrow> db" where
  "move_assignment now actual command provisioned d =
     (let previousCommands = commandsForJob (fst actual) d;
          previousCommand = List.find (\<lambda>c. live_assignment (snd actual) (snd c)) previousCommands;
          d1 = patch_command command (\<lambda>c. c\<lparr>cm_jobId := fst actual\<rparr>) d
      in case (jb_status (snd actual) = JobAssigned, previousCommand) of
           (True, Some (k, previous)) \<Rightarrow>
             patch_job provisioned (\<lambda>j. j\<lparr>jb_machineId := Some (cm_machineId previous),
                 jb_runnerName := Some (cm_runnerName previous), jb_nextAttemptAt := None\<rparr>)
               (patch_command k (\<lambda>c. c\<lparr>cm_jobId := provisioned\<rparr>) d1)
         | _ \<Rightarrow>
             let d2 = discard_commands now previousCommands (Some (snd actual)) d1;
                 d3 = (if jb_status (snd actual) = JobAssigned \<and> jb_machineId (snd actual) \<noteq> None
                       then runAfter DrainRunnerDeletions (releaseMachineSlot (jb_machineId (snd actual)) d2)
                       else d2)
             in patch_job provisioned requeue_displaced d3)"

definition adopted_job :: "int \<Rightarrow> nat \<Rightarrow> string \<Rightarrow> bool \<Rightarrow> job \<Rightarrow> job \<Rightarrow> job" where
  "adopted_job now machineId runnerName same actual j =
     j\<lparr>jb_status := JobRunning, jb_machineId := Some machineId, jb_runnerName := Some runnerName,
       jb_startedAt := Some (or_else (jb_startedAt actual) now),
       jb_attempts := (if same then jb_attempts actual else Some (or_else (jb_attempts actual) 0 + 1)),
       jb_nextAttemptAt := None\<rparr>"

definition job_over :: "job_status \<Rightarrow> bool" where
  "job_over status \<longleftrightarrow> status = JobDone \<or> status = JobFailed"

definition adoptRunnerAssignment ::
  "int \<Rightarrow> nat \<times> job \<Rightarrow> string option \<Rightarrow> db \<Rightarrow> (job \<times> db) res" where
  "adoptRunnerAssignment now actual runnerName d =
     (case runnerName of
        None \<Rightarrow> Inr (snd actual, d)
      | Some name \<Rightarrow>
          if job_over (jb_status (snd actual)) then Inr (snd actual, d)
          else res_bind (db_unique (db_query (\<lambda>c. cm_runnerName c = name) (d_commands d))) (\<lambda>found.
            case found of
              None \<Rightarrow> Inr (snd actual, d)
            | Some (k, command) \<Rightarrow>
                if cm_status command = CmdCancelled then Inr (snd actual, d)
                else case db_get (d_jobs d) (cm_jobId command) of
                  None \<Rightarrow> Inr (snd actual, d)
                | Some provisioned \<Rightarrow>
                    let same = (cm_jobId command = fst actual) in
                    if jb_repo provisioned \<noteq> jb_repo (snd actual) \<or> jb_status provisioned \<noteq> JobAssigned
                    then Inr (snd actual, d)
                    else if \<not> same \<and> jb_status (snd actual) = JobRunning \<and>
                            (jb_runnerName (snd actual) \<noteq> None \<or> jb_machineId (snd actual) \<noteq> None)
                    then Inr (snd actual, d)
                    else
                      let d1 = (if same then d else move_assignment now actual k (cm_jobId command) d);
                          f = adopted_job now (cm_machineId command) name same (snd actual)
                      in Inr (f (snd actual), patch_job (fst actual) f d1)))"

definition new_job :: "int \<Rightarrow> workflow_job \<Rightarrow> job_status \<Rightarrow> job" where
  "new_job now args status =
     \<lparr>jb_ghJobId = wj_ghJobId args, jb_githubInstallationId = wj_githubInstallationId args,
      jb_repo = wj_repo args, jb_workflowName = wj_workflowName args, jb_labels = wj_labels args,
      jb_status = status, jb_machineId = None, jb_runnerName = None, jb_queuedAt = now,
      jb_startedAt = None, jb_finishedAt = None, jb_conclusion = None, jb_attempts = Some 0,
      jb_lastError = None, jb_nextAttemptAt = None, jb_lastFailedMachineId = None, jb_creationTime = now\<rparr>"

definition apply_queued :: "int \<Rightarrow> workflow_job \<Rightarrow> (nat \<times> job) option \<Rightarrow> db \<Rightarrow> db" where
  "apply_queued now args existing d =
     (case existing of
        Some (i, job) \<Rightarrow>
          if jb_status job = JobQueued \<and> jb_githubInstallationId job = None \<and> wj_githubInstallationId args \<noteq> None
          then patch_job i (\<lambda>j. j\<lparr>jb_githubInstallationId := wj_githubInstallationId args\<rparr>) d
          else d
      | None \<Rightarrow> runAfter (LegacyTryAssign 0) (insert_job (new_job now args JobQueued) d))"

text \<open>The row an event finds, or the running row it creates for a Job it sees for the first time.\<close>

definition found_or_running ::
  "int \<Rightarrow> workflow_job \<Rightarrow> (nat \<times> job) option \<Rightarrow> db \<Rightarrow> (nat \<times> job) \<times> db" where
  "found_or_running now args existing d =
     (case existing of
        Some x \<Rightarrow> (x, d)
      | None \<Rightarrow>
          let j = (new_job now args JobRunning)\<lparr>jb_startedAt := Some now\<rparr>
          in ((d_nextId d, j), insert_job j d))"

definition apply_in_progress :: "int \<Rightarrow> workflow_job \<Rightarrow> (nat \<times> job) option \<Rightarrow> db \<Rightarrow> db res" where
  "apply_in_progress now args existing d =
     (let ((i, row), d1) = found_or_running now args existing d in
      res_bind (adoptRunnerAssignment now (i, row) (wj_runnerName args) d1) (\<lambda>(job, d2).
        Inr (if jb_status job = JobAssigned \<or> jb_status job = JobQueued
             then patch_job i (\<lambda>j. j\<lparr>jb_status := JobRunning, jb_startedAt := Some now\<rparr>) d2 else d2)))"

definition cancel_command :: "int \<Rightarrow> bool \<Rightarrow> job \<Rightarrow> nat \<times> command \<Rightarrow> db \<Rightarrow> db" where
  "cancel_command now neverStarted job command d =
     (if cm_status (snd command) = CmdFinished \<or> cm_status (snd command) = CmdCancelled then d
      else
        let d1 = patch_command (fst command) (\<lambda>c. c\<lparr>cm_status := CmdCancelled, cm_cancelledAt := Some now\<rparr>) d
        in if neverStarted then snd (enqueueRunnerDeletion now (snd command) (Some job) d1) else d1)"

definition settle_job :: "int \<Rightarrow> workflow_job \<Rightarrow> nat \<Rightarrow> job \<Rightarrow> db \<Rightarrow> db" where
  "settle_job now args i job d =
     (let conclusion = or_else (wj_conclusion args) ''unknown'';
          terminalStatus = (if conclusion = ''success'' then JobDone else JobFailed);
          neverStarted = (jb_status job \<noteq> JobRunning);
          d1 = patch_job i (\<lambda>j. j\<lparr>jb_status := terminalStatus, jb_conclusion := Some conclusion,
                 jb_finishedAt := Some now, jb_nextAttemptAt := None\<rparr>) d;
          d2 = releaseMachineSlot (jb_machineId job) d1;
          d3 = fold (cancel_command now neverStarted job) (commandsForJob i d2) d2
      in runAfter (LegacyTryAssign 0) d3)"

definition apply_completed :: "int \<Rightarrow> workflow_job \<Rightarrow> (nat \<times> job) option \<Rightarrow> db \<Rightarrow> db res" where
  "apply_completed now args existing d =
     (let conclusion = or_else (wj_conclusion args) ''unknown'';
          terminalStatus = (if conclusion = ''success'' then JobDone else JobFailed)
      in if existing = None \<and> wj_runnerName args = None
         then Inr (insert_job ((new_job now args terminalStatus)
                     \<lparr>jb_finishedAt := Some now, jb_conclusion := Some conclusion\<rparr>) d)
         else
           let ((i, row), d1) = found_or_running now args existing d in
           res_bind (adoptRunnerAssignment now (i, row) (wj_runnerName args) d1) (\<lambda>(job, d2).
             Inr (if job_over (jb_status job) then d2 else settle_job now args i job d2)))"

definition applyWorkflowJob :: "int \<Rightarrow> workflow_job \<Rightarrow> db \<Rightarrow> db res" where
  "applyWorkflowJob now args d =
     (let existing = db_first (db_query (\<lambda>j. jb_ghJobId j = wj_ghJobId args) (d_jobs d))
      in if existing = None \<and> ''self-hosted'' \<notin> set (wj_labels args) then Inr d
         else case wj_action args of
                ActQueued \<Rightarrow> Inr (apply_queued now args existing d)
              | ActInProgress \<Rightarrow> apply_in_progress now args existing d
              | ActCompleted \<Rightarrow> apply_completed now args existing d)"

section \<open>Operator corrections\<close>

definition dropJob :: "int \<Rightarrow> nat \<Rightarrow> db \<Rightarrow> db" where
  "dropJob now jobId d =
     (case db_get (d_jobs d) jobId of
        None \<Rightarrow> d
      | Some job \<Rightarrow>
          let d1 = discard_commands now (commandsForJob jobId d) (Some job) d;
              d2 = (if jb_status job = JobAssigned \<or> jb_status job = JobRunning
                    then releaseMachineSlot (jb_machineId job) d1 else d1);
              d3 = delete_job jobId d2
          in runAfter DrainRunnerDeletions (runAfter (LegacyTryAssign 0) d3))"

definition requeueJob :: "int \<Rightarrow> nat \<Rightarrow> db \<Rightarrow> db" where
  "requeueJob now jobId d =
     (case db_get (d_jobs d) jobId of
        None \<Rightarrow> d
      | Some job \<Rightarrow>
          if jb_status job \<noteq> JobAssigned then d
          else
            let d1 = discard_commands now (commandsForJob jobId d) (Some job) d;
                d2 = releaseMachineSlot (jb_machineId job) d1;
                d3 = patch_job jobId (\<lambda>j. j\<lparr>jb_status := JobQueued, jb_machineId := None,
                       jb_runnerName := None, jb_attempts := Some 0, jb_nextAttemptAt := None,
                       jb_lastFailedMachineId := None\<rparr>) d2
            in runAfter DrainRunnerDeletions (runAfter (LegacyTryAssign 0) d3))"

section \<open>Frames\<close>

definition core_ok :: "db \<Rightarrow> bool" where
  "core_ok d \<longleftrightarrow> db_ok d \<and> attempts_ok d \<and> names_ok d \<and> secrets_ok d \<and> profiles_ok d \<and> fresh_ok d"

lemma state_ok_core: "state_ok d \<longleftrightarrow> core_ok d \<and> slots_ok d"
  by (auto simp: state_ok_def core_ok_def)

text \<open>The tables of the scale-set path and of the deliveries, which no operation on Jobs writes.\<close>

definition same_attempts :: "db \<Rightarrow> db \<Rightarrow> bool" where
  "same_attempts d e \<longleftrightarrow> d_attempts e = d_attempts d \<and> d_experiments e = d_experiments d \<and>
     d_attemptSecrets e = d_attemptSecrets d \<and> d_profiles e = d_profiles d \<and>
     d_controllerLeases e = d_controllerLeases d \<and> d_webhookDeliveries e = d_webhookDeliveries d \<and>
     d_webhookRecovery e = d_webhookRecovery d \<and> d_attemptEgress e = d_attemptEgress d \<and>
     d_registrationTokens e = d_registrationTokens d"

lemma same_attempts_refl [simp]: "same_attempts d d"
  by (simp add: same_attempts_def)

lemma same_attempts_trans: "same_attempts c d \<Longrightarrow> same_attempts d e \<Longrightarrow> same_attempts c e"
  by (simp add: same_attempts_def)

lemma core_ok_frame:
  assumes "core_ok d" "same_attempts d e" "db_wf (d_jobs e)" "ids_below (d_nextId e) (d_jobs e)"
    "db_wf (d_machines e)" "ids_below (d_nextId e) (d_machines e)" "d_nextId d \<le> d_nextId e"
  shows "core_ok e"
  using assms
  by (auto simp: core_ok_def same_attempts_def db_ok_def attempts_ok_def names_ok_def secrets_ok_def
      secret_live_def profiles_ok_def fresh_ok_split intro: ids_below_mono)

lemma insert_job_tables [simp]:
  "d_machines (insert_job j d) = d_machines d" "d_commands (insert_job j d) = d_commands d"
  "d_jobs (insert_job j d) = db_insert (d_jobs d) (d_nextId d) j"
  "d_nextId (insert_job j d) = Suc (d_nextId d)" "same_attempts e (insert_job j d) = same_attempts e d"
  "d_runnerDeletions (insert_job j d) = d_runnerDeletions d" "d_scheduled (insert_job j d) = d_scheduled d"
  by (simp_all add: insert_job_def same_attempts_def)

lemma delete_job_tables [simp]:
  "d_machines (delete_job i d) = d_machines d" "d_commands (delete_job i d) = d_commands d"
  "d_jobs (delete_job i d) = db_delete (d_jobs d) i" "d_nextId (delete_job i d) = d_nextId d"
  "same_attempts e (delete_job i d) = same_attempts e d"
  by (simp_all add: delete_job_def same_attempts_def)

lemma insert_command_tables [simp]:
  "d_machines (insert_command c d) = d_machines d" "d_jobs (insert_command c d) = d_jobs d"
  "d_commands (insert_command c d) = db_insert (d_commands d) (d_nextId d) c"
  "d_nextId (insert_command c d) = Suc (d_nextId d)" "same_attempts e (insert_command c d) = same_attempts e d"
  by (simp_all add: insert_command_def same_attempts_def)

lemma insert_deletion_tables [simp]:
  "d_machines (insert_deletion r d) = d_machines d" "d_jobs (insert_deletion r d) = d_jobs d"
  "d_commands (insert_deletion r d) = d_commands d"
  "d_nextId (insert_deletion r d) = Suc (d_nextId d)" "same_attempts e (insert_deletion r d) = same_attempts e d"
  by (simp_all add: insert_deletion_def same_attempts_def)

lemma same_attempts_writes [simp]:
  "same_attempts e (patch_machine i f d) = same_attempts e d" "same_attempts e (patch_job i g d) = same_attempts e d"
  "same_attempts e (patch_command i h d) = same_attempts e d" "same_attempts e (delete_command i d) = same_attempts e d"
  "same_attempts e (runAfter t d) = same_attempts e d"
  by (simp_all add: same_attempts_def)

lemma releaseMachineSlot_job_tables [simp]:
  "d_commands (releaseMachineSlot m d) = d_commands d" "same_attempts e (releaseMachineSlot m d) = same_attempts e d"
  by (simp_all add: releaseMachineSlot_def split: option.splits)

text \<open>
  A relation between the state a handler finds and the state it leaves: the tables of the scale-set path
  are the same, Jobs and Workers keep unique ids below the counter, and Workers only change in their
  used slots, which stay at least 0. Each write of this theory keeps it.
\<close>

definition used_slots_nonneg :: "db \<Rightarrow> bool" where
  "used_slots_nonneg d \<longleftrightarrow> (\<forall>(m, row) \<in> set (d_machines d). mc_usedSlots row \<ge> 0)"

definition host_of :: "nat \<times> machine \<Rightarrow> nat \<times> machine" where
  "host_of x = (fst x, (snd x)\<lparr>mc_usedSlots := 0\<rparr>)"

definition job_frame :: "db \<Rightarrow> db \<Rightarrow> bool" where
  "job_frame d e \<longleftrightarrow> same_attempts d e \<and> db_wf (d_jobs e) \<and> ids_below (d_nextId e) (d_jobs e) \<and>
     map host_of (d_machines e) = map host_of (d_machines d) \<and> used_slots_nonneg e \<and> d_nextId d \<le> d_nextId e"


lemma map_host_of_patch:
  assumes "\<And>r. f r = r\<lparr>mc_usedSlots := mc_usedSlots (f r)\<rparr>"
  shows "map host_of (db_patch t i f) = map host_of t"
proof -
  have "(f r)\<lparr>mc_usedSlots := 0\<rparr> = r\<lparr>mc_usedSlots := 0\<rparr>" for r
    by (subst assms) simp
  then show ?thesis by (auto simp: db_patch_def host_of_def)
qed

lemma map_host_of_ids:
  assumes "map host_of t = map host_of u"
  shows "db_ids t = db_ids u"
  using arg_cong [OF assms, of "map fst"] by (simp add: db_ids_def host_of_def comp_def)

lemma used_slots_patch:
  assumes "used_slots_nonneg d" "\<And>r. 0 \<le> mc_usedSlots r \<Longrightarrow> 0 \<le> mc_usedSlots (f r)"
  shows "used_slots_nonneg (patch_machine i f d)"
  using assms by (fastforce simp: used_slots_nonneg_def set_db_patch)

lemma job_frame_refl: "core_ok d \<Longrightarrow> used_slots_nonneg d \<Longrightarrow> job_frame d d"
  by (simp add: job_frame_def core_ok_def db_ok_def fresh_ok_split)

lemma job_frame_used_slots [simp]:
  "job_frame d e \<Longrightarrow> 0 \<le> n \<Longrightarrow> job_frame d (patch_machine i (\<lambda>r. r\<lparr>mc_usedSlots := n\<rparr>) e)"
  by (auto simp: job_frame_def map_host_of_patch intro!: used_slots_patch)

lemma used_slots_nonneg_other [simp]:
  "used_slots_nonneg (insert_job j d) = used_slots_nonneg d" "used_slots_nonneg (delete_job i d) = used_slots_nonneg d"
  "used_slots_nonneg (insert_command c d) = used_slots_nonneg d"
  "used_slots_nonneg (insert_deletion r d) = used_slots_nonneg d"
  "used_slots_nonneg (patch_job i f d) = used_slots_nonneg d" "used_slots_nonneg (patch_command i g d) = used_slots_nonneg d"
  "used_slots_nonneg (delete_command i d) = used_slots_nonneg d" "used_slots_nonneg (runAfter t d) = used_slots_nonneg d"
  by (simp_all add: used_slots_nonneg_def)

lemma job_frame_writes [simp]:
  "job_frame d e \<Longrightarrow> job_frame d (insert_job j e)" "job_frame d e \<Longrightarrow> job_frame d (delete_job i e)"
  "job_frame d e \<Longrightarrow> job_frame d (insert_command c e)" "job_frame d e \<Longrightarrow> job_frame d (insert_deletion r e)"
  "job_frame d e \<Longrightarrow> job_frame d (patch_job i f e)" "job_frame d e \<Longrightarrow> job_frame d (patch_command i g e)"
  "job_frame d e \<Longrightarrow> job_frame d (delete_command i e)" "job_frame d e \<Longrightarrow> job_frame d (runAfter t e)"
  by (simp_all add: job_frame_def)

lemma job_frame_release [simp]: "job_frame d e \<Longrightarrow> job_frame d (releaseMachineSlot m e)"
  by (simp add: releaseMachineSlot_def split: option.split)

lemma job_frame_core: "core_ok d \<Longrightarrow> job_frame d e \<Longrightarrow> core_ok e \<and> used_slots_nonneg e"
proof -
  assume ok: "core_ok d" and f: "job_frame d e"
  have ids: "db_ids (d_machines e) = db_ids (d_machines d)"
    by (rule map_host_of_ids) (use f in \<open>simp add: job_frame_def\<close>)
  have "db_wf (d_machines d)" "ids_below (d_nextId d) (d_machines d)"
    using ok by (simp_all add: core_ok_def db_ok_def fresh_ok_split)
  then have "db_wf (d_machines e)" "ids_below (d_nextId d) (d_machines e)"
    by (simp_all add: tb.wf_ids ids_below_def ids)
  moreover have f': "same_attempts d e" "db_wf (d_jobs e)" "ids_below (d_nextId e) (d_jobs e)"
    "used_slots_nonneg e" "d_nextId d \<le> d_nextId e"
    using f by (simp_all add: job_frame_def)
  ultimately show ?thesis
    using core_ok_frame [OF ok f'(1-3) _ _ f'(5)] ids_below_mono by blast
qed

lemma fold_frame:
  assumes "I s" "\<And>x s. x \<in> set xs \<Longrightarrow> I s \<Longrightarrow> I (f x s)"
  shows "I (fold f xs s)"
  using assms by (induction xs arbitrary: s) auto

lemma enqueueRunnerDeletion_frame [simp]:
  "job_frame d e \<Longrightarrow> job_frame d (snd (enqueueRunnerDeletion now c j e))"
  by (simp add: enqueueRunnerDeletion_def split: option.splits)

lemma discardCommand_frame [simp]: "job_frame d e \<Longrightarrow> job_frame d (discardCommand now c j e)"
  by (simp add: discardCommand_def)

lemma discard_commands_frame [simp]: "job_frame d e \<Longrightarrow> job_frame d (discard_commands now cs j e)"
  unfolding discard_commands_def by (rule fold_frame) simp_all


section \<open>Every operation keeps the core of the invariant\<close>

text \<open>The scan finds a Worker with a free slot that serves the labels, and finds one if there is one.\<close>

definition serves :: "job \<Rightarrow> job_host \<Rightarrow> image_catalog_entry option" where
  "serves job host =
     (if snd host \<ge> mc_maxSlots (snd (fst host)) then None
      else selectImageForMachine (jb_labels job) (mc_os (snd (fst host))) (mc_labels (snd (fst host))))"

lemma scan_machines_spec:
  "scan_machines job hosts fallback =
     (case List.find (\<lambda>h. serves job h \<noteq> None \<and> jb_lastFailedMachineId job \<noteq> Some (fst (fst h))) hosts of
        Some h \<Rightarrow> Some (h, the (serves job h))
      | None \<Rightarrow> (case fallback of
                   Some f \<Rightarrow> Some f
                 | None \<Rightarrow> map_option (\<lambda>h. (h, the (serves job h))) (List.find (\<lambda>h. serves job h \<noteq> None) hosts)))"
proof (induction job hosts fallback rule: scan_machines.induct)
  case (2 job i m used rest fallback)
  then show ?case
    by (cases "selectImageForMachine (jb_labels job) (mc_os m) (mc_labels m)"; cases fallback)
       (auto simp: serves_def split: option.splits)
qed (simp split: option.splits)

text \<open>C39: The single pass over the Workers that places a Job chooses as two searches would: the first Worker with a
  free slot and an image for the labels that is not the one the Job failed on last, and, when there is none, the
  first Worker with a free slot and an image at all.\<close>

theorem job_host_choice:
  "scan_machines job hosts None =
     map_option (\<lambda>h. (h, the (serves job h)))
       (case List.find (\<lambda>h. serves job h \<noteq> None \<and> jb_lastFailedMachineId job \<noteq> Some (fst (fst h))) hosts of
          Some h \<Rightarrow> Some h
        | None \<Rightarrow> List.find (\<lambda>h. serves job h \<noteq> None) hosts)"
  by (simp add: scan_machines_spec split: option.split)

lemma scan_machines_Some:
  assumes "scan_machines job hosts None = Some (h, entry)"
  shows "h \<in> set hosts" "serves job h = Some entry"
  using assms by (auto simp: scan_machines_spec split: option.split_asm dest: find_SomeD)

definition hosts_nonneg :: "job_host list \<Rightarrow> bool" where
  "hosts_nonneg hosts \<longleftrightarrow> list_all (\<lambda>h. 0 \<le> snd h) hosts"

lemma assign_job_frame [simp]:
  "job_frame d e \<Longrightarrow> 0 \<le> snd (fst choice) \<Longrightarrow> job_frame d (assign_job now doc choice e)"
  by (cases doc, cases choice) (auto simp: assign_job_def Let_def)

lemma place_job_frame:
  assumes "hosts_nonneg (fst (snd s))" "job_frame d (snd (snd s))"
  shows "hosts_nonneg (fst (snd (place_job now doc s))) \<and> job_frame d (snd (snd (place_job now doc s)))"
proof -
  obtain n hosts e where s: "s = (n, hosts, e)" by (cases s)
  show ?thesis
  proof (cases "scan_machines (snd doc) hosts None")
    case (Some choice)
    then have "fst choice \<in> set hosts" by (cases choice) (auto dest: scan_machines_Some)
    then have "0 \<le> snd (fst choice)" using assms(1) by (auto simp: s hosts_nonneg_def list_all_iff)
    then show ?thesis
      using assms Some by (auto simp: s place_job_def hosts_nonneg_def list_all_iff)
  qed (use assms in \<open>simp add: s place_job_def\<close>)
qed

lemma legacy_tryAssign_frame:
  assumes "core_ok d" "used_slots_nonneg d"
  shows "job_frame d (snd (legacy_tryAssign now d))"
proof -
  let ?I = "\<lambda>s :: int \<times> job_host list \<times> db. hosts_nonneg (fst (snd s)) \<and> job_frame d (snd (snd s))"
  have "\<forall>x \<in> set (online_machines now d). 0 \<le> mc_usedSlots (snd x)"
    using assms(2) by (auto simp: online_machines_def db_query_def used_slots_nonneg_def)
  then have "?I (0, job_hosts now d, d)"
    by (simp add: hosts_nonneg_def job_hosts_def list_all_iff job_frame_refl [OF assms])
  then have "?I (fold (place_job now) (eligible_jobs now d) (0, job_hosts now d, d))"
    by (rule fold_frame) (use place_job_frame in blast)
  then show ?thesis by (simp add: legacy_tryAssign_def case_prod_beta)
qed

lemma failAttempt_frame [simp]: "job_frame d e \<Longrightarrow> job_frame d (failAttempt now c j err e)"
  unfolding failAttempt_def Let_def by (auto split: option.splits attempt_outcome.splits)

lemma recordJobError_frame [simp]: "job_frame d e \<Longrightarrow> job_frame d (recordJobError j err e)"
  by (simp add: recordJobError_def split: option.split)

lemma storeJitConfig_frame [simp]: "job_frame d e \<Longrightarrow> job_frame d (snd (storeJitConfig c jit r e))"
  by (simp add: storeJitConfig_def split: option.split)

lemma claim_command_frame:
  "claim_command now token c e = Inr (r, e') \<Longrightarrow> job_frame d e \<Longrightarrow> job_frame d e'"
  unfolding claim_command_def by (auto elim!: handlerE split: handler_cases)

lemma report_command_frame:
  "report_command now token c code e = Inr (r, e') \<Longrightarrow> job_frame d e \<Longrightarrow> job_frame d e'"
  unfolding report_command_def Let_def by (auto elim!: handlerE split: handler_cases)

lemma move_assignment_frame [simp]: "job_frame d e \<Longrightarrow> job_frame d (move_assignment now a c p e)"
  unfolding move_assignment_def Let_def by (auto split: bool.split option.split)

lemma adoptRunnerAssignment_frame:
  "adoptRunnerAssignment now a name e = Inr (j, e') \<Longrightarrow> job_frame d e \<Longrightarrow> job_frame d e'"
  unfolding adoptRunnerAssignment_def Let_def by (auto elim!: handlerE split: handler_cases)

lemma cancel_command_frame [simp]: "job_frame d e \<Longrightarrow> job_frame d (cancel_command now b j c e)"
  by (simp add: cancel_command_def Let_def)

lemma settle_job_frame [simp]: "job_frame d e \<Longrightarrow> job_frame d (settle_job now args i j e)"
  unfolding settle_job_def Let_def 
  by (rule job_frame_writes(8), rule fold_frame [where I = "job_frame d"]) simp_all

lemma found_or_running_frame: "job_frame d e \<Longrightarrow> job_frame d (snd (found_or_running now args x e))"
  by (simp add: found_or_running_def Let_def split: option.split)

lemma applyWorkflowJob_cases:
  assumes run: "applyWorkflowJob now args d = Inr d'"
  defines "x \<equiv> db_first (db_query (\<lambda>j. jb_ghJobId j = wj_ghJobId args) (d_jobs d))"
  obtains "d' = d" | "d' = apply_queued now args x d" | "apply_in_progress now args x d = Inr d'"
  | "apply_completed now args x d = Inr d'"
proof (cases "x = None \<and> ''self-hosted'' \<notin> set (wj_labels args)")
  case True
  then show ?thesis using run that(1) by (simp add: applyWorkflowJob_def x_def)
next
  case False
  note run' = run [unfolded applyWorkflowJob_def Let_def x_def [symmetric] if_not_P [OF False]]
  show ?thesis
    by (cases "wj_action args") (use run' that(2-4) in \<open>simp_all only: workflow_action.simps sum.inject\<close>)
qed

lemma applyWorkflowJob_frame:
  assumes "applyWorkflowJob now args e = Inr e'" "job_frame d e"
  shows "job_frame d e'"
  using assms(1)
proof (cases rule: applyWorkflowJob_cases)
  case 2
  then show ?thesis using assms(2) by (auto simp: apply_queued_def split: option.split)
next
  let ?x = "db_first (db_query (\<lambda>j. jb_ghJobId j = wj_ghJobId args) (d_jobs e))"
  note found = found_or_running_frame [OF assms(2), of now args ?x]
  {
    case 3
    then show ?thesis using found
      by (auto simp: apply_in_progress_def case_prod_beta elim!: handlerE dest: adoptRunnerAssignment_frame)
  next
    case 4
    then show ?thesis using found assms(2)
      by (auto simp: apply_completed_def Let_def case_prod_beta elim!: handlerE split: if_split_asm
          dest: adoptRunnerAssignment_frame)
  }
qed (use assms in simp)

lemma admin_job_frame [simp]:
  "job_frame d e \<Longrightarrow> job_frame d (dropJob now j e)" "job_frame d e \<Longrightarrow> job_frame d (requeueJob now j e)"
  by (simp_all add: dropJob_def requeueJob_def Let_def split: option.split)

lemma enqueue_frame [simp]: "job_frame d e \<Longrightarrow> job_frame d (enqueue now repo inst r name e)"
  by (simp add: enqueue_def)

lemma settleDeletion_frame [simp]: "job_frame d e \<Longrightarrow> job_frame d (settleDeletion i ok err e)"
  by (auto simp: settleDeletion_def Let_def job_frame_def same_attempts_def used_slots_nonneg_def
      split: option.split)


section \<open>Slot accounting of Jobs\<close>

text \<open>
  Inside a handler the used slots differ from the work by a known amount; \<open>slots_dev D\<close> tracks it from
  write to write.
\<close>

definition slots_dev :: "(nat \<Rightarrow> int) \<Rightarrow> db \<Rightarrow> bool" where
  "slots_dev D d \<longleftrightarrow> (\<forall>m row. db_get (d_machines d) m = Some row \<longrightarrow> mc_usedSlots row = work_on m d + D m)"

lemma slots_dev_exact: "db_ok d \<Longrightarrow> slots_ok d \<longleftrightarrow> slots_dev (\<lambda>_. 0) d"
  by (simp add: slots_ok_iff slots_dev_def)

lemma slots_dev_cong: "slots_dev D d \<Longrightarrow> (\<And>m. D m = E m) \<Longrightarrow> slots_dev E d"
  by (simp add: slots_dev_def)

lemma slots_dev_writes [simp]:
  "slots_dev D (patch_command i f d) = slots_dev D d" "slots_dev D (delete_command i d) = slots_dev D d"
  "slots_dev D (insert_command c d) = slots_dev D d" "slots_dev D (insert_deletion r d) = slots_dev D d"
  "slots_dev D (runAfter t d) = slots_dev D d"
  by (simp_all add: slots_dev_def work_on_def insert_command_def insert_deletion_def)

lemma slots_dev_patch_job:
  assumes "slots_dev D d" "db_ok d" "db_get (d_jobs d) i = Some j"
  shows "slots_dev (\<lambda>m. D m + of_bool (job_on m j) - of_bool (job_on m (f j))) (patch_job i f d)"
  using assms(1) by (auto simp: slots_dev_def work_on_patch_job [OF assms(2,3)])

lemma slots_dev_release:
  assumes "slots_dev D d" "\<And>m. mid = Some m \<Longrightarrow> 1 \<le> work_on m d + D m"
  shows "slots_dev (\<lambda>m. D m - of_bool (mid = Some m)) (releaseMachineSlot mid d)"
proof (cases "\<exists>m row. mid = Some m \<and> db_get (d_machines d) m = Some row")
  case True
  then obtain m row where m: "mid = Some m" "db_get (d_machines d) m = Some row" by blast
  then have "mc_usedSlots row = work_on m d + D m" using assms(1) by (simp add: slots_dev_def)
  with m assms show ?thesis
    by (auto simp: slots_dev_def releaseMachineSlot_def work_on_def)
next
  case False
  then have "releaseMachineSlot mid d = d" by (auto simp: releaseMachineSlot_def split: option.splits)
  with False assms(1) show ?thesis by (auto simp: slots_dev_def)
qed

lemma slots_dev_insert_job:
  assumes "slots_dev D d" "ids_below (d_nextId d) (d_jobs d)" "\<And>m. \<not> job_on m j"
  shows "slots_dev D (insert_job j d)"
proof -
  have "work_on m (insert_job j d) = work_on m d" for m
    using tb.count_add [OF ids_below_fresh [OF assms(2)], of j "job_on m"] assms(3) 
    by (simp add: work_on_def insert_job_def del: db_ids_simps)
  then show ?thesis using assms(1) by (simp add: slots_dev_def)
qed

lemma enqueueRunnerDeletion_jobs [simp]:
  "d_jobs (snd (enqueueRunnerDeletion now c j d)) = d_jobs d"
  "d_commands (snd (enqueueRunnerDeletion now c j d)) = d_commands d"
  "slots_dev D (snd (enqueueRunnerDeletion now c j d)) = slots_dev D d"
  "work_on m (snd (enqueueRunnerDeletion now c j d)) = work_on m d"
  by (simp_all add: enqueueRunnerDeletion_def insert_deletion_def slots_dev_def work_on_def split: option.split)

lemma discardCommand_jobs [simp]:
  "d_jobs (discardCommand now c j d) = d_jobs d" "slots_dev D (discardCommand now c j d) = slots_dev D d"
  "work_on m (discardCommand now c j d) = work_on m d"
  by (simp_all add: discardCommand_def work_on_cong [of "delete_command _ _"])

lemma discard_commands_jobs [simp]:
  "d_jobs (discard_commands now cs j d) = d_jobs d" "slots_dev D (discard_commands now cs j d) = slots_dev D d"
  "work_on m (discard_commands now cs j d) = work_on m d"
  unfolding discard_commands_def by (induction cs arbitrary: d) simp_all

lemma work_on_writes [simp]:
  "work_on m (patch_command i f d) = work_on m d" "work_on m (runAfter t d) = work_on m d"
  "work_on m (patch_machine i g d) = work_on m d" "work_on m (releaseMachineSlot mid d) = work_on m d"
  by (simp_all add: work_on_def)

lemma job_frame_db_ok: "core_ok d \<Longrightarrow> job_frame d e \<Longrightarrow> db_ok e"
  using job_frame_core core_ok_def by blast

text \<open>An uncancelled command of an assigned Job is on the Worker the Job is assigned to.\<close>

definition assignments_ok :: "db \<Rightarrow> bool" where
  "assignments_ok d \<longleftrightarrow> (\<forall>(k, c) \<in> set (d_commands d). cm_status c \<noteq> CmdCancelled \<longrightarrow>
     (case db_get (d_jobs d) (cm_jobId c) of
        None \<Rightarrow> True
      | Some j \<Rightarrow> jb_status j = JobAssigned \<longrightarrow> jb_machineId j = Some (cm_machineId c)))"

definition queued_ok :: "db \<Rightarrow> bool" where
  "queued_ok d \<longleftrightarrow> (\<forall>(i, j) \<in> set (d_jobs d). jb_status j = JobQueued \<longrightarrow> jb_machineId j = None)"

lemma adopt_cases:
  assumes "adoptRunnerAssignment now (i, a) name d = Inr (job, d')"
  obtains "job = a" "d' = d"
  | n k c p where "\<not> job_over (jb_status a)" "(k, c) \<in> set (d_commands d)" "cm_runnerName c = n" "cm_status c \<noteq> CmdCancelled"
      "db_get (d_jobs d) (cm_jobId c) = Some p" "jb_status p = JobAssigned" "jb_repo p = jb_repo a"
      "cm_jobId c = i \<or> jb_status a \<noteq> JobRunning \<or> jb_machineId a = None"
      "job = adopted_job now (cm_machineId c) n (cm_jobId c = i) a a"
      "d' = patch_job i (adopted_job now (cm_machineId c) n (cm_jobId c = i) a)
         (if cm_jobId c = i then d else move_assignment now (i, a) k (cm_jobId c) d)"
proof -
  consider "name = None \<or> job_over (jb_status a)" | n where "name = Some n" "\<not> job_over (jb_status a)"
    by (cases name) auto
  then show thesis
  proof cases
    case 1
    then show ?thesis using assms that(1) by (auto simp: adoptRunnerAssignment_def split: option.split_asm)
  next
    case 2
    from assms 2 obtain found where found: "db_unique (db_query (\<lambda>c. cm_runnerName c = n) (d_commands d)) = Inr found"
      by (auto simp: adoptRunnerAssignment_def elim!: res_bind_InrE)
    show ?thesis
    proof (cases found)
      case None
      then show ?thesis using assms that(1) 2 found by (simp add: adoptRunnerAssignment_def)
    next
      case (Some kc)
      obtain k c where kc: "kc = (k, c)" by (cases kc)
      then have "(k, c) \<in> set (db_query (\<lambda>c. cm_runnerName c = n) (d_commands d))"
        using found Some by (simp add: db_unique_Some)
      then have c: "(k, c) \<in> set (d_commands d)" "cm_runnerName c = n" by (simp_all add: db_query_iff)
      note run = assms [unfolded adoptRunnerAssignment_def Let_def 2(1) option.case snd_conv fst_conv
          if_not_P [OF 2(2)] found res_bind_simps Some kc prod.case]
      show ?thesis
      proof (cases "cm_status c = CmdCancelled \<or> db_get (d_jobs d) (cm_jobId c) = None")
        case True
        then show ?thesis using run that(1) by (auto split: if_split_asm)
      next
        case False
        then obtain p where p: "db_get (d_jobs d) (cm_jobId c) = Some p" by auto
        show ?thesis
        proof (cases "jb_repo p \<noteq> jb_repo a \<or> jb_status p \<noteq> JobAssigned \<or>
            cm_jobId c \<noteq> i \<and> jb_status a = JobRunning \<and> (jb_runnerName a \<noteq> None \<or> jb_machineId a \<noteq> None)")
          case True
          then show ?thesis using run that(1) False p by (auto split: if_split_asm)
        next
          case ok: False
          show ?thesis by (rule that(2) [OF 2(2) c _ p]) (use run ok False p in \<open>auto split: if_split_asm\<close>)
        qed
      qed
    qed
  qed
qed


lemma job_on_simps:
  "job_on m (adopted_job now mid n same a j) \<longleftrightarrow> mid = m"
  "\<not> job_on m (requeue_displaced j)"
  by (auto simp: job_on_def adopted_job_def requeue_displaced_def)

lemma move_assignment_slots:
  assumes ok: "core_ok d" "used_slots_nonneg d" and slots: "slots_dev (\<lambda>_. 0) d"
    and a: "db_get (d_jobs d) i = Some a" and c: "jb_status p = JobAssigned" "jb_machineId p = Some mid"
    and p: "db_get (d_jobs d) pid = Some p" "pid \<noteq> i"
    and run: "jb_status a \<noteq> JobRunning \<or> jb_machineId a = None" "\<not> job_over (jb_status a)"
  shows "slots_dev (\<lambda>m. of_bool (m = mid) - of_bool (job_on m a)) (move_assignment now (i, a) k pid d)"
proof -
  let ?prev = "List.find (\<lambda>c. live_assignment a (snd c)) (commandsForJob i d)"
  let ?d1 = "patch_command k (\<lambda>c. c\<lparr>cm_jobId := i\<rparr>) d"
  have d: "db_ok d" using ok by (simp add: core_ok_def)
  have refl: "job_frame d d" using ok by (rule job_frame_refl)
  show ?thesis
  proof (cases "jb_status a = JobAssigned \<and> ?prev \<noteq> None")
    case True
    then obtain q c where q: "?prev = Some (q, c)" by auto
    then have "live_assignment a c" by (auto dest!: find_SomeD)
    then have m: "jb_machineId a = Some (cm_machineId c)" by (simp add: live_assignment_def)
    let ?f = "\<lambda>j. j\<lparr>jb_machineId := Some (cm_machineId c), jb_runnerName := Some (cm_runnerName c), jb_nextAttemptAt := None\<rparr>"
    have "slots_dev (\<lambda>m. 0 + of_bool (job_on m p) - of_bool (job_on m (?f p)))
        (patch_job pid ?f (patch_command q (\<lambda>c. c\<lparr>cm_jobId := pid\<rparr>) ?d1))"
      by (rule slots_dev_patch_job) (use slots d p in simp_all)
    then show ?thesis
      using True q c m by (auto simp: move_assignment_def Let_def job_on_def elim!: slots_dev_cong)
  next
    case False
    let ?d2 = "discard_commands now (commandsForJob i d) (Some a) ?d1"
    let ?d3 = "if jb_status a = JobAssigned \<and> jb_machineId a \<noteq> None
      then runAfter DrainRunnerDeletions (releaseMachineSlot (jb_machineId a) ?d2) else ?d2"
    have on: "job_on m a \<longleftrightarrow> jb_status a = JobAssigned \<and> jb_machineId a = Some m" for m
      using run by (cases "jb_status a") (auto simp: job_on_def job_over_def)
    have d3: "slots_dev (\<lambda>m. - of_bool (job_on m a)) ?d3"
    proof (cases "jb_status a = JobAssigned \<and> jb_machineId a \<noteq> None")
      case True
      have "slots_dev (\<lambda>m. 0 - of_bool (jb_machineId a = Some m)) (releaseMachineSlot (jb_machineId a) ?d2)"
        by (rule slots_dev_release) (use slots work_on_pos_job [OF d a] True in \<open>auto simp: on\<close>)
      then show ?thesis using True by (auto simp: on elim!: slots_dev_cong)
    next
      case False
      then have "\<not> job_on m a" for m by (auto simp: on)
      then show ?thesis using False slots by auto
    qed
    have "job_frame d ?d3" using refl by simp
    then have "db_ok ?d3" by (rule job_frame_db_ok [OF ok(1)])
    moreover have "d_jobs ?d3 = d_jobs d" by simp
    ultimately have "slots_dev (\<lambda>m. - of_bool (job_on m a) + of_bool (job_on m p) - of_bool (job_on m (requeue_displaced p)))
        (patch_job pid requeue_displaced ?d3)"
      by (intro slots_dev_patch_job d3) (use p in simp_all)
    moreover have "move_assignment now (i, a) k pid d = patch_job pid requeue_displaced ?d3"
      using False by (cases "jb_status a = JobAssigned"; cases ?prev) (auto simp: move_assignment_def Let_def)
    ultimately show ?thesis
      using c by (auto simp: job_on_def requeue_displaced_def elim!: slots_dev_cong)
  qed
qed


lemma move_assignment_others:
  "j \<noteq> pid \<Longrightarrow> db_get (d_jobs (move_assignment now (i, a) k pid d)) j = db_get (d_jobs d) j"
  unfolding move_assignment_def Let_def by (auto split: bool.split option.split)

lemma adopt_slots:
  assumes ok: "core_ok d" "used_slots_nonneg d" and slots: "slots_ok d" and cmds: "assignments_ok d"
    and a: "db_get (d_jobs d) i = Some a" and run: "adoptRunnerAssignment now (i, a) name d = Inr (job, d')"
  shows "slots_ok d' \<and> db_get (d_jobs d') i = Some job \<and> (jb_status job = JobQueued \<longrightarrow> job = a)"
  using run
proof (cases rule: adopt_cases)
  case 1
  then show ?thesis using slots a by simp
next
  case (2 n k c p)
  have d: "db_ok d" using ok by (simp add: core_ok_def)
  have frame: "job_frame d d'" using adoptRunnerAssignment_frame [OF run job_frame_refl [OF ok]] .
  have mid: "jb_machineId p = Some (cm_machineId c)"
    using cmds 2 by (auto simp: assignments_ok_def)
  let ?d1 = "if cm_jobId c = i then d else move_assignment now (i, a) k (cm_jobId c) d"
  let ?f = "adopted_job now (cm_machineId c) n (cm_jobId c = i) a"
  have dev: "slots_dev (\<lambda>m. of_bool (m = cm_machineId c) - of_bool (job_on m a)) ?d1"
  proof (cases "cm_jobId c = i")
    case True
    then have "a = p" using 2 a by simp
    then have "job_on m a \<longleftrightarrow> m = cm_machineId c" for m using 2 mid by (auto simp: job_on_def)
    then show ?thesis using True slots d by (simp add: slots_dev_exact)
  next
    case False
    have "slots_dev (\<lambda>_. 0) d" using slots d by (simp add: slots_dev_exact)
    from move_assignment_slots [OF ok this a _ mid _ False] False 2 show ?thesis by auto
  qed
  have "job_frame d ?d1" using job_frame_refl [OF ok] by simp
  then have ok1: "db_ok ?d1" by (rule job_frame_db_ok [OF ok(1)])
  have row: "db_get (d_jobs ?d1) i = Some a" using a by (auto simp: move_assignment_others)
  have "slots_dev (\<lambda>m. of_bool (m = cm_machineId c) - of_bool (job_on m a) + of_bool (job_on m a) - of_bool (job_on m (?f a))) d'"
    unfolding 2(10) by (rule slots_dev_patch_job [OF dev ok1 row])
  then have "slots_dev (\<lambda>_. 0) d'" by (rule slots_dev_cong) (auto simp: job_on_simps)
  moreover have "db_ok d'" using frame by (rule job_frame_db_ok [OF ok(1)])
  moreover have "db_get (d_jobs d') i = Some (?f a)" using row 2(10) by simp
  ultimately show ?thesis using 2(9) by (simp add: slots_dev_exact adopted_job_def)
qed

lemma db_ok_job_writes [simp]:
  "db_ok (insert_deletion r d) = db_ok d" "db_ok (insert_command c d) = db_ok d"
  "db_ok d \<Longrightarrow> db_ok (cancel_command now b j x d)"
  by (auto simp: insert_deletion_def insert_command_def db_ok_def cancel_command_def Let_def
      enqueueRunnerDeletion_def split: option.split)

lemma settle_job_slots:
  assumes slots: "slots_ok d" and d: "db_ok d" and row: "db_get (d_jobs d) i = Some job"
    and q: "jb_status job = JobQueued \<Longrightarrow> jb_machineId job = None" and live: "\<not> job_over (jb_status job)"
  shows "slots_ok (settle_job now args i job d)"
proof -
  let ?s = "if or_else (wj_conclusion args) ''unknown'' = ''success'' then JobDone else JobFailed"
  let ?f = "\<lambda>j. j\<lparr>jb_status := ?s, jb_conclusion := Some (or_else (wj_conclusion args) ''unknown''),
                 jb_finishedAt := Some now, jb_nextAttemptAt := None\<rparr>"
  let ?d1 = "patch_job i ?f d"
  let ?d2 = "releaseMachineSlot (jb_machineId job) ?d1"
  have on: "job_on m job \<longleftrightarrow> jb_machineId job = Some m" for m
    using q live by (cases "jb_status job") (auto simp: job_on_def job_over_def)
  have "slots_dev (\<lambda>m. 0 + of_bool (job_on m job) - of_bool (job_on m (?f job))) ?d1"
    by (rule slots_dev_patch_job) (use slots d row in \<open>simp_all add: slots_dev_exact\<close>)
  then have dev1: "slots_dev (\<lambda>m. of_bool (jb_machineId job = Some m)) ?d1"
    by (rule slots_dev_cong) (auto simp: on, simp_all add: job_on_def)
  have "slots_dev (\<lambda>m. of_bool (jb_machineId job = Some m) - of_bool (jb_machineId job = Some m)) ?d2"
    by (rule slots_dev_release [OF dev1]) (auto simp: work_on_nonneg)
  then have "slots_dev (\<lambda>_. 0) ?d2" by simp
  then have "slots_dev (\<lambda>_. 0) (fold (cancel_command now (jb_status job \<noteq> JobRunning) job) (commandsForJob i ?d2) ?d2)"
    by (rule fold_frame) (simp add: cancel_command_def Let_def)
  moreover have "db_ok (fold (cancel_command now (jb_status job \<noteq> JobRunning) job) (commandsForJob i ?d2) ?d2)"
    by (rule fold_frame) (use d in simp_all)
  ultimately show ?thesis
    by (simp add: settle_job_def Let_def slots_dev_exact)
qed


lemma db_first_query:
  assumes "db_wf t" "db_first (db_query P t) = Some (i, r)"
  shows "db_get t i = Some r"
proof -
  have "(i, r) \<in> set (db_query P t)" using assms(2) by (auto simp: db_first_def split: list.split_asm)
  then show ?thesis using assms(1) by (simp add: db_query_iff db_wf_get_iff)
qed

lemma insert_job_slots:
  assumes "db_ok d" "ids_below (d_nextId d) (d_jobs d)" "slots_ok d" "\<And>m. \<not> job_on m j"
  shows "slots_ok (insert_job j d)"
proof -
  have "slots_dev (\<lambda>_. 0) (insert_job j d)"
    using slots_dev_insert_job [OF _ assms(2,4)] assms by (simp add: slots_dev_exact)
  moreover have "db_ok (insert_job j d)" using assms by (simp add: db_ok_def insert_job_def)
  ultimately show ?thesis by (simp add: slots_dev_exact)
qed

lemma patch_job_same_slots:
  assumes "db_ok d" "slots_ok d" "db_get (d_jobs d) i = Some j" "\<And>m. job_on m (f j) = job_on m j"
  shows "slots_ok (patch_job i f d)"
  using slots_dev_patch_job [of "\<lambda>_. 0" d i j f] assms by (simp add: slots_dev_exact)

lemma found_or_running_slots:
  assumes ok: "core_ok d" "slots_ok d" "assignments_ok d" "queued_ok d"
    and x: "\<And>i j. x = Some (i, j) \<Longrightarrow> db_get (d_jobs d) i = Some j"
    and run: "found_or_running now args x d = ((i, a), d')"
  shows "slots_ok d' \<and> assignments_ok d' \<and> db_get (d_jobs d') i = Some a \<and>
    (jb_status a = JobQueued \<longrightarrow> jb_machineId a = None)"
proof (cases x)
  case None
  let ?j = "(new_job now args JobRunning)\<lparr>jb_startedAt := Some now\<rparr>"
  have below: "ids_below (d_nextId d) (d_jobs d)" using ok(1) by (simp add: core_ok_def fresh_ok_split)
  have "slots_ok (insert_job ?j d)"
    by (rule insert_job_slots) (use ok below in \<open>simp_all add: core_ok_def job_on_def new_job_def\<close>)
  moreover have "assignments_ok (insert_job ?j d)"
    using ok(3) below by (auto simp: assignments_ok_def new_job_def)
  ultimately show ?thesis
    using run None below by (auto simp: found_or_running_def Let_def new_job_def)
next
  case (Some y)
  then have "db_get (d_jobs d) i = Some a" using run x by (cases y) (simp add: found_or_running_def)
  then show ?thesis
    using Some run ok by (auto simp: found_or_running_def queued_ok_def dest!: db_get_in_set)
qed

lemma started_slots:
  assumes d: "db_ok d" "slots_ok d" and row: "db_get (d_jobs d) i = Some job"
    and job: "jb_status job = JobAssigned \<or> jb_status job = JobQueued \<and> jb_machineId job = None"
  shows "slots_ok (patch_job i (\<lambda>j. j\<lparr>jb_status := JobRunning, jb_startedAt := Some now\<rparr>) d)"
proof -
  let ?f = "\<lambda>j. j\<lparr>jb_status := JobRunning, jb_startedAt := Some now\<rparr>"
  have "slots_dev (\<lambda>m. 0 + of_bool (job_on m job) - of_bool (job_on m (?f job))) (patch_job i ?f d)"
    by (rule slots_dev_patch_job) (use d row in \<open>simp_all add: slots_dev_exact\<close>)
  then have "slots_dev (\<lambda>_. 0) (patch_job i ?f d)"
    by (rule slots_dev_cong) (use job in \<open>auto simp: job_on_def\<close>)
  then show ?thesis using d by (simp add: slots_dev_exact)
qed

text \<open>What a \<open>started\<close> or \<open>completed\<close> event does after it has found the Job's row.\<close>

lemma event_result:
  assumes run: "apply_in_progress now args x d = Inr d' \<or>
      apply_completed now args x d = Inr d' \<and> (x \<noteq> None \<or> wj_runnerName args \<noteq> None)"
  obtains i a d1 job d2 where "found_or_running now args x d = ((i, a), d1)"
    "adoptRunnerAssignment now (i, a) (wj_runnerName args) d1 = Inr (job, d2)"
    "d' = d2 \<or> d' = patch_job i (\<lambda>j. j\<lparr>jb_status := JobRunning, jb_startedAt := Some now\<rparr>) d2 \<and>
         (jb_status job = JobAssigned \<or> jb_status job = JobQueued) \<or>
       d' = settle_job now args i job d2 \<and> \<not> job_over (jb_status job)"
proof -
  obtain i a d1 where fr: "found_or_running now args x d = ((i, a), d1)" by (metis surj_pair)
  show thesis
    using run that [OF fr]
    by (auto simp: apply_in_progress_def apply_completed_def Let_def fr elim!: handlerE split: if_split_asm)
qed

lemma event_slots:
  assumes ok: "core_ok d" "used_slots_nonneg d" "slots_ok d" "assignments_ok d" "queued_ok d"
    and x: "\<And>i j. x = Some (i, j) \<Longrightarrow> db_get (d_jobs d) i = Some j"
    and run: "apply_in_progress now args x d = Inr d' \<or>
      apply_completed now args x d = Inr d' \<and> (x \<noteq> None \<or> wj_runnerName args \<noteq> None)"
  shows "slots_ok d'"
proof -
  obtain i a d1 job d2 where fr: "found_or_running now args x d = ((i, a), d1)"
    and ad: "adoptRunnerAssignment now (i, a) (wj_runnerName args) d1 = Inr (job, d2)"
    and out: "d' = d2 \<or> d' = patch_job i (\<lambda>j. j\<lparr>jb_status := JobRunning, jb_startedAt := Some now\<rparr>) d2 \<and>
         (jb_status job = JobAssigned \<or> jb_status job = JobQueued) \<or>
       d' = settle_job now args i job d2 \<and> \<not> job_over (jb_status job)"
    using event_result [OF run] .
  have "job_frame d d1"
    using found_or_running_frame [OF job_frame_refl [OF ok(1,2)], of now args x] fr by simp
  then have core: "core_ok d1" "used_slots_nonneg d1" using job_frame_core [OF ok(1)] by auto
  have f: "slots_ok d1" "assignments_ok d1" "db_get (d_jobs d1) i = Some a"
    "jb_status a = JobQueued \<longrightarrow> jb_machineId a = None"
    using found_or_running_slots [OF ok(1,3,4,5) x fr] by auto
  have g: "slots_ok d2" "db_get (d_jobs d2) i = Some job" "jb_status job = JobQueued \<longrightarrow> job = a"
    using adopt_slots [OF core f(1,2,3) ad] by auto
  have "db_ok d2"
    using job_frame_db_ok [OF core(1) adoptRunnerAssignment_frame [OF ad job_frame_refl [OF core]]] .
  then show ?thesis
    using out g f(4) started_slots [of d2 i job now] settle_job_slots [of d2 i job now args] by auto
qed



section \<open>Jobs that are over, and one row per Job\<close>

definition over_kept :: "db \<Rightarrow> db \<Rightarrow> bool" where
  "over_kept d e \<longleftrightarrow>
     (\<forall>i j. db_get (d_jobs d) i = Some j \<longrightarrow> job_over (jb_status j) \<longrightarrow> db_get (d_jobs e) i = Some j)"

lemma over_kept_refl [simp]: "over_kept d d"
  by (simp add: over_kept_def)

lemma over_kept_trans: "over_kept c d \<Longrightarrow> over_kept d e \<Longrightarrow> over_kept c e"
  by (simp add: over_kept_def)

lemma over_kept_jobs: "d_jobs e = d_jobs e' \<Longrightarrow> over_kept d e = over_kept d e'"
  by (simp add: over_kept_def)

lemma over_kept_patch:
  assumes "over_kept d e" "\<And>j. db_get (d_jobs d) i = Some j \<Longrightarrow> \<not> job_over (jb_status j)"
  shows "over_kept d (patch_job i f e)"
  using assms by (auto simp: over_kept_def)

lemma over_kept_insert:
  assumes "over_kept d e" "ids_below (d_nextId e) (d_jobs e)"
  shows "over_kept d (insert_job j e)"
  using assms db_get_below by (fastforce simp: over_kept_def)

lemma fold_jobs:
  assumes "\<And>x d. d_jobs (f x d) = d_jobs d"
  shows "d_jobs (fold f xs d) = d_jobs d"
  using assms by (induction xs arbitrary: d) auto

lemma settle_job_jobs:
  "d_jobs (settle_job now args i job d) = db_patch (d_jobs d) i (\<lambda>j. j
     \<lparr>jb_status := (if or_else (wj_conclusion args) ''unknown'' = ''success'' then JobDone else JobFailed),
      jb_conclusion := Some (or_else (wj_conclusion args) ''unknown''), jb_finishedAt := Some now,
      jb_nextAttemptAt := None\<rparr>)"
  by (simp add: settle_job_def Let_def fold_jobs cancel_command_def)

lemma adopt_over_kept:
  assumes a: "db_get (d_jobs d) i = Some a" and run: "adoptRunnerAssignment now (i, a) name d = Inr (job, d')"
  shows "over_kept d d' \<and> db_get (d_jobs d') i = Some job"
  using run
proof (cases rule: adopt_cases)
  case (2 n k c p)
  have "over_kept d (move_assignment now (i, a) k (cm_jobId c) d)"
    unfolding over_kept_def
  proof (intro allI impI)
    fix q j assume j: "db_get (d_jobs d) q = Some j" "job_over (jb_status j)"
    then have "q \<noteq> cm_jobId c" using 2(5,6) by (auto simp: job_over_def)
    then show "db_get (d_jobs (move_assignment now (i, a) k (cm_jobId c) d)) q = Some j"
      using j(1) by (simp add: move_assignment_others)
  qed
  then have "over_kept d (if cm_jobId c = i then d else move_assignment now (i, a) k (cm_jobId c) d)" by simp
  then have "over_kept d d'" unfolding 2(10) by (rule over_kept_patch) (use 2(1) a in simp)
  moreover have "db_get (d_jobs d') i = Some job"
    using a by (simp add: 2(9,10) move_assignment_others)
  ultimately show ?thesis by simp
qed (use a in simp)

lemma event_over_kept:
  assumes ok: "ids_below (d_nextId d) (d_jobs d)" and x: "\<And>i j. x = Some (i, j) \<Longrightarrow> db_get (d_jobs d) i = Some j"
    and run: "apply_in_progress now args x d = Inr d' \<or> apply_completed now args x d = Inr d'"
  shows "over_kept d d'"
proof (cases "x = None \<and> wj_runnerName args = None \<and> apply_completed now args x d = Inr d'")
  case True
  then show ?thesis using ok by (auto simp: apply_completed_def Let_def intro!: over_kept_insert)
next
  case False
  with run have run': "apply_in_progress now args x d = Inr d' \<or>
      apply_completed now args x d = Inr d' \<and> (x \<noteq> None \<or> wj_runnerName args \<noteq> None)" by auto
  obtain i a d1 job d2 where fr: "found_or_running now args x d = ((i, a), d1)"
    and ad: "adoptRunnerAssignment now (i, a) (wj_runnerName args) d1 = Inr (job, d2)"
    and out: "d' = d2 \<or> d' = patch_job i (\<lambda>j. j\<lparr>jb_status := JobRunning, jb_startedAt := Some now\<rparr>) d2 \<and>
         (jb_status job = JobAssigned \<or> jb_status job = JobQueued) \<or>
       d' = settle_job now args i job d2 \<and> \<not> job_over (jb_status job)"
    using event_result [OF run'] .
  have d1: "over_kept d d1 \<and> db_get (d_jobs d1) i = Some a"
    using fr x ok by (auto simp: found_or_running_def Let_def intro!: over_kept_insert split: option.split_asm)
  have d2: "over_kept d1 d2" "db_get (d_jobs d2) i = Some job" using adopt_over_kept [OF _ ad] d1 by auto
  from out have "over_kept d2 d'" using d2(2) by (auto simp: over_kept_def settle_job_jobs job_over_def)
  then show ?thesis using d1 d2(1) over_kept_trans by blast
qed


lemma assign_job_jobs:
  "d_jobs (assign_job now (i, j) (((m, row), used), entry) d) =
     db_patch (d_jobs d) i (\<lambda>r. r\<lparr>jb_status := JobAssigned, jb_machineId := Some m,
       jb_runnerName := Some (job_runner_name row j (or_else (jb_attempts j) 0 + 1)),
       jb_attempts := Some (or_else (jb_attempts j) 0 + 1), jb_nextAttemptAt := None\<rparr>)"
  by (simp add: assign_job_def Let_def)

lemma eligible_jobs_row:
  assumes "db_wf (d_jobs d)" "(i, j) \<in> set (eligible_jobs now d)"
  shows "db_get (d_jobs d) i = Some j" "jb_status j = JobQueued"
  using assms by (simp_all add: eligible_jobs_def db_query_iff db_wf_get_iff)

lemma place_job_over_kept:
  assumes "over_kept d (snd (snd s))" "\<And>j. db_get (d_jobs d) (fst doc) = Some j \<Longrightarrow> \<not> job_over (jb_status j)"
  shows "over_kept d (snd (snd (place_job now doc s)))"
proof -
  obtain n hosts e where s: "s = (n, hosts, e)" by (cases s)
  show ?thesis
  proof (cases "scan_machines (snd doc) hosts None")
    case (Some choice)
    obtain i j m row used entry where c: "doc = (i, j)" "choice = (((m, row), used), entry)"
      by (metis prod.exhaust)
    show ?thesis
      using assms Some by (auto simp: s c place_job_def over_kept_def assign_job_jobs)
  qed (use assms in \<open>simp add: s place_job_def\<close>)
qed

lemma legacy_tryAssign_over_kept:
  assumes "db_wf (d_jobs d)"
  shows "over_kept d (snd (legacy_tryAssign now d))"
proof -
  have "over_kept d (snd (snd (fold (place_job now) (eligible_jobs now d) (0, job_hosts now d, d))))"
  proof (rule fold_frame [where I = "\<lambda>s. over_kept d (snd (snd s))"])
    fix x and s :: "int \<times> job_host list \<times> db"
    assume x: "x \<in> set (eligible_jobs now d)" and s: "over_kept d (snd (snd s))"
    show "over_kept d (snd (snd (place_job now x s)))"
      by (rule place_job_over_kept [OF s])
         (use eligible_jobs_row [OF assms, of "fst x" "snd x" now] x in \<open>simp add: job_over_def\<close>)
  qed simp
  then show ?thesis by (simp add: legacy_tryAssign_def case_prod_beta)
qed

lemma failAttempt_jobs:
  "\<exists>f. d_jobs (failAttempt now c jobId err d) = d_jobs d \<or>
     (\<exists>i j. db_get (d_jobs d) i = Some j \<and> jb_status j = JobAssigned \<and>
        d_jobs (failAttempt now c jobId err d) = db_patch (d_jobs d) i f)"
  unfolding failAttempt_def Let_def by (auto split: option.splits attempt_outcome.splits)

lemma failAttempt_over_kept: "over_kept d (failAttempt now c jobId err d)"
  using failAttempt_jobs [of now c jobId err d] by (auto simp: over_kept_def job_over_def)

text \<open>C37: A Job that is over stays exactly as it is: no \<open>workflow_job\<close> event, in whatever order it arrives, no run
  of the scheduler and no report of a failed provisioning changes its row. So a late \<open>queued\<close> event cannot
  bring a finished Job back.\<close>

theorem finished_job_kept:
  assumes "core_ok d" "db_get (d_jobs d) i = Some j" "job_over (jb_status j)"
  shows "(\<forall>args d'. applyWorkflowJob now args d = Inr d' \<longrightarrow> db_get (d_jobs d') i = Some j) \<and>
    db_get (d_jobs (snd (legacy_tryAssign now d))) i = Some j \<and>
    (\<forall>c jobId err. db_get (d_jobs (failAttempt now c jobId err d)) i = Some j)"
proof -
  have d: "db_wf (d_jobs d)" "ids_below (d_nextId d) (d_jobs d)"
    using assms(1) by (simp_all add: core_ok_def db_ok_def fresh_ok_split)
  have "over_kept d d'" if run: "applyWorkflowJob now args d = Inr d'" for args d'
    using run
  proof (cases rule: applyWorkflowJob_cases)
    case 2
    then show ?thesis using d db_first_query [OF d(1)]
      by (auto simp: apply_queued_def job_over_def over_kept_jobs [of "runAfter t e" e for t e]
          intro!: over_kept_patch over_kept_insert split: option.split)
  next
    case 3
    show ?thesis by (rule event_over_kept [OF d(2) _ disjI1 [OF 3]]) (rule db_first_query [OF d(1)])
  next
    case 4
    show ?thesis by (rule event_over_kept [OF d(2) _ disjI2 [OF 4]]) (rule db_first_query [OF d(1)])
  qed simp
  then show ?thesis
    using assms(2,3) legacy_tryAssign_over_kept [OF d(1)] failAttempt_over_kept by (simp add: over_kept_def)
qed

definition jobs_distinct :: "db \<Rightarrow> bool" where
  "jobs_distinct d \<longleftrightarrow> distinct (map (\<lambda>x. jb_ghJobId (snd x)) (d_jobs d))"

lemma jobs_distinct_patch:
  "(\<And>j. jb_ghJobId (f j) = jb_ghJobId j) \<Longrightarrow> jobs_distinct (patch_job i f d) = jobs_distinct d"
  by (simp add: jobs_distinct_def map_db_patch_same [of jb_ghJobId])

lemma jobs_distinct_insert:
  assumes "jobs_distinct d" "db_first (db_query (\<lambda>j. jb_ghJobId j = jb_ghJobId r) (d_jobs d)) = None"
  shows "jobs_distinct (insert_job r d)"
  using assms by (auto simp: jobs_distinct_def db_insert_def db_first_def db_query_def filter_empty_conv
      split: list.split_asm)

lemma jobs_distinct_jobs: "d_jobs e = d_jobs d \<Longrightarrow> jobs_distinct e = jobs_distinct d"
  by (simp add: jobs_distinct_def)


lemma move_assignment_distinct: "jobs_distinct (move_assignment now a k pid d) = jobs_distinct d"
  unfolding move_assignment_def Let_def
  by (auto simp: jobs_distinct_patch requeue_displaced_def jobs_distinct_jobs [of "runAfter t e" e for t e]
      jobs_distinct_jobs [of "releaseMachineSlot m e" e for m e] jobs_distinct_jobs [of "patch_command k f e" e for k f e]
      jobs_distinct_jobs [of "discard_commands now cs j e" e for cs j e] split: bool.split option.split)

lemma adopt_distinct:
  assumes "adoptRunnerAssignment now (i, a) name d = Inr (job, d')"
  shows "jobs_distinct d' = jobs_distinct d"
  using assms
proof (cases rule: adopt_cases)
  case (2 n k c p)
  then show ?thesis by (simp add: jobs_distinct_patch adopted_job_def move_assignment_distinct)
qed simp

lemma settle_job_distinct: "jobs_distinct (settle_job now args i job d) = jobs_distinct d"
  by (simp add: jobs_distinct_def settle_job_jobs map_db_patch_same [of jb_ghJobId])

text \<open>There is one row per GitHub job: no sequence of events, repeated or out of order, creates a second
  one, so one job is never provisioned twice from two rows.\<close>

lemma one_row_per_job:
  assumes "jobs_distinct d" "applyWorkflowJob now args d = Inr d'"
  shows "jobs_distinct d'"
  using assms(2)
proof (cases rule: applyWorkflowJob_cases)
  let ?x = "db_first (db_query (\<lambda>j. jb_ghJobId j = wj_ghJobId args) (d_jobs d))"
  have insert: "jobs_distinct (insert_job j d)" if "?x = None" "jb_ghJobId j = wj_ghJobId args" for j
    using jobs_distinct_insert [OF assms(1)] that by simp
  have event: "jobs_distinct d'"
    if run: "apply_in_progress now args ?x d = Inr d' \<or>
      apply_completed now args ?x d = Inr d' \<and> (?x \<noteq> None \<or> wj_runnerName args \<noteq> None)"
  proof -
    obtain i a d1 job d2 where fr: "found_or_running now args ?x d = ((i, a), d1)"
      and ad: "adoptRunnerAssignment now (i, a) (wj_runnerName args) d1 = Inr (job, d2)"
      and out: "d' = d2 \<or> d' = patch_job i (\<lambda>j. j\<lparr>jb_status := JobRunning, jb_startedAt := Some now\<rparr>) d2 \<and>
           (jb_status job = JobAssigned \<or> jb_status job = JobQueued) \<or>
         d' = settle_job now args i job d2 \<and> \<not> job_over (jb_status job)"
      using event_result [OF run] .
    have "jobs_distinct d1"
      using fr insert assms(1) by (auto simp: found_or_running_def Let_def new_job_def split: option.split_asm)
    then show ?thesis using out adopt_distinct [OF ad] by (auto simp: jobs_distinct_patch settle_job_distinct)
  qed
  {
    case 2
    then show ?thesis using insert [of "new_job now args JobQueued"] assms(1)
      by (auto simp: apply_queued_def jobs_distinct_patch new_job_def
          jobs_distinct_jobs [of "runAfter t e" e for t e] split: option.split)
  next
    case 3
    then show ?thesis using event by blast
  next
    case 4
    show ?thesis
    proof (cases "?x = None \<and> wj_runnerName args = None")
      case True
      then show ?thesis using 4 insert by (auto simp: apply_completed_def Let_def new_job_def)
    next
      case False
      then show ?thesis using 4 event by auto
    qed
  }
qed (use assms in simp)

section \<open>The scheduler\<close>

text \<open>During a run each Worker's counted slots are the stored ones.\<close>

definition hosts_current :: "job_host list \<Rightarrow> db \<Rightarrow> bool" where
  "hosts_current hosts d \<longleftrightarrow> distinct (map (\<lambda>h. fst (fst h)) hosts) \<and>
     (\<forall>((m, row), used) \<in> set hosts. \<exists>r. db_get (d_machines d) m = Some r \<and> mc_usedSlots r = used \<and>
        mc_maxSlots r = mc_maxSlots row)"


lemma distinct_map_js_sort:
  assumes "distinct (map f xs)"
  shows "distinct (map f (js_sort cmp xs))"
  using assms by (simp add: distinct_map distinct_js_sort)

definition within_slots :: "db \<Rightarrow> bool" where
  "within_slots d \<longleftrightarrow> list_all (\<lambda>x. mc_usedSlots (snd x) \<le> mc_maxSlots (snd x)) (d_machines d)"

lemma job_hosts_current:
  assumes "db_wf (d_machines d)"
  shows "hosts_current (job_hosts now d) d"
proof -
  have "distinct (map fst (d_machines d))" using assms by (simp add: db_wf_def)
  then have "distinct (map fst (online_machines now d))"
    unfolding online_machines_def db_query_def by (rule distinct_map_filter)
  then have "distinct (map (\<lambda>h. fst (fst h)) (job_hosts now d))"
    by (simp add: job_hosts_def comp_def distinct_map)
  moreover have "\<exists>r. db_get (d_machines d) m = Some r \<and> mc_usedSlots r = used \<and> mc_maxSlots r = mc_maxSlots row"
    if "((m, row), used) \<in> set (job_hosts now d)" for m row used
    using that assms by (auto simp: job_hosts_def online_machines_def db_query_iff db_wf_get_iff)
  ultimately show ?thesis by (auto simp: hosts_current_def)
qed

lemma assign_job_tables:
  "d_machines (assign_job now (i, j) (((m, row), used), entry) d) =
     db_patch (d_machines d) m (\<lambda>r. r\<lparr>mc_usedSlots := used + 1\<rparr>)"
  "db_ok (assign_job now (i, j) (((m, row), used), entry) d) = db_ok (patch_machine m (\<lambda>r. r\<lparr>mc_usedSlots := used + 1\<rparr>) d)"
  by (simp_all add: assign_job_def Let_def db_ok_def tb.wf_ids insert_command_def)

lemma assign_job_slots:
  assumes ok: "db_ok d" "slots_ok d" and row: "db_get (d_jobs d) i = Some j" "jb_status j = JobQueued"
    and m: "db_get (d_machines d) m = Some r" "mc_usedSlots r = used"
  shows "slots_ok (assign_job now (i, j) (((m, row), used), entry) d)"
proof -
  let ?d1 = "patch_machine m (\<lambda>r. r\<lparr>mc_usedSlots := used + 1\<rparr>) d"
  let ?n = "or_else (jb_attempts j) 0 + 1"
  let ?f = "\<lambda>r. r\<lparr>jb_status := JobAssigned, jb_machineId := Some m, jb_runnerName := Some (job_runner_name row j ?n),
       jb_attempts := Some ?n, jb_nextAttemptAt := None\<rparr>"
  have "slots_dev (\<lambda>x. of_bool (x = m)) ?d1"
    using ok m by (auto simp: slots_ok_iff slots_dev_def)
  then have "slots_dev (\<lambda>x. of_bool (x = m) + of_bool (job_on x j) - of_bool (job_on x (?f j))) (patch_job i ?f ?d1)"
    by (rule slots_dev_patch_job) (use ok row in simp_all)
  then have "slots_dev (\<lambda>_. 0) (patch_job i ?f ?d1)"
    by (rule slots_dev_cong) (use row in \<open>auto simp: job_on_def\<close>)
  moreover have "db_ok (patch_job i ?f ?d1)" using ok by simp
  ultimately show ?thesis by (simp add: assign_job_def Let_def slots_dev_exact)
qed

definition run_ok :: "int \<times> job_host list \<times> db \<Rightarrow> bool" where
  "run_ok s \<longleftrightarrow> (case s of (n, hosts, d) \<Rightarrow>
     db_ok d \<and> slots_ok d \<and> hosts_current hosts d \<and> within_slots d)"

lemma place_job_run_ok:
  assumes ok: "run_ok s" and row: "db_get (d_jobs (snd (snd s))) i = Some j" "jb_status j = JobQueued"
  shows "run_ok (place_job now (i, j) s) \<and>
    (\<forall>k. k \<noteq> i \<longrightarrow> db_get (d_jobs (snd (snd (place_job now (i, j) s)))) k = db_get (d_jobs (snd (snd s))) k)"
proof -
  obtain n hosts d where s: "s = (n, hosts, d)" by (cases s)
  have d: "db_ok d" "slots_ok d" "hosts_current hosts d" "within_slots d" using ok by (simp_all add: run_ok_def s)
  show ?thesis
  proof (cases "scan_machines j hosts None")
    case None
    then show ?thesis using ok by (simp add: s place_job_def)
  next
    case (Some choice)
    obtain m row used entry where c: "choice = (((m, row), used), entry)" by (metis prod.exhaust)
    have h: "((m, row), used) \<in> set hosts" "serves j ((m, row), used) = Some entry"
      using scan_machines_Some Some c by auto
    then obtain r where r: "db_get (d_machines d) m = Some r" "mc_usedSlots r = used" "mc_maxSlots r = mc_maxSlots row"
      using d(3) by (fastforce simp: hosts_current_def)
    let ?hosts = "map (\<lambda>(h, u). (h, if fst h = m then u + 1 else u)) hosts"
    let ?d = "assign_job now (i, j) choice d"
    have "hosts_current ?hosts ?d"
      using d(3) r by (fastforce simp: hosts_current_def c assign_job_tables comp_def case_prod_beta)
    moreover have "within_slots ?d"
    proof -
      have "used < mc_maxSlots row" using h(2) by (simp add: serves_def split: if_split_asm)
      moreover have "r0 = r" if "(m, r0) \<in> set (d_machines d)" for r0
        using that r(1) d(1) by (simp add: db_ok_def db_wf_get_iff [symmetric])
      ultimately show ?thesis
        using d(4) r by (fastforce simp: within_slots_def list_all_iff c assign_job_tables set_db_patch)
    qed
    moreover have "slots_ok ?d" unfolding c by (rule assign_job_slots) (use d row r s in auto)
    moreover have "db_ok ?d" using d(1) by (simp add: c assign_job_tables)
    ultimately show ?thesis
      using Some c by (simp add: s place_job_def run_ok_def assign_job_jobs)
  qed
qed


text \<open>C30: A run of the Job scheduler keeps the slot accounting exact and takes no Worker above its slots.\<close>

theorem legacy_tryAssign_slots:
  assumes ok: "db_ok d" "slots_ok d" "within_slots d"
  shows "slots_ok (snd (legacy_tryAssign now d)) \<and> within_slots (snd (legacy_tryAssign now d))"
proof -
  let ?s = "(0, job_hosts now d, d)"
  have wf: "db_wf (d_machines d)" "db_wf (d_jobs d)" using ok(1) by (simp_all add: db_ok_def)
  have "run_ok (fold (place_job now) (eligible_jobs now d) ?s)"
  proof (rule fold_rows [where tab = "\<lambda>s. d_jobs (snd (snd s))"])
    have "distinct (map fst (db_query (\<lambda>j. jb_status j = JobQueued) (d_jobs d)))"
      using query_rows [OF wf(2)] by blast
    then show "distinct (map fst (eligible_jobs now d))"
      unfolding eligible_jobs_def by (intro distinct_map_js_sort distinct_map_filter)
    show "\<forall>(i, a) \<in> set (eligible_jobs now d). db_get (d_jobs (snd (snd ?s))) i = Some a"
      using eligible_jobs_row [OF wf(2)] by auto
    show "run_ok ?s" using ok job_hosts_current [OF wf(1)] by (simp add: run_ok_def)
  qed (use place_job_run_ok eligible_jobs_row(2) [OF wf(2)] in blast)
  then show ?thesis by (simp add: legacy_tryAssign_def run_ok_def case_prod_beta)
qed


section \<open>Witnesses\<close>

definition sample_job :: job where
  "sample_job = \<lparr>jb_ghJobId = 77, jb_githubInstallationId = None, jb_repo = ''acme/app'', jb_workflowName = ''ci'',
     jb_labels = [''self-hosted'', ''rc-linux''], jb_status = JobQueued, jb_machineId = None, jb_runnerName = None,
     jb_queuedAt = 900, jb_startedAt = None, jb_finishedAt = None, jb_conclusion = None, jb_attempts = Some 0,
     jb_lastError = None, jb_nextAttemptAt = None, jb_lastFailedMachineId = None, jb_creationTime = 900\<rparr>"

definition queued_db :: db where
  "queued_db = empty_db\<lparr>d_machines := [(1, sample_machine)], d_jobs := [(2, sample_job)], d_nextId := 3\<rparr>"

definition assigned_db :: db where
  "assigned_db = snd (legacy_tryAssign 1000 queued_db)"

definition sample_event :: "workflow_action \<Rightarrow> int \<Rightarrow> workflow_job" where
  "sample_event action ghJobId = \<lparr>wj_action = action, wj_ghJobId = ghJobId, wj_githubInstallationId = None,
     wj_repo = ''acme/app'', wj_repoIsPublic = False, wj_workflowName = ''ci'',
     wj_labels = [''self-hosted'', ''rc-linux''], wj_runnerName = Some ''rc-w-77-1'', wj_conclusion = None\<rparr>"

text \<open>The Runner assigned to Job 77 was given to Job 78, which the control plane had not seen.\<close>

definition stolen_db :: db where
  "stolen_db = projr (applyWorkflowJob 2000 (sample_event ActInProgress 78) assigned_db)"

lemma stolen_run: "applyWorkflowJob 2000 (sample_event ActInProgress 78) assigned_db = Inr stolen_db"
  by code_simp

lemma assigned_db_ok:
  "core_ok assigned_db" "used_slots_nonneg assigned_db" "slots_ok assigned_db" "assignments_ok assigned_db"
  "queued_ok assigned_db"
  by code_simp+

theorem legacy_tryAssign_slots_witness:
  "slots_ok queued_db \<and> slots_ok assigned_db \<and> within_slots assigned_db \<and>
   map (\<lambda>x. mc_usedSlots (snd x)) (d_machines assigned_db) = [1]"
proof -
  have "db_ok queued_db" "slots_ok queued_db" "within_slots queued_db"
    "map (\<lambda>x. mc_usedSlots (snd x)) (d_machines assigned_db) = [1]" by code_simp+
  then show ?thesis using legacy_tryAssign_slots [of queued_db 1000] by (simp add: assigned_db_def)
qed


definition done_db :: db where
  "done_db = projr (applyWorkflowJob 3000 (sample_event ActCompleted 77) assigned_db)"

definition late_db :: db where
  "late_db = projr (applyWorkflowJob 4000 (sample_event ActQueued 77) done_db)"

theorem finished_job_kept_witness:
  "\<exists>j. db_get (d_jobs done_db) 2 = Some j \<and> jb_status j = JobFailed \<and>
     applyWorkflowJob 4000 (sample_event ActQueued 77) done_db = Inr late_db \<and> db_get (d_jobs late_db) 2 = Some j"
proof -
  have ok: "core_ok done_db" and row: "map_option jb_status (db_get (d_jobs done_db) 2) = Some JobFailed"
    and late: "applyWorkflowJob 4000 (sample_event ActQueued 77) done_db = Inr late_db"
    by code_simp+
  from row obtain j where j: "db_get (d_jobs done_db) 2 = Some j" "jb_status j = JobFailed" by auto
  then show ?thesis using finished_job_kept [OF ok j(1), of 4000] late by (simp add: job_over_def)
qed

section \<open>A stale failure\<close>

text \<open>
  A Job was assigned (command 3), requeued, and assigned again (command 4); the JIT config of the second
  command is stored. Then the action that failed to issue the JIT config of the first command, which no
  longer exists, reports its failure.
\<close>

definition reassigned_db :: db where
  "reassigned_db =
     snd (storeJitConfig 4 ''jit'' (Some 9) (snd (legacy_tryAssign 3000 (requeueJob 2000 2 assigned_db))))"


end
