(* ===== verification/Recovery.thy ===== *)
theory Recovery
  imports Schema Retry
begin

text \<open>
  Recovering webhook deliveries that never arrived (\<open>packages/backend/convex/recovery.ts\<close>): which of
  GitHub's failed deliveries are worth asking for again, the backoff and the cap per delivery, the
  watermark of the scan, and the run \<open>runRecovery\<close> over the operations it is given. \<open>Date.parse\<close> and
  \<open>localeCompare\<close> are parameters. The run is an action: it calls GitHub and commits each mutation on its
  own, so it is a function of a state that may fail half-way and keeps what it has done.
  \<open>parseNextCursor\<close>, which reads GitHub's \<open>link\<close> header with the URL parser, is left out.
\<close>

section \<open>Constants\<close>

definition RECOVERY_WINDOW_MS :: int where
  "RECOVERY_WINDOW_MS = 3 * 24 * 60 * 60 * 1000"

definition MAX_RECOVERABLE_AGE_MS :: int where
  "MAX_RECOVERABLE_AGE_MS = 24 * 60 * 60 * 1000"

definition RECOVERY_SEED_MS :: int where
  "RECOVERY_SEED_MS = 60 * 60 * 1000"

definition WATERMARK_OVERLAP_MS :: int where
  "WATERMARK_OVERLAP_MS = 10 * 60 * 1000"

definition MAX_PAGES :: nat where
  "MAX_PAGES = 3"

definition MAX_REDELIVERIES_PER_RUN :: nat where
  "MAX_REDELIVERIES_PER_RUN = 20"

definition MAX_RECOVERY_ATTEMPTS :: int where
  "MAX_RECOVERY_ATTEMPTS = 3"

definition RECOVERY_BACKOFF_MS :: "int list" where
  "RECOVERY_BACKOFF_MS = [60000, 300000, 1800000]"

definition RUN_BACKOFF_MS :: "int list" where
  "RUN_BACKOFF_MS = [60000, 300000, 900000, 3600000]"

section \<open>Candidates\<close>

record delivery_item =
  di_id :: int
  di_guid :: string
  di_delivered_at :: string
  di_status_code :: int
  di_event :: string

record recovery_candidate =
  rc_guid :: string
  rc_githubDeliveryId :: int
  rc_event :: string
  rc_deliveredAt :: int
  rc_statusCode :: int

definition isFailedDelivery :: "delivery_item \<Rightarrow> bool" where
  "isFailedDelivery item \<longleftrightarrow> di_status_code item < 200 \<or> di_status_code item \<ge> 300"

text \<open>A \<open>Map\<close> keeps the place of the first \<open>set\<close> of a key and the value of the last.\<close>

fun newest_set :: "recovery_candidate \<Rightarrow> recovery_candidate list \<Rightarrow> recovery_candidate list" where
  "newest_set c [] = [c]"
| "newest_set c (x # xs) = (if rc_guid x = rc_guid c then c # xs else x # newest_set c xs)"

definition recovery_candidate_of :: "int \<Rightarrow> delivery_item \<Rightarrow> recovery_candidate" where
  "recovery_candidate_of deliveredAt item =
     \<lparr>rc_guid = di_guid item, rc_githubDeliveryId = di_id item, rc_event = di_event item,
      rc_deliveredAt = deliveredAt, rc_statusCode = di_status_code item\<rparr>"

definition consider_item ::
  "(string \<Rightarrow> int option) \<Rightarrow> string set \<Rightarrow> int \<Rightarrow> int \<Rightarrow> delivery_item \<Rightarrow> recovery_candidate list \<Rightarrow> recovery_candidate list" where
  "consider_item dateParse delivered now scannedThrough item newest =
     (if di_guid item \<in> delivered \<or> \<not> isFailedDelivery item then newest
      else if di_event item \<noteq> ''workflow_job'' then newest
      else case dateParse (di_delivered_at item) of
        None \<Rightarrow> newest
      | Some deliveredAt \<Rightarrow>
          if deliveredAt \<le> scannedThrough then newest
          else if now - deliveredAt > MAX_RECOVERABLE_AGE_MS then newest
          else
            let previous = List.find (\<lambda>c. rc_guid c = di_guid item) newest in
            if previous \<noteq> None \<and> rc_deliveredAt (the previous) \<ge> deliveredAt then newest
            else newest_set (recovery_candidate_of deliveredAt item) newest)"

definition delivered_guids :: "delivery_item list \<Rightarrow> string set" where
  "delivered_guids items = set (map di_guid (filter (\<lambda>item. \<not> isFailedDelivery item) items))"

definition candidate_order :: "(string \<Rightarrow> string \<Rightarrow> int) \<Rightarrow> recovery_candidate \<Rightarrow> recovery_candidate \<Rightarrow> int" where
  "candidate_order lc a b =
     (if rc_deliveredAt a - rc_deliveredAt b \<noteq> 0 then rc_deliveredAt a - rc_deliveredAt b
      else lc (rc_guid a) (rc_guid b))"

definition newest_attempts ::
  "(string \<Rightarrow> int option) \<Rightarrow> delivery_item list \<Rightarrow> int \<Rightarrow> int \<Rightarrow> recovery_candidate list" where
  "newest_attempts dateParse items now scannedThrough =
     fold (consider_item dateParse (delivered_guids items) now scannedThrough) items []"

definition selectRecoverable ::
  "(string \<Rightarrow> int option) \<Rightarrow> (string \<Rightarrow> string \<Rightarrow> int) \<Rightarrow> delivery_item list \<Rightarrow> int \<Rightarrow> int \<Rightarrow> recovery_candidate list" where
  "selectRecoverable dateParse lc items now scannedThrough =
     take MAX_REDELIVERIES_PER_RUN
       (js_sort (candidate_order lc) (newest_attempts dateParse items now scannedThrough))"

definition pageIsExhausted :: "(string \<Rightarrow> int option) \<Rightarrow> delivery_item list \<Rightarrow> int \<Rightarrow> bool" where
  "pageIsExhausted dateParse items scannedThrough \<longleftrightarrow>
     list_all (\<lambda>item. case dateParse (di_delivered_at item) of
                        None \<Rightarrow> True | Some deliveredAt \<Rightarrow> deliveredAt \<le> scannedThrough) items"

section \<open>Backoff and decisions\<close>

definition recoveryBackoffMs :: "int \<Rightarrow> int" where
  "recoveryBackoffMs attempts =
     (if attempts \<le> 0 then 0
      else RECOVERY_BACKOFF_MS ! nat (min attempts (int (length RECOVERY_BACKOFF_MS)) - 1))"

definition nextRunDelayMs :: "int \<Rightarrow> int" where
  "nextRunDelayMs consecutiveFailures =
     (if consecutiveFailures \<le> 0 then 0
      else RUN_BACKOFF_MS ! nat (min consecutiveFailures (int (length RUN_BACKOFF_MS)) - 1))"

datatype recovery_decision =
    Request int int            \<comment> \<open>attempts, nextAttemptAt\<close>
  | Skip
  | Abandon int string         \<comment> \<open>attempts, lastError\<close>

definition never_arrived :: "int \<Rightarrow> string" where
  "never_arrived attempts =
     ''GitHub accepted '' @ show_int attempts @ '' redelivery requests but the delivery never arrived''"

definition decideRecovery :: "webhook_recovery option \<Rightarrow> int \<Rightarrow> recovery_decision" where
  "decideRecovery existing now =
     (case existing of
        None \<Rightarrow> Request 1 (now + recoveryBackoffMs 1)
      | Some row \<Rightarrow>
          if wy_state row \<noteq> RecRequested then Skip
          else if now < wy_nextAttemptAt row then Skip
          else
            let attempts = wy_attempts row + 1 in
            if attempts > MAX_RECOVERY_ATTEMPTS then Abandon (wy_attempts row) (never_arrived (wy_attempts row))
            else Request attempts (now + recoveryBackoffMs attempts))"

text \<open>
  What a \<open>catch\<close> sees: a numeric \<open>status\<close> field, if the value is an object that has one, and the message, if
  it is an \<open>Error\<close>. A status is printed as an integer, as HTTP statuses are.
\<close>

record thrown =
  th_status :: "js_number option"
  th_message :: "string option"

definition statusOf :: "thrown \<Rightarrow> js_number" where
  "statusOf error =
     (case th_status error of
        Some status \<Rightarrow> if is_finite status then status else js_int 0
      | None \<Rightarrow> js_int 0)"

definition describeRecoveryFailure :: "thrown \<Rightarrow> string \<Rightarrow> string" where
  "describeRecoveryFailure error action =
     (let status = statusOf error in
      if num_val status > 0 then ''GitHub responded '' @ show_int (int_val status) @ '' while '' @ action
      else summarizeError
        (case th_message error of
           Some message \<Rightarrow> ''Could not reach GitHub while '' @ action @ '': '' @ message
         | None \<Rightarrow> ''Could not reach GitHub while '' @ action))"

definition clampWatermark :: "int \<Rightarrow> int \<Rightarrow> int" where
  "clampWatermark previous now = min (max previous (now - RECOVERY_WINDOW_MS)) now"

definition advanceWatermark :: "int \<Rightarrow> int \<Rightarrow> int \<Rightarrow> int" where
  "advanceWatermark previous newestDeliveredAt now =
     clampWatermark (max previous (newestDeliveredAt - WATERMARK_OVERLAP_MS)) now"

fun newestDeliveryTime :: "(string \<Rightarrow> int option) \<Rightarrow> delivery_item list \<Rightarrow> int option \<Rightarrow> int option" where
  "newestDeliveryTime dateParse [] newest = newest"
| "newestDeliveryTime dateParse (item # items) newest =
     newestDeliveryTime dateParse items
       (case dateParse (di_delivered_at item) of
          None \<Rightarrow> newest
        | Some deliveredAt \<Rightarrow>
            (case newest of
               None \<Rightarrow> Some deliveredAt
             | Some n \<Rightarrow> if deliveredAt > n then Some deliveredAt else Some n))"

section \<open>The run\<close>

type_synonym ('s, 'a) action = "'s \<Rightarrow> (thrown + 'a) \<times> 's"

definition act_return :: "'a \<Rightarrow> ('s, 'a) action" where
  "act_return x s = (Inr x, s)"

definition act_bind :: "('s, 'a) action \<Rightarrow> ('a \<Rightarrow> ('s, 'b) action) \<Rightarrow> ('s, 'b) action" where
  "act_bind m f s = (case m s of (Inl e, s1) \<Rightarrow> (Inl e, s1) | (Inr x, s1) \<Rightarrow> f x s1)"

definition act_catch :: "('s, 'a) action \<Rightarrow> (thrown \<Rightarrow> ('s, 'a) action) \<Rightarrow> ('s, 'a) action" where
  "act_catch m h s = (case m s of (Inl e, s1) \<Rightarrow> h e s1 | (Inr x, s1) \<Rightarrow> (Inr x, s1))"

record finish_recovery_run =
  fr_now :: int
  fr_outcome :: recovery_outcome
  fr_newestDeliveredAt :: "int option"
  fr_listed :: int
  fr_missing :: int
  fr_requested :: int
  fr_error :: "string option"

record 's recovery_client =
  rl_listDeliveries :: "string option \<Rightarrow> ('s, delivery_item list \<times> string option) action"
  rl_redeliver :: "int \<Rightarrow> ('s, unit) action"

text \<open>\<open>begin\<close> answers the watermark, or nothing when the run is refused.\<close>

record 's recovery_deps =
  dp_now :: int
  dp_reconcile :: "int \<Rightarrow> ('s, int \<times> int) action"
  dp_begin :: "int \<Rightarrow> ('s, int option) action"
  dp_openClient :: "('s, 's recovery_client option) action"
  dp_missingGuids :: "string list \<Rightarrow> ('s, string list) action"
  dp_claim :: "int \<Rightarrow> recovery_candidate list \<Rightarrow> ('s, (string \<times> int) list) action"
  dp_settle :: "string \<Rightarrow> bool \<Rightarrow> string option \<Rightarrow> ('s, unit) action"
  dp_finish :: "finish_recovery_run \<Rightarrow> ('s, unit) action"

record recovery_run_result =
  ru_listed :: int
  ru_missing :: int
  ru_requested :: int
  ru_outcome :: recovery_outcome

fun list_pages ::
  "(string \<Rightarrow> int option) \<Rightarrow> 's recovery_client \<Rightarrow> int \<Rightarrow> nat \<Rightarrow> string option \<Rightarrow> delivery_item list \<Rightarrow>
   ('s, delivery_item list \<times> bool) action" where
  "list_pages dateParse client scannedThrough 0 cursor items = act_return (items, cursor \<noteq> None)"
| "list_pages dateParse client scannedThrough (Suc pages) cursor items =
     act_bind (rl_listDeliveries client cursor) (\<lambda>(page, nextCursor).
       if nextCursor = None \<or> pageIsExhausted dateParse page scannedThrough
       then act_return (items @ page, False)
       else list_pages dateParse client scannedThrough pages nextCursor (items @ page))"

fun redeliver_all ::
  "'s recovery_deps \<Rightarrow> 's recovery_client \<Rightarrow> (string \<times> int) list \<Rightarrow> int \<Rightarrow> ('s, int) action" where
  "redeliver_all deps client [] requested = act_return requested"
| "redeliver_all deps client ((guid, githubDeliveryId) # rest) requested =
     act_bind
       (act_catch
         (act_bind (rl_redeliver client githubDeliveryId) (\<lambda>_.
          act_bind (dp_settle deps guid True None) (\<lambda>_. act_return (requested + 1))))
         (\<lambda>e. act_bind (dp_settle deps guid False (Some (describeRecoveryFailure e ''requesting a redelivery'')))
                (\<lambda>_. act_return requested)))
       (redeliver_all deps client rest)"

definition scan_deliveries ::
  "(string \<Rightarrow> int option) \<Rightarrow> (string \<Rightarrow> string \<Rightarrow> int) \<Rightarrow> 's recovery_deps \<Rightarrow> 's recovery_client \<Rightarrow> int \<Rightarrow>
   ('s, recovery_run_result) action" where
  "scan_deliveries dateParse lc deps client scannedThrough =
     act_bind (list_pages dateParse client scannedThrough MAX_PAGES None []) (\<lambda>(items, pagesTruncated).
       let candidates = selectRecoverable dateParse lc items (dp_now deps) scannedThrough;
           candidatesCapped = (length candidates = MAX_REDELIVERIES_PER_RUN);
           truncated = (pagesTruncated \<or> candidatesCapped)
       in act_bind (dp_missingGuids deps (map rc_guid candidates)) (\<lambda>missing.
          act_bind (dp_claim deps (dp_now deps) (filter (\<lambda>c. rc_guid c \<in> set missing) candidates)) (\<lambda>claimed.
          act_bind (redeliver_all deps client claimed 0) (\<lambda>requested.
          act_bind (dp_finish deps
              \<lparr>fr_now = dp_now deps, fr_outcome = OutOk,
               fr_newestDeliveredAt = (if truncated then None else newestDeliveryTime dateParse items None),
               fr_listed = int (length items), fr_missing = int (card (set missing)), fr_requested = requested,
               fr_error = None\<rparr>) (\<lambda>_.
            act_return \<lparr>ru_listed = int (length items), ru_missing = int (card (set missing)),
                        ru_requested = requested, ru_outcome = OutOk\<rparr>)))))"

definition no_scan :: "recovery_outcome \<Rightarrow> recovery_run_result" where
  "no_scan outcome = \<lparr>ru_listed = 0, ru_missing = 0, ru_requested = 0, ru_outcome = outcome\<rparr>"

definition finish_without_scan :: "int \<Rightarrow> recovery_outcome \<Rightarrow> string option \<Rightarrow> finish_recovery_run" where
  "finish_without_scan now outcome error =
     \<lparr>fr_now = now, fr_outcome = outcome, fr_newestDeliveredAt = None, fr_listed = 0, fr_missing = 0,
      fr_requested = 0, fr_error = error\<rparr>"

definition runRecovery ::
  "(string \<Rightarrow> int option) \<Rightarrow> (string \<Rightarrow> string \<Rightarrow> int) \<Rightarrow> 's recovery_deps \<Rightarrow> ('s, recovery_run_result) action" where
  "runRecovery dateParse lc deps =
     act_bind (dp_reconcile deps (dp_now deps)) (\<lambda>_.
     act_bind (dp_begin deps (dp_now deps)) (\<lambda>gate.
       case gate of
         None \<Rightarrow> act_return (no_scan OutSkippedBackoff)
       | Some scannedThrough \<Rightarrow>
           act_bind (dp_openClient deps) (\<lambda>client.
             case client of
               None \<Rightarrow>
                 act_bind (dp_finish deps (finish_without_scan (dp_now deps) OutSkippedNoApp None))
                   (\<lambda>_. act_return (no_scan OutSkippedNoApp))
             | Some c \<Rightarrow>
                 act_catch (scan_deliveries dateParse lc deps c scannedThrough)
                   (\<lambda>e. act_bind (dp_finish deps (finish_without_scan (dp_now deps) OutError
                                   (Some (describeRecoveryFailure e ''scanning webhook deliveries''))))
                          (\<lambda>_. act_return (no_scan OutError))))))"

section \<open>Which deliveries are asked for again\<close>

text \<open>A failed attempt of a \<open>workflow_job\<close> delivery of time \<open>t\<close> that is worth repeating.\<close>

definition recoverable ::
  "(string \<Rightarrow> int option) \<Rightarrow> string set \<Rightarrow> int \<Rightarrow> int \<Rightarrow> delivery_item \<Rightarrow> int \<Rightarrow> bool" where
  "recoverable dateParse delivered now scannedThrough item t \<longleftrightarrow>
     di_guid item \<notin> delivered \<and> isFailedDelivery item \<and> di_event item = ''workflow_job'' \<and>
     dateParse (di_delivered_at item) = Some t \<and> scannedThrough < t \<and> now - t \<le> MAX_RECOVERABLE_AGE_MS"

lemma consider_item_cases:
  obtains "\<forall>t. \<not> recoverable dp ok now sc item t" "consider_item dp ok now sc item newest = newest"
  | t c where "recoverable dp ok now sc item t" "c \<in> set newest" "rc_guid c = di_guid item" "t \<le> rc_deliveredAt c"
      "consider_item dp ok now sc item newest = newest"
  | t where "recoverable dp ok now sc item t"
      "\<forall>c. List.find (\<lambda>c. rc_guid c = di_guid item) newest = Some c \<longrightarrow> rc_deliveredAt c < t"
      "consider_item dp ok now sc item newest = newest_set (recovery_candidate_of t item) newest"
proof (cases "\<exists>t. recoverable dp ok now sc item t")
  case False
  then have "consider_item dp ok now sc item newest = newest"
    unfolding consider_item_def by (auto simp: recoverable_def not_le split: option.split)
  with False that(1) show ?thesis by blast
next
  case True
  then obtain t where t: "recoverable dp ok now sc item t" by blast
  let ?prev = "List.find (\<lambda>c. rc_guid c = di_guid item) newest"
  have eq: "consider_item dp ok now sc item newest =
      (if ?prev \<noteq> None \<and> rc_deliveredAt (the ?prev) \<ge> t then newest else newest_set (recovery_candidate_of t item) newest)"
    using t by (simp add: consider_item_def recoverable_def Let_def)
  show ?thesis
  proof (cases "?prev \<noteq> None \<and> rc_deliveredAt (the ?prev) \<ge> t")
    case True
    then obtain c where c: "?prev = Some c" "t \<le> rc_deliveredAt c" by auto
    from find_SomeD [OF c(1)] c(2) True eq show ?thesis by (intro that(2) [OF t, of c]) auto
  next
    case False
    then show ?thesis using eq by (intro that(3) [OF t]) auto
  qed
qed

lemma newest_set_guids:
  "rc_guid ` set (newest_set c xs) = insert (rc_guid c) (rc_guid ` set xs)"
  by (induction xs) auto

lemma newest_set_distinct: "distinct (map rc_guid xs) \<Longrightarrow> distinct (map rc_guid (newest_set c xs))"
proof (induction xs)
  case (Cons x xs)
  then show ?case using newest_set_guids [of c xs] by auto
qed simp

lemma newest_set_mem:
  assumes "distinct (map rc_guid xs)"
  shows "x \<in> set (newest_set c xs) \<longleftrightarrow> x = c \<or> x \<in> set xs \<and> rc_guid x \<noteq> rc_guid c"
  using assms by (induction xs) (auto simp: image_iff)

lemma find_guid:
  assumes "distinct (map rc_guid xs)" "c \<in> set xs"
  shows "List.find (\<lambda>x. rc_guid x = rc_guid c) xs = Some c"
  using assms by (induction xs) (auto simp: image_iff)

definition newest_ok :: "(delivery_item \<Rightarrow> int \<Rightarrow> bool) \<Rightarrow> delivery_item list \<Rightarrow> recovery_candidate list \<Rightarrow> bool" where
  "newest_ok R items newest \<longleftrightarrow> distinct (map rc_guid newest) \<and>
     (\<forall>c \<in> set newest. \<exists>item \<in> set items. R item (rc_deliveredAt c) \<and> c = recovery_candidate_of (rc_deliveredAt c) item) \<and>
     (\<forall>item \<in> set items. \<forall>t. R item t \<longrightarrow> (\<exists>c \<in> set newest. rc_guid c = di_guid item \<and> t \<le> rc_deliveredAt c))"

lemma recovery_candidate_of_simps [simp]:
  "rc_guid (recovery_candidate_of t item) = di_guid item" "rc_deliveredAt (recovery_candidate_of t item) = t"
  by (simp_all add: recovery_candidate_of_def)

lemma recoverable_unique: "recoverable dp ok now sc item t \<Longrightarrow> recoverable dp ok now sc item u \<Longrightarrow> t = u"
  by (simp add: recoverable_def)

lemma consider_item_ok:
  assumes ok: "newest_ok (recoverable dp ok now sc) items newest"
  shows "newest_ok (recoverable dp ok now sc) (items @ [item]) (consider_item dp ok now sc item newest)"
proof (cases rule: consider_item_cases [of dp ok now sc item newest])
  case 1
  then show ?thesis using ok unfolding newest_ok_def 1(2) by auto
next
  case (2 t c)
  have "u = t" if "recoverable dp ok now sc item u" for u using recoverable_unique [OF that 2(1)] .
  then show ?thesis using ok 2(2,3,4) unfolding newest_ok_def 2(5) by auto
next
  case (3 t)
  have d: "distinct (map rc_guid newest)" using ok by (simp add: newest_ok_def)
  have cover: "\<exists>c \<in> set newest. rc_guid c = di_guid x \<and> u \<le> rc_deliveredAt c"
    if "x \<in> set items" "recoverable dp ok now sc x u" for x u
    using ok that unfolding newest_ok_def by blast
  have older: "rc_deliveredAt c < t" if "c \<in> set newest" "rc_guid c = di_guid item" for c
    using 3(2) find_guid [OF d that(1)] that(2) by simp
  show ?thesis
    unfolding newest_ok_def
  proof (intro conjI ballI allI impI)
    show "distinct (map rc_guid (consider_item dp ok now sc item newest))"
      using newest_set_distinct [OF d] by (simp add: 3(3))
    show "\<exists>x \<in> set (items @ [item]). recoverable dp ok now sc x (rc_deliveredAt c) \<and> c = recovery_candidate_of (rc_deliveredAt c) x"
      if "c \<in> set (consider_item dp ok now sc item newest)" for c
      using that ok 3(1) by (auto simp: 3(3) newest_set_mem [OF d] newest_ok_def)
    show "\<exists>c \<in> set (consider_item dp ok now sc item newest). rc_guid c = di_guid x \<and> u \<le> rc_deliveredAt c"
      if x: "x \<in> set (items @ [item])" "recoverable dp ok now sc x u" for x u
    proof (cases "di_guid x = di_guid item")
      case True
      have "u \<le> t"
      proof (cases "x = item")
        case True
        then show ?thesis using recoverable_unique [OF 3(1)] x(2) by simp
      next
        case False
        then obtain c where "c \<in> set newest" "rc_guid c = di_guid x" "u \<le> rc_deliveredAt c"
          using cover [of x u] x by auto
        then show ?thesis using older [of c] True by simp
      qed
      then show ?thesis using True by (intro bexI [of _ "recovery_candidate_of t item"]) (auto simp: 3(3) newest_set_mem [OF d])
    next
      case False
      then obtain c where "c \<in> set newest" "rc_guid c = di_guid x" "u \<le> rc_deliveredAt c"
        using cover [of x u] x by auto
      then show ?thesis using False by (intro bexI [of _ c]) (auto simp: 3(3) newest_set_mem [OF d])
    qed
  qed
qed


lemma newest_attempts_ok:
  "newest_ok (recoverable dp (delivered_guids items) now sc) items (newest_attempts dp items now sc)"
proof -
  have "newest_ok (recoverable dp ok now sc) (seen @ rest) (fold (consider_item dp ok now sc) rest newest)"
    if "newest_ok (recoverable dp ok now sc) seen newest" for ok seen rest newest
    using that
  proof (induction rest arbitrary: seen newest)
    case (Cons item rest)
    show ?case using Cons.IH [OF consider_item_ok [OF Cons.prems, of item]] by simp
  qed simp
  from this [of "delivered_guids items" "[]" "[]" items] show ?thesis
    by (simp add: newest_attempts_def newest_ok_def)
qed

lemma candidate_order_comparator: "comparator lc \<Longrightarrow> comparator (candidate_order lc)"
proof -
  assume "comparator lc"
  then have total: "lc x y \<le> 0 \<or> lc y x \<le> 0" and trans: "lc x y \<le> 0 \<Longrightarrow> lc y z \<le> 0 \<Longrightarrow> lc x z \<le> 0" for x y z
    by (auto simp: comparator_def)
  show ?thesis
  proof
    show "candidate_order lc x y \<le> 0 \<or> candidate_order lc y x \<le> 0" for x y
      using total by (auto simp: candidate_order_def)
    show "candidate_order lc x y \<le> 0 \<Longrightarrow> candidate_order lc y z \<le> 0 \<Longrightarrow> candidate_order lc x z \<le> 0" for x y z
      using trans by (auto simp: candidate_order_def split: if_split_asm)
  qed
qed



definition failed_item :: "string \<Rightarrow> string \<Rightarrow> delivery_item" where
  "failed_item guid time = \<lparr>di_id = 1, di_guid = guid, di_delivered_at = time, di_status_code = 502, di_event = ''workflow_job''\<rparr>"

text \<open>A reader of digits stands for \<open>Date.parse\<close>.\<close>

definition parse_digits :: "string \<Rightarrow> int option" where
  "parse_digits s = (if s \<noteq> [] \<and> list_all is_digit s then Some (int (read_nat s)) else None)"


section \<open>The watermark and the attempts\<close>

lemma clampWatermark_bounds:
  "now - RECOVERY_WINDOW_MS \<le> clampWatermark previous now" "clampWatermark previous now \<le> now"
  by (simp_all add: clampWatermark_def RECOVERY_WINDOW_MS_def)

text \<open>The watermark of the scan stays inside the window GitHub can still redeliver from, never moves
  backwards, and after a scan stays at least ten minutes behind the newest delivery it saw, or where it was.\<close>

lemma advanceWatermark_bounds:
  assumes "previous \<le> now"
  shows "previous \<le> advanceWatermark previous newest now \<and> advanceWatermark previous newest now \<le> now \<and>
    now - RECOVERY_WINDOW_MS \<le> advanceWatermark previous newest now \<and>
    advanceWatermark previous newest now \<le>
      max previous (max (newest - WATERMARK_OVERLAP_MS) (now - RECOVERY_WINDOW_MS))"
  using assms by (auto simp: advanceWatermark_def clampWatermark_def RECOVERY_WINDOW_MS_def)

lemma recoveryBackoffMs_cases:
  "recoveryBackoffMs n = (if n \<le> 0 then 0 else if n = 1 then 60000 else if n = 2 then 300000 else 1800000)"
proof -
  consider "n \<le> 0" | "n = 1" | "n = 2" | "n \<ge> 3" by linarith
  then show ?thesis by cases (auto simp: recoveryBackoffMs_def RECOVERY_BACKOFF_MS_def)
qed

lemma nextRunDelayMs_cases:
  "nextRunDelayMs n =
     (if n \<le> 0 then 0 else if n = 1 then 60000 else if n = 2 then 300000 else if n = 3 then 900000 else 3600000)"
proof -
  consider "n \<le> 0" | "n = 1" | "n = 2" | "n = 3" | "n \<ge> 4" by linarith
  then show ?thesis by cases (auto simp: nextRunDelayMs_def RUN_BACKOFF_MS_def)
qed

lemma decideRecovery_Request:
  assumes "decideRecovery existing now = Request attempts nextAttemptAt"
  shows "attempts = (case existing of None \<Rightarrow> 1 | Some row \<Rightarrow> wy_attempts row + 1)"
    "attempts \<le> MAX_RECOVERY_ATTEMPTS" "nextAttemptAt = now + recoveryBackoffMs attempts"
    "existing = Some row \<Longrightarrow> wy_state row = RecRequested \<and> wy_nextAttemptAt row \<le> now"
  using assms
  by (auto simp: decideRecovery_def Let_def MAX_RECOVERY_ATTEMPTS_def split: option.split_asm if_split_asm)

section \<open>The budget of a run\<close>

text \<open>
  What a run relies on: no operation but a redelivery request asks GitHub for anything, a request asks once,
  and a claim hands out at most the candidates it was given. \<open>requests\<close> counts what GitHub has been asked for.
\<close>

locale recovery_budget =
  fixes deps :: "'s recovery_deps" and requests :: "'s \<Rightarrow> nat"
  assumes reconcile_free: "requests (snd (dp_reconcile deps now s)) = requests s"
    and begin_free: "requests (snd (dp_begin deps now s)) = requests s"
    and open_free: "requests (snd (dp_openClient deps s)) = requests s"
    and missing_free: "requests (snd (dp_missingGuids deps guids s)) = requests s"
    and claim_free: "requests (snd (dp_claim deps now cs s)) = requests s"
    and settle_free: "requests (snd (dp_settle deps guid success err s)) = requests s"
    and finish_free: "requests (snd (dp_finish deps f s)) = requests s"
    and claim_bound: "dp_claim deps now cs s = (Inr xs, s') \<Longrightarrow> length xs \<le> length cs"
    and list_free: "dp_openClient deps s = (Inr (Some c), s') \<Longrightarrow> requests (snd (rl_listDeliveries c cursor t)) = requests t"
    and redeliver_one: "dp_openClient deps s = (Inr (Some c), s') \<Longrightarrow> requests (snd (rl_redeliver c i t)) \<le> Suc (requests t)"
begin

lemma bind_cost:
  assumes "requests (snd (m s)) \<le> requests s + a"
    and "\<And>x s'. m s = (Inr x, s') \<Longrightarrow> requests (snd (f x s')) \<le> requests s' + b"
  shows "requests (snd (act_bind m f s)) \<le> requests s + a + b"
  using assms by (fastforce simp: act_bind_def split: prod.split sum.split)

lemma catch_cost:
  assumes "requests (snd (m s)) \<le> requests s + a"
    and "\<And>e s'. requests (snd (h e s')) \<le> requests s' + b"
  shows "requests (snd (act_catch m h s)) \<le> requests s + a + b"
proof (cases "m s")
  case (Pair r s1)
  show ?thesis
  proof (cases r)
    case (Inl e)
    then show ?thesis using Pair assms(1) assms(2) [of e s1] by (simp add: act_catch_def)
  next
    case (Inr x)
    then show ?thesis using Pair assms(1) by (simp add: act_catch_def)
  qed
qed

lemma return_cost: "requests (snd (act_return x s)) \<le> requests s + a"
  by (simp add: act_return_def)

text \<open>Costs add up along the run; only redeliveries cost, one each.\<close>

lemma bind_free:
  assumes "requests (snd (m s)) = requests s"
    and "\<And>x s'. m s = (Inr x, s') \<Longrightarrow> requests (snd (f x s')) \<le> requests s' + b"
  shows "requests (snd (act_bind m f s)) \<le> requests s + b"
  using bind_cost [of m s 0 f b] assms by simp

lemmas bind_none = bind_free [where b = 0, simplified]

lemma list_pages_free:
  assumes "dp_openClient deps s0 = (Inr (Some c), s1)"
  shows "requests (snd (list_pages dp c sc n cursor items s)) = requests s"
proof (induction n arbitrary: cursor items s)
  case (Suc n)
  obtain r s' where r: "rl_listDeliveries c cursor s = (r, s')" by (cases "rl_listDeliveries c cursor s")
  have "requests s' = requests s" using list_free [OF assms, of cursor s] r by simp
  then show ?case using Suc by (cases r) (auto simp: act_bind_def r act_return_def split: prod.split)
qed (simp add: act_return_def)

lemma redeliver_all_cost:
  assumes "dp_openClient deps s0 = (Inr (Some c), s1)"
  shows "requests (snd (redeliver_all deps c claimed n s)) \<le> requests s + length claimed"
proof (induction claimed arbitrary: n s)
  case (Cons x claimed)
  obtain guid i where x: "x = (guid, i)" by (cases x)
  let ?body = "act_catch
         (act_bind (rl_redeliver c i) (\<lambda>_. act_bind (dp_settle deps guid True None) (\<lambda>_. act_return (n + 1))))
         (\<lambda>e. act_bind (dp_settle deps guid False (Some (describeRecoveryFailure e ''requesting a redelivery'')))
                (\<lambda>_. act_return n))"
  have "requests (snd (act_bind (rl_redeliver c i) (\<lambda>_. act_bind (dp_settle deps guid True None) (\<lambda>_. act_return (n + 1))) t))
      \<le> requests t + 1 + 0" for t
    by (rule bind_cost) (use redeliver_one [OF assms, of i t] in \<open>auto intro!: bind_none simp: settle_free act_return_def\<close>)
  then have "requests (snd (?body t)) \<le> requests t + 1 + 0" for t
    by (intro catch_cost) (auto intro!: bind_none simp: settle_free act_return_def)
  then have "requests (snd (act_bind ?body (redeliver_all deps c claimed) s)) \<le> requests s + 1 + length claimed"
    by (intro bind_cost) (use Cons.IH in \<open>auto simp del: One_nat_def\<close>)
  then show ?case by (simp add: x)
qed (simp add: act_return_def)

lemma scan_deliveries_cost:
  assumes "dp_openClient deps s0 = (Inr (Some c), s1)"
  shows "requests (snd (scan_deliveries dp lc deps c sc s)) \<le> requests s + MAX_REDELIVERIES_PER_RUN"
  unfolding scan_deliveries_def Let_def
proof (rule bind_free, goal_cases)
  case 1
  show ?case by (rule list_pages_free [OF assms])
next
  case (2 x s2)
  obtain items truncated where x: "x = (items, truncated)" by (cases x)
  let ?cs = "selectRecoverable dp lc items (dp_now deps) sc"
  show ?case
    unfolding x prod.case
  proof (rule bind_free, goal_cases)
    case 1
    show ?case by (rule missing_free)
  next
    case (2 missing s3)
    show ?case
    proof (rule bind_free, goal_cases)
      case 1
      show ?case by (rule claim_free)
    next
      case (2 claimed s4)
      have "length claimed \<le> length (filter (\<lambda>c. rc_guid c \<in> set missing) ?cs)" by (rule claim_bound [OF 2])
      also have "\<dots> \<le> length ?cs" by (rule length_filter_le)
      also have "\<dots> \<le> MAX_REDELIVERIES_PER_RUN" by (simp add: selectRecoverable_def)
      finally have n: "length claimed \<le> MAX_REDELIVERIES_PER_RUN" .
      show ?case
        by (rule order_trans [OF bind_cost [where a = "length claimed" and b = 0]])
           (use n redeliver_all_cost [OF assms] in \<open>auto intro!: bind_none simp: finish_free act_return_def\<close>)
    qed
  qed
qed

text \<open>A run asks GitHub for at most 20 redeliveries.\<close>

lemma run_budget:
  "requests (snd (runRecovery dp lc deps s)) \<le> requests s + MAX_REDELIVERIES_PER_RUN"
  unfolding runRecovery_def
proof (rule bind_free, goal_cases)
  case 1
  show ?case by (rule reconcile_free)
next
  case (2 _ s1)
  show ?case
  proof (rule bind_free, goal_cases)
    case 1
    show ?case by (rule begin_free)
  next
    case (2 gate s2)
    show ?case
    proof (cases gate)
      case None
      then show ?thesis by (simp add: act_return_def)
    next
      case (Some sc)
      show ?thesis
        unfolding Some option.case
      proof (rule bind_free, goal_cases)
        case 1
        show ?case by (rule open_free)
      next
        case (2 client s3)
        have end_free: "requests (snd (act_bind (dp_finish deps f) (\<lambda>_. act_return r) t)) \<le> requests t + 0" for f r t
          by (rule bind_free) (simp_all add: finish_free act_return_def)
        show ?case
        proof (cases client)
          case None
          then show ?thesis
            using end_free [of "finish_without_scan (dp_now deps) OutSkippedNoApp None" "no_scan OutSkippedNoApp" s3]
            by simp
        next
          case (Some c)
          have "requests (snd (act_catch (scan_deliveries dp lc deps c sc)
              (\<lambda>e. act_bind (dp_finish deps (finish_without_scan (dp_now deps) OutError
                 (Some (describeRecoveryFailure e ''scanning webhook deliveries'')))) (\<lambda>_. act_return (no_scan OutError))) s3))
            \<le> requests s3 + MAX_REDELIVERIES_PER_RUN + 0"
            by (rule catch_cost [OF scan_deliveries_cost end_free]) (use 2 Some in simp)
          then show ?thesis using Some by simp
        qed
      qed
    qed
  qed
qed

end

end
