(* ===== verification/Webhooks.thy ===== *)
theory Webhooks
  imports LegacyJobs Recovery
begin

text \<open>
  Webhook deliveries (\<open>packages/backend/convex/webhooks.ts\<close>): recording a delivery, applying it, retrying the
  ones that did not settle, and the bookkeeping of the recovery of lost deliveries, with the wiring of
  \<open>recoverLostDeliveries\<close> (\<open>github.ts\<close>). The environment, the client of GitHub's API and the clock are
  arguments; the log of redelivery requests is the second component of an action's state.
\<close>

section \<open>Deliveries\<close>

definition MAX_DELIVERY_ATTEMPTS :: int where
  "MAX_DELIVERY_ATTEMPTS = 5"

definition DELIVERY_RETRY_AFTER_MS :: int where
  "DELIVERY_RETRY_AFTER_MS = 60000"

definition deliveryRetryDueAt :: "webhook_delivery \<Rightarrow> int" where
  "deliveryRetryDueAt delivery = wd_receivedAt delivery + (wd_attempts delivery + 1) * DELIVERY_RETRY_AFTER_MS"

definition RECENT_FAILURE_LIMIT :: nat where
  "RECENT_FAILURE_LIMIT = 50"

record failed_delivery =
  fd_id :: nat
  fd_deliveryId :: string
  fd_event :: string
  fd_repo :: "string option"
  fd_status :: delivery_status
  fd_receivedAt :: int
  fd_settledAt :: "int option"
  fd_attempts :: int
  fd_lastError :: "string option"

definition toFailedDeliveryView :: "nat \<times> webhook_delivery \<Rightarrow> delivery_status \<Rightarrow> failed_delivery" where
  "toFailedDeliveryView delivery status =
     \<lparr>fd_id = fst delivery, fd_deliveryId = wd_deliveryId (snd delivery), fd_event = wd_event (snd delivery),
      fd_repo = map_option wj_repo (wd_workflowJob (snd delivery)), fd_status = status,
      fd_receivedAt = wd_receivedAt (snd delivery), fd_settledAt = wd_settledAt (snd delivery),
      fd_attempts = wd_attempts (snd delivery), fd_lastError = wd_lastError (snd delivery)\<rparr>"

definition newest_with_status :: "delivery_status \<Rightarrow> db \<Rightarrow> webhook_delivery docs" where
  "newest_with_status status d =
     take RECENT_FAILURE_LIMIT (rev (db_query (\<lambda>r. wd_status r = status) (d_webhookDeliveries d)))"

definition recentFailures :: "string res \<Rightarrow> db \<Rightarrow> failed_delivery list res" where
  "recentFailures auth d =
     res_bind auth (\<lambda>_.
       Inr (take RECENT_FAILURE_LIMIT
         (js_sort (\<lambda>a b. fd_receivedAt b - fd_receivedAt a)
           (map (\<lambda>x. toFailedDeliveryView x DlvRejected) (newest_with_status DlvRejected d) @
            map (\<lambda>x. toFailedDeliveryView x DlvFailed) (newest_with_status DlvFailed d)))))"

definition patch_delivery :: "nat \<Rightarrow> (webhook_delivery \<Rightarrow> webhook_delivery) \<Rightarrow> db \<Rightarrow> db" where
  "patch_delivery i f d = d\<lparr>d_webhookDeliveries := db_patch (d_webhookDeliveries d) i f\<rparr>"

definition delivery_named :: "string \<Rightarrow> db \<Rightarrow> (nat \<times> webhook_delivery) option res" where
  "delivery_named guid d = db_unique (db_query (\<lambda>r. wd_deliveryId r = guid) (d_webhookDeliveries d))"

definition recordDelivery ::
  "int \<Rightarrow> string \<Rightarrow> string \<Rightarrow> workflow_job option \<Rightarrow> db \<Rightarrow> (bool \<times> db) res" where
  "recordDelivery now deliveryId event workflowJob d =
     res_bind (delivery_named deliveryId d) (\<lambda>existing.
       if existing \<noteq> None then Inr (True, d)
       else Inr (False, runAfter (ProcessDelivery (d_nextId d))
         (d\<lparr>d_webhookDeliveries := db_insert (d_webhookDeliveries d) (d_nextId d)
             \<lparr>wd_deliveryId = deliveryId, wd_event = event, wd_receivedAt = now, wd_status = DlvPending,
              wd_workflowJob = workflowJob, wd_attempts = 0, wd_lastError = None, wd_settledAt = None\<rparr>,
            d_nextId := Suc (d_nextId d)\<rparr>)))"

definition processDelivery :: "int \<Rightarrow> (string \<Rightarrow> string option) \<Rightarrow> nat \<Rightarrow> db \<Rightarrow> db res" where
  "processDelivery now env deliveryId d =
     (case db_get (d_webhookDeliveries d) deliveryId of
        None \<Rightarrow> Inr d
      | Some delivery \<Rightarrow>
          if wd_status delivery \<noteq> DlvPending then Inr d
          else case wd_workflowJob delivery of
            None \<Rightarrow>
              Inr (patch_delivery deliveryId (\<lambda>r. r\<lparr>wd_status := DlvRejected,
                     wd_lastError := Some ''Delivery carried no workflow_job payload'', wd_settledAt := Some now\<rparr>) d)
          | Some event \<Rightarrow>
              (case decideRepository (wj_repo event) (wj_repoIsPublic event) (parseRepositoryPolicy env) of
                 Denied reason \<Rightarrow>
                   Inr (patch_delivery deliveryId (\<lambda>r. r\<lparr>wd_status := DlvRejected,
                          wd_lastError := Some reason, wd_settledAt := Some now\<rparr>) d)
               | Allowed \<Rightarrow>
                   res_bind (applyWorkflowJob now event d) (\<lambda>d1.
                     Inr (patch_delivery deliveryId (\<lambda>r. r\<lparr>wd_status := DlvProcessed,
                            wd_attempts := wd_attempts delivery + 1, wd_settledAt := Some now\<rparr>) d1))))"

definition retry_delivery ::
  "int \<Rightarrow> nat \<times> webhook_delivery \<Rightarrow> (int \<times> int) \<times> db \<Rightarrow> (int \<times> int) \<times> db" where
  "retry_delivery now delivery state =
     (case (delivery, state) of
        ((i, row), ((retried, abandoned), d)) \<Rightarrow>
          if now < deliveryRetryDueAt row then ((retried, abandoned), d)
          else
            let attempts = wd_attempts row + 1 in
            if attempts \<ge> MAX_DELIVERY_ATTEMPTS
            then ((retried, abandoned + 1),
                  patch_delivery i (\<lambda>r. r\<lparr>wd_status := DlvFailed, wd_attempts := attempts,
                    wd_lastError := Some (''Gave up after '' @ show_int attempts @ '' attempts''),
                    wd_settledAt := Some now\<rparr>) d)
            else ((retried + 1, abandoned),
                  runAfter (ProcessDelivery i) (patch_delivery i (\<lambda>r. r\<lparr>wd_attempts := attempts\<rparr>) d)))"

definition retryStalledDeliveries :: "int \<Rightarrow> db \<Rightarrow> (int \<times> int) \<times> db" where
  "retryStalledDeliveries now d =
     fold (retry_delivery now)
       (take 50 (db_query (\<lambda>r. wd_status r = DlvPending) (d_webhookDeliveries d))) ((0, 0), d)"

section \<open>Recovery\<close>

definition RECOVERY_SCAN_LIMIT :: nat where
  "RECOVERY_SCAN_LIMIT = 100"

fun missingGuids :: "string list \<Rightarrow> db \<Rightarrow> string list res" where
  "missingGuids [] d = Inr []"
| "missingGuids (guid # guids) d =
     res_bind (delivery_named guid d) (\<lambda>existing.
     res_bind (missingGuids guids d) (\<lambda>missing.
       Inr (if existing = None then guid # missing else missing)))"

definition recovery_row :: "string \<Rightarrow> db \<Rightarrow> (nat \<times> webhook_recovery) option res" where
  "recovery_row guid d = db_unique (db_query (\<lambda>r. wy_guid r = guid) (d_webhookRecovery d))"

definition patch_recovery :: "nat \<Rightarrow> (webhook_recovery \<Rightarrow> webhook_recovery) \<Rightarrow> db \<Rightarrow> db" where
  "patch_recovery i f d = d\<lparr>d_webhookRecovery := db_patch (d_webhookRecovery d) i f\<rparr>"

definition claim_candidate ::
  "int \<Rightarrow> recovery_candidate \<Rightarrow> (string \<times> int) list \<times> db \<Rightarrow> ((string \<times> int) list \<times> db) res" where
  "claim_candidate now candidate state =
     (case state of (claimed, d) \<Rightarrow>
        res_bind (recovery_row (rc_guid candidate) d) (\<lambda>existing.
          case decideRecovery (map_option snd existing) now of
            Skip \<Rightarrow> Inr (claimed, d)
          | Abandon _ lastError \<Rightarrow>
              Inr (claimed,
                   case existing of
                     None \<Rightarrow> d
                   | Some (i, _) \<Rightarrow>
                       patch_recovery i (\<lambda>r. r\<lparr>wy_state := RecAbandoned, wy_lastError := Some lastError\<rparr>) d)
          | Request attempts nextAttemptAt \<Rightarrow>
              Inr (claimed @ [(rc_guid candidate, rc_githubDeliveryId candidate)],
                   case existing of
                     None \<Rightarrow>
                       d\<lparr>d_webhookRecovery := db_insert (d_webhookRecovery d) (d_nextId d)
                           \<lparr>wy_guid = rc_guid candidate, wy_githubDeliveryId = rc_githubDeliveryId candidate,
                            wy_event = rc_event candidate, wy_deliveredAt = rc_deliveredAt candidate,
                            wy_statusCode = rc_statusCode candidate, wy_attempts = attempts,
                            wy_firstRequestedAt = now, wy_lastRequestedAt = now,
                            wy_nextAttemptAt = nextAttemptAt, wy_state = RecRequested, wy_lastError = None\<rparr>,
                         d_nextId := Suc (d_nextId d)\<rparr>
                   | Some (i, _) \<Rightarrow>
                       patch_recovery i (\<lambda>r. r\<lparr>wy_githubDeliveryId := rc_githubDeliveryId candidate,
                         wy_statusCode := rc_statusCode candidate, wy_attempts := attempts,
                         wy_lastRequestedAt := now, wy_nextAttemptAt := nextAttemptAt\<rparr>) d)))"

definition claimRecovery ::
  "int \<Rightarrow> recovery_candidate list \<Rightarrow> db \<Rightarrow> ((string \<times> int) list \<times> db) res" where
  "claimRecovery now cands d = res_fold (claim_candidate now) cands ([], d)"

definition settleRecovery :: "string \<Rightarrow> bool \<Rightarrow> string option \<Rightarrow> db \<Rightarrow> db res" where
  "settleRecovery guid success error d =
     res_bind (recovery_row guid d) (\<lambda>row.
       case row of
         None \<Rightarrow> Inr d
       | Some (i, _) \<Rightarrow> Inr (patch_recovery i (\<lambda>r. r\<lparr>wy_lastError := if success then None else error\<rparr>) d))"

definition reconcile_row ::
  "int \<Rightarrow> nat \<times> webhook_recovery \<Rightarrow> (int \<times> int) \<times> db \<Rightarrow> ((int \<times> int) \<times> db) res" where
  "reconcile_row now doc state =
     (case (doc, state) of
        ((i, row), ((recovered, abandoned), d)) \<Rightarrow>
          res_bind (delivery_named (wy_guid row) d) (\<lambda>delivery.
            if delivery \<noteq> None
            then Inr ((recovered + 1, abandoned),
                      patch_recovery i (\<lambda>r. r\<lparr>wy_state := RecRecovered, wy_lastError := None\<rparr>) d)
            else if wy_attempts row \<ge> MAX_RECOVERY_ATTEMPTS \<and> now \<ge> wy_nextAttemptAt row
            then Inr ((recovered, abandoned + 1),
                      patch_recovery i (\<lambda>r. r\<lparr>wy_state := RecAbandoned,
                        wy_lastError := Some (or_else (wy_lastError row) (never_arrived (wy_attempts row)))\<rparr>) d)
            else Inr ((recovered, abandoned), d)))"

definition reconcileRecovered :: "int \<Rightarrow> db \<Rightarrow> ((int \<times> int) \<times> db) res" where
  "reconcileRecovered now d =
     res_fold (reconcile_row now)
       (take RECOVERY_SCAN_LIMIT (db_query (\<lambda>r. wy_state r = RecRequested) (d_webhookRecovery d))) ((0, 0), d)"

definition patch_recovery_state :: "nat \<Rightarrow> (webhook_recovery_state \<Rightarrow> webhook_recovery_state) \<Rightarrow> db \<Rightarrow> db" where
  "patch_recovery_state i f d = d\<lparr>d_webhookRecoveryState := db_patch (d_webhookRecoveryState d) i f\<rparr>"

definition beginRecoveryRun :: "int \<Rightarrow> db \<Rightarrow> int option \<times> db" where
  "beginRecoveryRun now d =
     (case db_first (d_webhookRecoveryState d) of
        None \<Rightarrow>
          let scannedThrough = now - RECOVERY_SEED_MS in
          (Some scannedThrough,
           d\<lparr>d_webhookRecoveryState := db_insert (d_webhookRecoveryState d) (d_nextId d)
               \<lparr>ws_scannedThrough = scannedThrough, ws_lastRunAt = now, ws_lastSuccessAt = None, ws_nextRunAt = now,
                ws_consecutiveFailures = 0, ws_lastOutcome = OutPending, ws_lastError = None, ws_listed = 0,
                ws_missing = 0, ws_requested = 0\<rparr>,
             d_nextId := Suc (d_nextId d)\<rparr>)
      | Some (i, state) \<Rightarrow>
          if now < ws_nextRunAt state
          then (None, patch_recovery_state i (\<lambda>r. r\<lparr>ws_lastRunAt := now, ws_lastOutcome := OutSkippedBackoff\<rparr>) d)
          else (Some (clampWatermark (ws_scannedThrough state) now),
                patch_recovery_state i (\<lambda>r. r\<lparr>ws_lastRunAt := now\<rparr>) d))"

definition finishRecoveryRun :: "finish_recovery_run \<Rightarrow> db \<Rightarrow> db" where
  "finishRecoveryRun args d =
     (case db_first (d_webhookRecoveryState d) of
        None \<Rightarrow> d
      | Some (i, state) \<Rightarrow>
          if fr_outcome args = OutError
          then
            let consecutiveFailures = ws_consecutiveFailures state + 1 in
            patch_recovery_state i (\<lambda>r. r\<lparr>ws_lastOutcome := OutError, ws_lastError := fr_error args,
              ws_consecutiveFailures := consecutiveFailures,
              ws_nextRunAt := fr_now args + nextRunDelayMs consecutiveFailures,
              ws_scannedThrough := clampWatermark (ws_scannedThrough state) (fr_now args)\<rparr>) d
          else
            patch_recovery_state i (\<lambda>r. r\<lparr>ws_lastOutcome := fr_outcome args, ws_lastError := None,
              ws_lastSuccessAt := (if fr_outcome args = OutOk then Some (fr_now args) else ws_lastSuccessAt state),
              ws_consecutiveFailures := 0, ws_nextRunAt := fr_now args,
              ws_scannedThrough :=
                (case fr_newestDeliveredAt args of
                   None \<Rightarrow> clampWatermark (ws_scannedThrough state) (fr_now args)
                 | Some newest \<Rightarrow> advanceWatermark (ws_scannedThrough state) newest (fr_now args)),
              ws_listed := fr_listed args, ws_missing := fr_missing args, ws_requested := fr_requested args\<rparr>) d)"

definition recoveryStatus :: "string res \<Rightarrow> db \<Rightarrow> (webhook_recovery_state \<times> nat \<times> nat \<times> nat) option res" where
  "recoveryStatus auth d =
     res_bind auth (\<lambda>_.
       Inr (map_option (\<lambda>(_, state).
              (state,
               length (take RECOVERY_SCAN_LIMIT (db_query (\<lambda>r. wy_state r = RecRequested) (d_webhookRecovery d))),
               length (take RECOVERY_SCAN_LIMIT (db_query (\<lambda>r. wy_state r = RecRecovered) (d_webhookRecovery d))),
               length (take RECOVERY_SCAN_LIMIT (db_query (\<lambda>r. wy_state r = RecAbandoned) (d_webhookRecovery d)))))
            (db_first (d_webhookRecoveryState d))))"

section \<open>The recovery action\<close>

text \<open>An error of a mutation is an \<open>Error\<close> without a status for the action that called it.\<close>

fun error_message :: "js_error \<Rightarrow> string" where
  "error_message (ConvexError m) = m"
| "error_message (Refused _ m) = m"
| "error_message (PlainError m) = m"
| "error_message NotUnique = ''unique() query returned more than one result''"

definition run_mutation :: "(db \<Rightarrow> ('a \<times> db) res) \<Rightarrow> (db \<times> int list, 'a) action" where
  "run_mutation f s =
     (case f (fst s) of
        Inl e \<Rightarrow> (Inl \<lparr>th_status = None, th_message = Some (error_message e)\<rparr>, s)
      | Inr (x, d) \<Rightarrow> (Inr x, (d, snd s)))"

definition github_client ::
  "(string option \<Rightarrow> thrown + delivery_item list \<times> string option) \<Rightarrow> (int \<Rightarrow> thrown + unit) \<Rightarrow>
   (db \<times> int list) recovery_client" where
  "github_client listing redelivery =
     \<lparr>rl_listDeliveries = (\<lambda>cursor s. (listing cursor, s)),
      rl_redeliver = (\<lambda>i s. (redelivery i, (fst s, snd s @ [i])))\<rparr>"

definition recovery_wiring ::
  "int \<Rightarrow> (db \<times> int list) recovery_client option \<Rightarrow> (db \<times> int list) recovery_deps" where
  "recovery_wiring now client =
     \<lparr>dp_now = now,
      dp_reconcile = (\<lambda>now. run_mutation (reconcileRecovered now)),
      dp_begin = (\<lambda>now. run_mutation (\<lambda>d. Inr (beginRecoveryRun now d))),
      dp_openClient = act_return client,
      dp_missingGuids = (\<lambda>guids. run_mutation (\<lambda>d. res_bind (missingGuids guids d) (\<lambda>m. Inr (m, d)))),
      dp_claim = (\<lambda>now cands. run_mutation (claimRecovery now cands)),
      dp_settle = (\<lambda>guid success error. run_mutation (\<lambda>d. res_bind (settleRecovery guid success error d) (\<lambda>d1. Inr ((), d1)))),
      dp_finish = (\<lambda>args. run_mutation (\<lambda>d. Inr ((), finishRecoveryRun args d)))\<rparr>"

definition recoverLostDeliveries ::
  "(string \<Rightarrow> int option) \<Rightarrow> (string \<Rightarrow> string \<Rightarrow> int) \<Rightarrow> int \<Rightarrow> (db \<times> int list) recovery_client option \<Rightarrow>
   (db \<times> int list, int \<times> int \<times> int) action" where
  "recoverLostDeliveries dateParse lc now client =
     act_bind (runRecovery dateParse lc (recovery_wiring now client)) (\<lambda>result.
       act_return (ru_listed result, ru_missing result, ru_requested result))"

section \<open>Deliveries are applied once\<close>

lemma patch_delivery_tables [simp]:
  "d_webhookDeliveries (patch_delivery i f d) = db_patch (d_webhookDeliveries d) i f"
  "d_jobs (patch_delivery i f d) = d_jobs d" "d_machines (patch_delivery i f d) = d_machines d"
  "d_commands (patch_delivery i f d) = d_commands d" "d_nextId (patch_delivery i f d) = d_nextId d"
  "core_ok (patch_delivery i f d) = core_ok d" "used_slots_nonneg (patch_delivery i f d) = used_slots_nonneg d"
  "slots_ok (patch_delivery i f d) = slots_ok d"
  by (simp_all add: patch_delivery_def core_ok_def db_ok_def attempts_ok_def names_ok_def secrets_ok_def
      secret_live_def profiles_ok_def fresh_ok_split used_slots_nonneg_def slots_ok_def work_on_def)

text \<open>C32: A delivery is recorded once: after a delivery was recorded, the same delivery id is a duplicate that
  changes nothing, whatever event or time comes with it.\<close>

theorem recordDelivery_once:
  assumes "recordDelivery now guid event job d = Inr (dup, d1)"
  shows "recordDelivery now2 guid event2 job2 d1 = Inr (True, d1)"
proof -
  obtain x where x: "delivery_named guid d = Inr x" "(if x \<noteq> None then d1 = d else
      d_webhookDeliveries d1 = db_insert (d_webhookDeliveries d) (d_nextId d)
             \<lparr>wd_deliveryId = guid, wd_event = event, wd_receivedAt = now, wd_status = DlvPending,
              wd_workflowJob = job, wd_attempts = 0, wd_lastError = None, wd_settledAt = None\<rparr>)"
    using assms by (auto simp: recordDelivery_def elim!: res_bind_InrE split: if_split_asm)
  have "\<exists>y. delivery_named guid d1 = Inr (Some y)"
  proof (cases x)
    case None
    then have "db_query (\<lambda>r. wd_deliveryId r = guid) (d_webhookDeliveries d) = []"
      using x(1) by (simp add: delivery_named_def db_unique_None)
    then show ?thesis using x(2) None by (simp add: delivery_named_def db_query_def db_insert_def db_unique_def)
  qed (use x in auto)
  then show ?thesis by (auto simp: recordDelivery_def)
qed

lemma applyWorkflowJob_deliveries:
  assumes "core_ok d" "used_slots_nonneg d" "applyWorkflowJob now args d = Inr d'"
  shows "d_webhookDeliveries d' = d_webhookDeliveries d"
  using applyWorkflowJob_frame [OF assms(3) job_frame_refl [OF assms(1,2)]]
  by (simp add: job_frame_def same_attempts_def)

lemma processDelivery_cases:
  assumes "processDelivery now env i d = Inr d'"
  obtains "d' = d" "\<forall>r. db_get (d_webhookDeliveries d) i = Some r \<longrightarrow> wd_status r \<noteq> DlvPending"
  | r reason where "db_get (d_webhookDeliveries d) i = Some r" "wd_status r = DlvPending"
      "d' = patch_delivery i (\<lambda>r. r\<lparr>wd_status := DlvRejected, wd_lastError := Some reason, wd_settledAt := Some now\<rparr>) d"
  | r event d1 where "db_get (d_webhookDeliveries d) i = Some r" "wd_status r = DlvPending" "wd_workflowJob r = Some event"
      "decideRepository (wj_repo event) (wj_repoIsPublic event) (parseRepositoryPolicy env) = Allowed"
      "applyWorkflowJob now event d = Inr d1"
      "d' = patch_delivery i (\<lambda>q. q\<lparr>wd_status := DlvProcessed, wd_attempts := wd_attempts r + 1, wd_settledAt := Some now\<rparr>) d1"
  using assms unfolding processDelivery_def
  by (auto elim!: res_bind_InrE split: option.split_asm if_split_asm repository_decision.split_asm)

text \<open>C31: A delivery is applied at most once and only for an allowed repository: when processing it changes a
  Job, the delivery was pending and the allowlist admits its repository, and processing it again, at any
  time and under any configuration, changes nothing.\<close>

theorem processDelivery_once:
  assumes ok: "core_ok d" "used_slots_nonneg d" and run: "processDelivery now env i d = Inr d'"
  shows "(d_jobs d' \<noteq> d_jobs d \<longrightarrow>
      (\<exists>r event. db_get (d_webhookDeliveries d) i = Some r \<and> wd_status r = DlvPending \<and> wd_workflowJob r = Some event \<and>
         decideRepository (wj_repo event) (wj_repoIsPublic event) (parseRepositoryPolicy env) = Allowed)) \<and>
    processDelivery now2 env2 i d' = Inr d'"
  using run
proof (cases rule: processDelivery_cases)
  case 1
  then show ?thesis by (auto simp: processDelivery_def split: option.split)
next
  case (2 r reason)
  then show ?thesis by (simp add: processDelivery_def)
next
  case (3 r event d1)
  have "db_get (d_webhookDeliveries d1) i = Some r"
    using applyWorkflowJob_deliveries [OF ok 3(5)] 3(1) by simp
  then have "processDelivery now2 env2 i d' = Inr d'" by (simp add: 3(6) processDelivery_def)
  then show ?thesis using 3 by blast
qed

lemma processDelivery_core:
  assumes ok: "core_ok d" "used_slots_nonneg d" and run: "processDelivery now env i d = Inr d'"
  shows "core_ok d' \<and> used_slots_nonneg d'"
  using run
proof (cases rule: processDelivery_cases)
  case (3 r event d1)
  have "core_ok d1 \<and> used_slots_nonneg d1"
    using job_frame_core [OF ok(1) applyWorkflowJob_frame [OF 3(5) job_frame_refl [OF ok]]] .
  then show ?thesis by (simp add: 3(6))
qed (use ok in simp_all)


section \<open>Retries end\<close>

text \<open>What one pass makes of a due row.\<close>

definition retry_row :: "int \<Rightarrow> webhook_delivery \<Rightarrow> webhook_delivery" where
  "retry_row now r =
     (if now < deliveryRetryDueAt r then r
      else if wd_attempts r + 1 \<ge> MAX_DELIVERY_ATTEMPTS
      then r\<lparr>wd_status := DlvFailed, wd_attempts := wd_attempts r + 1,
             wd_lastError := Some (''Gave up after '' @ show_int (wd_attempts r + 1) @ '' attempts''),
             wd_settledAt := Some now\<rparr>
      else r\<lparr>wd_attempts := wd_attempts r + 1\<rparr>)"

lemma retry_delivery_rows:
  assumes "db_get (d_webhookDeliveries (snd s)) i = Some r"
  shows "db_get (d_webhookDeliveries (snd (retry_delivery now (i, r) s))) j =
    (if j = i then Some (retry_row now r) else db_get (d_webhookDeliveries (snd s)) j)"
    "db_ids (d_webhookDeliveries (snd (retry_delivery now (i, r) s))) = db_ids (d_webhookDeliveries (snd s))"
  using assms by (auto simp: retry_delivery_def retry_row_def Let_def split: prod.split)

lemma retry_fold_rows:
  assumes "distinct (map fst docs)" "\<forall>(i, r) \<in> set docs. db_get (d_webhookDeliveries (snd s)) i = Some r"
  shows "db_ids (d_webhookDeliveries (snd (fold (retry_delivery now) docs s))) = db_ids (d_webhookDeliveries (snd s)) \<and>
    db_get (d_webhookDeliveries (snd (fold (retry_delivery now) docs s))) j =
      (if j \<in> fst ` set docs then map_option (retry_row now) (db_get (d_webhookDeliveries (snd s)) j)
       else db_get (d_webhookDeliveries (snd s)) j)"
  using assms
proof (induction docs arbitrary: s)
  case (Cons x docs)
  obtain i r where x: "x = (i, r)" by (cases x)
  have row: "db_get (d_webhookDeliveries (snd s)) i = Some r" using Cons.prems(2) by (simp add: x)
  note step = retry_delivery_rows [OF row, where now = now]
  have docs: "distinct (map fst docs)" "i \<notin> fst ` set docs" using Cons.prems(1) by (simp_all add: x)
  have rest: "\<forall>(k, q) \<in> set docs. db_get (d_webhookDeliveries (snd (retry_delivery now (i, r) s))) k = Some q"
    using Cons.prems(2) docs(2) by (fastforce simp: step x image_iff)
  show ?case using Cons.IH [OF docs(1) rest] docs(2) row by (simp add: x step)
qed simp

definition pending_deliveries :: "db \<Rightarrow> webhook_delivery docs" where
  "pending_deliveries d = db_query (\<lambda>r. wd_status r = DlvPending) (d_webhookDeliveries d)"

lemma pending_ids:
  assumes "db_wf (d_webhookDeliveries d)"
  shows "j \<in> fst ` set (pending_deliveries d) \<longleftrightarrow>
    (\<exists>r. db_get (d_webhookDeliveries d) j = Some r \<and> wd_status r = DlvPending)"
  using assms by (force simp: pending_deliveries_def db_query_def db_wf_get_iff)

text \<open>A pass retries the first 50 pending deliveries and leaves every other one as it is.\<close>

lemma retry_pass:
  assumes wf: "db_wf (d_webhookDeliveries d)"
  shows "db_ids (d_webhookDeliveries (snd (retryStalledDeliveries now d))) = db_ids (d_webhookDeliveries d) \<and>
    db_get (d_webhookDeliveries (snd (retryStalledDeliveries now d))) j =
      (if j \<in> fst ` set (take 50 (pending_deliveries d)) then map_option (retry_row now) (db_get (d_webhookDeliveries d) j)
       else db_get (d_webhookDeliveries d) j)"
proof -
  let ?docs = "take 50 (pending_deliveries d)"
  have "distinct (map fst (pending_deliveries d))"
    "\<forall>(i, r) \<in> set (pending_deliveries d). db_get (d_webhookDeliveries d) i = Some r"
    using query_rows [OF wf] by (simp_all add: pending_deliveries_def)
  then have "distinct (map fst ?docs)"
    "\<forall>(i, r) \<in> set ?docs. db_get (d_webhookDeliveries (snd ((0 :: int, 0 :: int), d))) i = Some r"
    by (auto simp: take_map [symmetric] dest: in_set_takeD)
  from retry_fold_rows [OF this] show ?thesis
    by (simp add: retryStalledDeliveries_def pending_deliveries_def)
qed

lemma settled_kept:
  assumes "db_wf (d_webhookDeliveries d)" "db_get (d_webhookDeliveries d) i = Some r" "wd_status r \<noteq> DlvPending"
  shows "db_get (d_webhookDeliveries (fold (\<lambda>now d. snd (retryStalledDeliveries now d)) passes d)) i = Some r"
  using assms
proof (induction passes arbitrary: d)
  case (Cons now passes)
  have "i \<notin> fst ` set (take 50 (pending_deliveries d))"
    using pending_ids [OF Cons.prems(1), of i] Cons.prems(2,3) by (auto dest!: in_set_takeD)
  then show ?case using Cons retry_pass [OF Cons.prems(1), of now i] by (simp add: tb.wf_ids)
qed simp

lemma pending_count_mono:
  assumes wf: "db_wf (d_webhookDeliveries d)"
  shows "length (pending_deliveries (snd (retryStalledDeliveries now d))) \<le> length (pending_deliveries d)"
proof -
  let ?e = "snd (retryStalledDeliveries now d)"
  note pass = retry_pass [OF wf, where now = now]
  have wf_e: "db_wf (d_webhookDeliveries ?e)" using wf pass by (simp add: tb.wf_ids)
  have count: "length (pending_deliveries x) = card (fst ` set (pending_deliveries x))" if "db_wf (d_webhookDeliveries x)" for x
    using distinct_card [OF query_rows(1) [OF that, of "\<lambda>r. wd_status r = DlvPending"]]
    by (simp add: pending_deliveries_def)
  have "fst ` set (pending_deliveries ?e) \<subseteq> fst ` set (pending_deliveries d)"
    unfolding subset_iff pending_ids [OF wf] pending_ids [OF wf_e] pass [THEN conjunct2]
    by (auto simp: retry_row_def split: if_split_asm)
  then show ?thesis unfolding count [OF wf] count [OF wf_e] by (rule card_mono [rotated]) simp
qed



section \<open>Redelivery requests are bounded\<close>

definition recoveries_ok :: "db \<Rightarrow> bool" where
  "recoveries_ok d \<longleftrightarrow> db_wf (d_webhookRecovery d) \<and> ids_below (d_nextId d) (d_webhookRecovery d) \<and>
     distinct (map (\<lambda>x. wy_guid (snd x)) (d_webhookRecovery d)) \<and>
     list_all (\<lambda>x. wy_attempts (snd x) \<le> MAX_RECOVERY_ATTEMPTS) (d_webhookRecovery d)"

text \<open>The requests already counted for a delivery.\<close>

definition requests_spent :: "string \<Rightarrow> db \<Rightarrow> int" where
  "requests_spent guid d = sum_list (map (\<lambda>x. if wy_guid (snd x) = guid then wy_attempts (snd x) else 0) (d_webhookRecovery d))"

lemma requests_spent_row:
  assumes "recoveries_ok d" "(i, r) \<in> set (d_webhookRecovery d)"
  shows "requests_spent (wy_guid r) d = wy_attempts r"
proof -
  have "sum_list (map (\<lambda>x. if wy_guid (snd x) = wy_guid r then wy_attempts (snd x) else 0) t) = wy_attempts r"
    if "distinct (map (\<lambda>x. wy_guid (snd x)) t)" "(i, r) \<in> set t" for t :: "webhook_recovery docs"
  proof -
    have "sum_list (map (\<lambda>x. if wy_guid (snd x) = wy_guid r then wy_attempts (snd x) else 0) t) =
        sum_list (map (\<lambda>x. wy_attempts (snd x)) (filter (\<lambda>x. wy_guid (snd x) = wy_guid r) t))"
      by (simp add: sum_list_map_filter')
    also have "filter (\<lambda>x. wy_guid (snd x) = wy_guid r) t = [(i, r)]"
      using filter_length_1_distinct [OF that] by simp
    finally show ?thesis by simp
  qed
  then show ?thesis using assms by (simp add: recoveries_ok_def requests_spent_def)
qed

lemma requests_spent_none:
  assumes "\<forall>x \<in> set (d_webhookRecovery d). wy_guid (snd x) \<noteq> guid"
  shows "requests_spent guid d = 0"
proof -
  have "sum_list (map (\<lambda>x. if wy_guid (snd x) = guid then wy_attempts (snd x) else 0) t) = 0"
    if "\<forall>x \<in> set t. wy_guid (snd x) \<noteq> guid" for t :: "webhook_recovery docs"
    using that by (induction t) auto
  then show ?thesis using assms by (simp add: requests_spent_def)
qed

lemma requests_spent_bound:
  assumes "recoveries_ok d"
  shows "requests_spent guid d \<le> MAX_RECOVERY_ATTEMPTS"
proof (cases "\<exists>x \<in> set (d_webhookRecovery d). wy_guid (snd x) = guid")
  case True
  then obtain i r where "(i, r) \<in> set (d_webhookRecovery d)" "wy_guid r = guid" by auto
  then show ?thesis using requests_spent_row [OF assms] assms by (auto simp: recoveries_ok_def list_all_iff)
next
  case False
  then show ?thesis using requests_spent_none [of d guid] by (simp add: MAX_RECOVERY_ATTEMPTS_def)
qed


lemma patch_recovery_ok:
  assumes ok: "recoveries_ok d" and row: "(i, r) \<in> set (d_webhookRecovery d)"
    and f: "\<And>q. wy_guid (f q) = wy_guid q" "wy_attempts (f r) \<le> MAX_RECOVERY_ATTEMPTS"
  shows "recoveries_ok (patch_recovery i f d)"
    and "requests_spent guid (patch_recovery i f d) =
      (if guid = wy_guid r then wy_attempts (f r) else requests_spent guid d)"
proof -
  have wf: "db_wf (d_webhookRecovery d)" using ok by (simp add: recoveries_ok_def)
  have only: "q = r" if "(i, q) \<in> set (d_webhookRecovery d)" for q
    using that row db_wf_get_iff [OF wf] by (metis option.inject)
  have "wy_attempts q \<le> MAX_RECOVERY_ATTEMPTS" if "(j, q) \<in> set (db_patch (d_webhookRecovery d) i f)" for j q
  proof -
    from that consider q0 where "(i, q0) \<in> set (d_webhookRecovery d)" "q = f q0" | "(j, q) \<in> set (d_webhookRecovery d)"
      by (auto simp: db_patch_def split: if_splits)
    then show ?thesis
    proof cases
      case 1
      then show ?thesis using only [of q0] f(2) by simp
    next
      case 2
      then show ?thesis using ok by (auto simp: recoveries_ok_def list_all_iff)
    qed
  qed
  then show new: "recoveries_ok (patch_recovery i f d)"
    using ok f(1) by (auto simp: recoveries_ok_def patch_recovery_def map_db_patch_same [of wy_guid f] list_all_iff)
  show "requests_spent guid (patch_recovery i f d) =
      (if guid = wy_guid r then wy_attempts (f r) else requests_spent guid d)"
  proof (cases "guid = wy_guid r")
    case True
    have "(i, f r) \<in> set (d_webhookRecovery (patch_recovery i f d))"
      using row by (auto simp: patch_recovery_def set_db_patch)
    from requests_spent_row [OF new this] show ?thesis using True f(1) by simp
  next
    case False
    let ?c = "\<lambda>x. if wy_guid (snd x) = guid then wy_attempts (snd x) else 0"
    have "?c (fst x, if fst x = i then f (snd x) else snd x) = ?c x" if "x \<in> set (d_webhookRecovery d)" for x
    proof (cases "fst x = i")
      case True
      then have "snd x = r" using only [of "snd x"] that by (metis prod.collapse)
      then show ?thesis using True False f(1) by simp
    qed simp
    then have "map ?c (db_patch (d_webhookRecovery d) i f) = map ?c (d_webhookRecovery d)"
      by (simp add: db_patch_def case_prod_unfold)
    then show ?thesis using False by (simp add: requests_spent_def patch_recovery_def)
  qed
qed

lemma recovery_row_Some:
  assumes "recovery_row guid d = Inr (Some (i, r))"
  shows "(i, r) \<in> set (d_webhookRecovery d)" "wy_guid r = guid"
proof -
  have "(i, r) \<in> set (db_query (\<lambda>r. wy_guid r = guid) (d_webhookRecovery d))"
    using assms by (simp add: recovery_row_def db_unique_Some)
  then show "(i, r) \<in> set (d_webhookRecovery d)" "wy_guid r = guid" by (simp_all add: db_query_iff)
qed

lemma recovery_row_None:
  assumes "recovery_row guid d = Inr None"
  shows "\<forall>x \<in> set (d_webhookRecovery d). wy_guid (snd x) \<noteq> guid"
  using assms by (auto simp: recovery_row_def db_unique_None db_query_def filter_empty_conv)

text \<open>Each request is counted before it is made.\<close>

lemma claim_candidate_spent:
  assumes ok: "recoveries_ok d" and run: "claim_candidate now c (claimed, d) = Inr (claimed', d')"
  shows "recoveries_ok d' \<and>
    int (count_list (map fst claimed') guid) - int (count_list (map fst claimed) guid) =
      requests_spent guid d' - requests_spent guid d"
proof -
  obtain x where x: "recovery_row (rc_guid c) d = Inr x"
    using run by (auto simp: claim_candidate_def elim!: res_bind_InrE)
  show ?thesis
  proof (cases x)
    case None
    note none = recovery_row_None [OF x [unfolded None]]
    let ?r = "\<lparr>wy_guid = rc_guid c, wy_githubDeliveryId = rc_githubDeliveryId c, wy_event = rc_event c,
      wy_deliveredAt = rc_deliveredAt c, wy_statusCode = rc_statusCode c, wy_attempts = 1, wy_firstRequestedAt = now,
      wy_lastRequestedAt = now, wy_nextAttemptAt = now + recoveryBackoffMs 1, wy_state = RecRequested, wy_lastError = None\<rparr>"
    have r: "claimed' = claimed @ [(rc_guid c, rc_githubDeliveryId c)]"
      "d_webhookRecovery d' = db_insert (d_webhookRecovery d) (d_nextId d) ?r" "d_nextId d' = Suc (d_nextId d)"
      using run x None by (auto simp: claim_candidate_def decideRecovery_def)
    have new: "recoveries_ok d'"
      using ok none by (auto simp: recoveries_ok_def r MAX_RECOVERY_ATTEMPTS_def db_insert_def list_all_iff
          tb.wf_add [unfolded db_insert_def] ids_below_simps(2) [unfolded db_insert_def] ids_below_fresh)
    have "requests_spent guid d' = requests_spent guid d + (if guid = rc_guid c then 1 else 0)"
      by (auto simp: requests_spent_def r db_insert_def)
    then show ?thesis using new by (auto simp: r)
  next
    case (Some ir)
    obtain i r where ir: "ir = (i, r)" by (cases ir)
    note row = recovery_row_Some [OF x [unfolded Some ir]]
    have spent: "requests_spent (rc_guid c) d = wy_attempts r" using requests_spent_row [OF ok row(1)] row(2) by simp
    have bound: "wy_attempts r \<le> MAX_RECOVERY_ATTEMPTS" using ok row(1) by (auto simp: recoveries_ok_def list_all_iff)
    show ?thesis
    proof (cases "decideRecovery (Some r) now")
      case (Request attempts nextAt)
      note dec = decideRecovery_Request [OF Request]
      let ?f = "\<lambda>r. r\<lparr>wy_githubDeliveryId := rc_githubDeliveryId c, wy_statusCode := rc_statusCode c,
        wy_attempts := attempts, wy_lastRequestedAt := now, wy_nextAttemptAt := nextAt\<rparr>"
      have r: "claimed' = claimed @ [(rc_guid c, rc_githubDeliveryId c)]" "d' = patch_recovery i ?f d"
        using run x Some ir Request by (simp_all add: claim_candidate_def)
      have f: "\<And>q. wy_guid (?f q) = wy_guid q" "wy_attempts (?f r) \<le> MAX_RECOVERY_ATTEMPTS" using dec(2) by simp_all
      show ?thesis
        using patch_recovery_ok(1) [where f = ?f, OF ok row(1) f] patch_recovery_ok(2) [where f = ?f, OF ok row(1) f, of guid] spent row(2) dec(1)
        by (auto simp: r)
    next
      case Skip
      then show ?thesis using run x Some ir ok by (auto simp: claim_candidate_def)
    next
      case (Abandon attempts err)
      let ?f = "\<lambda>r. r\<lparr>wy_state := RecAbandoned, wy_lastError := Some err\<rparr>"
      have r: "claimed' = claimed" "d' = patch_recovery i ?f d"
        using run x Some ir Abandon by (simp_all add: claim_candidate_def)
      have f: "\<And>q. wy_guid (?f q) = wy_guid q" "wy_attempts (?f r) \<le> MAX_RECOVERY_ATTEMPTS" using bound by simp_all
      show ?thesis
        using patch_recovery_ok(1) [where f = ?f, OF ok row(1) f] patch_recovery_ok(2) [where f = ?f, OF ok row(1) f, of guid] spent row(2)
        by (auto simp: r)
    qed
  qed
qed

lemma claimRecovery_spent:
  assumes "recoveries_ok d" "res_fold (claim_candidate now) cs (claimed, d) = Inr (claimed', d')"
  shows "recoveries_ok d' \<and>
    int (count_list (map fst claimed') guid) - int (count_list (map fst claimed) guid) =
      requests_spent guid d' - requests_spent guid d"
  using assms
proof (induction cs arbitrary: claimed d)
  case (Cons c cs)
  obtain cl1 d1 where one: "claim_candidate now c (claimed, d) = Inr (cl1, d1)"
      "res_fold (claim_candidate now) cs (cl1, d1) = Inr (claimed', d')"
    using Cons.prems(2) by (auto elim!: res_bind_InrE)
  note step = claim_candidate_spent [OF Cons.prems(1) one(1), of guid]
  then have "recoveries_ok d1" by simp
  from Cons.IH [OF this one(2)] step show ?case by simp
qed simp

text \<open>All the requests handed out by a sequence of claims.\<close>

fun claim_rounds :: "(int \<times> recovery_candidate list) list \<Rightarrow> db \<Rightarrow> ((string \<times> int) list \<times> db) res" where
  "claim_rounds [] d = Inr ([], d)"
| "claim_rounds ((now, cs) # rounds) d =
     res_bind (claimRecovery now cs d) (\<lambda>(claimed, d1).
     res_bind (claim_rounds rounds d1) (\<lambda>(later, d2). Inr (claimed @ later, d2)))"



section \<open>One recovery run\<close>

lemma claim_candidate_length:
  "claim_candidate now c (claimed, d) = Inr (claimed', d') \<Longrightarrow> length claimed' \<le> Suc (length claimed)"
  by (auto simp: claim_candidate_def elim!: res_bind_InrE split: recovery_decision.split_asm)

lemma claimRecovery_length:
  "res_fold (claim_candidate now) cs (claimed, d) = Inr (claimed', d') \<Longrightarrow>
   length claimed' \<le> length claimed + length cs"
proof (induction cs arbitrary: claimed d)
  case (Cons c cs)
  obtain cl d1 where one: "claim_candidate now c (claimed, d) = Inr (cl, d1)"
      "res_fold (claim_candidate now) cs (cl, d1) = Inr (claimed', d')"
    using Cons.prems by (auto elim!: res_bind_InrE)
  from claim_candidate_length [OF one(1)] Cons.IH [OF one(2)] show ?case by simp
qed simp

lemma run_mutation_log [simp]: "snd (snd (run_mutation f s)) = snd s"
  by (auto simp: run_mutation_def split: sum.split prod.split)

lemma run_mutation_Inr: "run_mutation f s = (Inr x, s') \<Longrightarrow> \<exists>d. f (fst s) = Inr (x, d)"
  by (auto simp: run_mutation_def split: sum.splits prod.splits)

interpretation rb: recovery_budget
  "recovery_wiring now (map_option (case_prod github_client) client)" "\<lambda>s. length (snd s)" for now client
proof (unfold_locales, goal_cases)
  case (8 now cs s xs s')
  then have "run_mutation (claimRecovery now cs) s = (Inr xs, s')" by (simp add: recovery_wiring_def)
  from run_mutation_Inr [OF this] show ?case by (auto simp: claimRecovery_def dest!: claimRecovery_length)
qed (auto simp: recovery_wiring_def act_return_def github_client_def)

text \<open>C35: One run of the recovery job asks GitHub for at most 20 redeliveries, whatever GitHub lists or answers
  and whatever state the tables are in.\<close>

theorem recovery_run_budget:
  "length (snd (snd (recoverLostDeliveries dateParse lc now (map_option (case_prod github_client) client) (d, asked))))
     \<le> length asked + MAX_REDELIVERIES_PER_RUN"
proof -
  have "snd (recoverLostDeliveries dateParse lc now (map_option (case_prod github_client) client) (d, asked)) =
      snd (runRecovery dateParse lc (recovery_wiring now (map_option (case_prod github_client) client)) (d, asked))"
    by (auto simp: recoverLostDeliveries_def act_bind_def act_return_def split: prod.split sum.split)
  then show ?thesis using rb.run_budget [of dateParse lc now client "(d, asked)"] by simp
qed

text \<open>A run picks the 20 oldest candidates before it looks at what became of them, so abandoned deliveries
  take places of the run: when all 20 are abandoned, nothing is asked for.\<close>

lemma abandoned_not_claimed:
  assumes "\<forall>c \<in> set cs. \<exists>i r. recovery_row (rc_guid c) d = Inr (Some (i, r)) \<and> wy_state r = RecAbandoned"
  shows "claimRecovery now cs d = Inr ([], d)"
proof -
  have "res_fold (claim_candidate now) cs (claimed, d) = Inr (claimed, d)" for claimed
    using assms by (induction cs) (auto simp: claim_candidate_def decideRecovery_def)
  then show ?thesis by (simp add: claimRecovery_def)
qed


section \<open>Witnesses\<close>

text \<open>The delivery that announces Job 77, recorded and processed; and one that is recorded but never processed.\<close>

definition allow_acme :: "string \<Rightarrow> string option" where
  "allow_acme key = (if key = ''ALLOWED_REPOS'' then Some ''acme/*'' else None)"

definition recorded_db :: db where
  "recorded_db = snd (projr (recordDelivery 1000 ''guid-1'' ''workflow_job'' (Some (sample_event ActQueued 77)) empty_db))"

definition processed_db :: db where
  "processed_db = projr (processDelivery 1001 allow_acme (d_nextId empty_db) recorded_db)"

lemma recorded_run:
  "recordDelivery 1000 ''guid-1'' ''workflow_job'' (Some (sample_event ActQueued 77)) empty_db = Inr (False, recorded_db)"
  by code_simp

lemma processed_run: "processDelivery 1001 allow_acme (d_nextId empty_db) recorded_db = Inr processed_db"
  by code_simp

theorem recordDelivery_once_witness:
  "recordDelivery 2000 ''guid-1'' ''workflow_job'' None recorded_db = Inr (True, recorded_db)"
  by (rule recordDelivery_once [OF recorded_run])

theorem processDelivery_once_witness:
  "processDelivery 1002 allow_acme (d_nextId empty_db) processed_db = Inr processed_db \<and>
   map (\<lambda>x. jb_ghJobId (snd x)) (d_jobs processed_db) = [77]"
proof -
  have "core_ok recorded_db" "used_slots_nonneg recorded_db"
    "map (\<lambda>x. jb_ghJobId (snd x)) (d_jobs processed_db) = [77]" by code_simp+
  then show ?thesis using processDelivery_once [OF _ _ processed_run] by simp
qed


definition lost_candidate :: recovery_candidate where
  "lost_candidate = \<lparr>rc_guid = ''guid-2'', rc_githubDeliveryId = 9, rc_event = ''workflow_job'',
     rc_deliveredAt = 500, rc_statusCode = 502\<rparr>"


end
