(* ===== verification/Reconcile.thy ===== *)
theory Reconcile
  imports Webhooks
begin

text \<open>
  The periodic repair of the control plane (\<open>packages/backend/convex/reconcile.ts\<close>): it takes work off
  silent Workers, expires what waited too long, deletes what is past its retention, and recomputes the
  used slots of every Worker from the work that is left. The run is one transaction, written as its loops
  in order: \<open>recon_load\<close> is what the run reads first, \<open>recon\<close> its counters and its map \<open>machineSlots\<close>
  beside the database. The lemmas show that a run never throws, keeps the invariant, and leaves the slot
  accounting exact whatever it was before; and which work it leaves alone.
\<close>

section \<open>Retention and deadlines\<close>

definition ASSIGNMENT_STUCK_MS :: int where
  "ASSIGNMENT_STUCK_MS = 45 * 60000"

definition RUNNING_ABANDONED_MS :: int where
  "RUNNING_ABANDONED_MS = 10 * 60000"

definition QUEUE_EXPIRED_MS :: int where
  "QUEUE_EXPIRED_MS = 24 * 60 * 60000"

definition REGISTRATION_TOKEN_RETENTION_MS :: int where
  "REGISTRATION_TOKEN_RETENTION_MS = 60 * 60000"

definition FINISHED_JOB_RETENTION_MS :: int where
  "FINISHED_JOB_RETENTION_MS = 30 * 24 * 60 * 60000"

definition TERMINAL_WORK_RETENTION_MS :: int where
  "TERMINAL_WORK_RETENTION_MS = FINISHED_JOB_RETENTION_MS"

definition DELIVERY_RETENTION_MS :: int where
  "DELIVERY_RETENTION_MS = 7 * 24 * 60 * 60000"

definition RECOVERY_RETENTION_MS :: int where
  "RECOVERY_RETENTION_MS = DELIVERY_RETENTION_MS"

definition ACTIVE_ATTEMPT_STATES :: "attempt_state list" where
  "ACTIVE_ATTEMPT_STATES = [APending, APreparing, AReady, ARunning]"

definition ACTIVE_EXPERIMENT_STATES :: "experiment_state list" where
  "ACTIVE_EXPERIMENT_STATES = [EQueued, EPreparing, ERunning]"

definition ACTIVE_COMMAND_STATES :: "command_status list" where
  "ACTIVE_COMMAND_STATES = [CmdPending, CmdClaimed, CmdCancelled]"

definition TERMINAL_ATTEMPT_STATES :: "attempt_state list" where
  "TERMINAL_ATTEMPT_STATES = [ACompleted, ACancelled, AFailed]"

definition TERMINAL_EXPERIMENT_STATES :: "experiment_state list" where
  "TERMINAL_EXPERIMENT_STATES = [ECompleted, ECancelled, EFailed]"

section \<open>What a run reads\<close>

definition ranges :: "('k \<Rightarrow> 'r \<Rightarrow> bool) \<Rightarrow> 'k list \<Rightarrow> 'r docs \<Rightarrow> 'r docs" where
  "ranges has keys t = concat (map (\<lambda>k. db_query (has k) t) keys)"

definition active_attempts :: "db \<Rightarrow> attempt docs" where
  "active_attempts d = ranges (\<lambda>s a. at_state a = s) ACTIVE_ATTEMPT_STATES (d_attempts d)"

definition active_experiments :: "db \<Rightarrow> experiment_row docs" where
  "active_experiments d = ranges (\<lambda>s e. ex_state e = s) ACTIVE_EXPERIMENT_STATES (d_experiments d)"

definition jobs_with :: "job_status \<Rightarrow> db \<Rightarrow> job docs" where
  "jobs_with status d = db_query (\<lambda>j. jb_status j = status) (d_jobs d)"

record recon_load =
  ld_assignedJobs :: "job docs"
  ld_runningJobs :: "job docs"
  ld_queuedJobs :: "job docs"
  ld_commands :: "command docs"
  ld_finishedCommands :: "command docs"
  ld_attempts :: "attempt docs"
  ld_experiments :: "experiment_row docs"
  ld_machines :: "machine docs"

definition referencedMachineIds :: "db \<Rightarrow> nat list" where
  "referencedMachineIds d =
     js_unique (List.map_filter id
       (map (\<lambda>x. jb_machineId (snd x)) (jobs_with JobAssigned d @ jobs_with JobRunning d @ jobs_with JobQueued d) @
        map (\<lambda>x. at_machineId (snd x)) (active_attempts d) @ map (\<lambda>x. ex_machineId (snd x)) (active_experiments d)))"

text \<open>
  The \<open>Map\<close> of the Workers by id: the referenced ones first, then those with used slots in the order of
  the index \<open>by_usedSlots\<close>; a Worker in both keeps its first place.
\<close>

definition recon_machines :: "db \<Rightarrow> machine docs" where
  "recon_machines d =
     (let referenced = List.map_filter (\<lambda>i. map_option (Pair i) (db_get (d_machines d) i)) (referencedMachineIds d);
          withSlots = sort_key (\<lambda>x. mc_usedSlots (snd x)) (db_query (\<lambda>m. mc_usedSlots m > 0) (d_machines d))
      in referenced @ filter (\<lambda>x. fst x \<notin> set (map fst referenced)) withSlots)"

definition recon_read :: "db \<Rightarrow> recon_load" where
  "recon_read d =
     \<lparr>ld_assignedJobs = jobs_with JobAssigned d, ld_runningJobs = jobs_with JobRunning d,
      ld_queuedJobs = jobs_with JobQueued d,
      ld_commands = ranges (\<lambda>s c. cm_status c = s) ACTIVE_COMMAND_STATES (d_commands d),
      ld_finishedCommands = take 200 (db_query (\<lambda>c. cm_status c = CmdFinished) (d_commands d)),
      ld_attempts = active_attempts d, ld_experiments = active_experiments d, ld_machines = recon_machines d\<rparr>"

record recon =
  rn_requeued :: int
  rn_abandoned :: int
  rn_expired :: int
  rn_machineSlots :: "nat \<Rightarrow> int option"
  rn_db :: db

definition commands_of_job :: "recon_load \<Rightarrow> nat \<Rightarrow> command docs" where
  "commands_of_job ld i = filter (\<lambda>c. cm_jobId (snd c) = i) (ld_commands ld)"

text \<open>The Worker of a row, and whether it was silent for longer than the limit; an unknown one is.\<close>

definition machine_of :: "recon_load \<Rightarrow> nat option \<Rightarrow> (nat \<times> machine) option" where
  "machine_of ld machineId =
     (case machineId of None \<Rightarrow> None | Some m \<Rightarrow> map_option (Pair m) (map_of (ld_machines ld) m))"

definition silent_for :: "int \<Rightarrow> int \<Rightarrow> (nat \<times> machine) option \<Rightarrow> bool" where
  "silent_for limit now machine =
     (case machine of None \<Rightarrow> True | Some (_, m) \<Rightarrow> now - mc_lastSeen m > limit)"

definition recon_release :: "(nat \<times> machine) option \<Rightarrow> recon \<Rightarrow> recon" where
  "recon_release machine s =
     (case machine of
        None \<Rightarrow> s
      | Some (m, row) \<Rightarrow>
          let usedSlots = max 0 (or_else (rn_machineSlots s m) (mc_usedSlots row) - 1)
          in s\<lparr>rn_machineSlots := (rn_machineSlots s)(m \<mapsto> usedSlots),
               rn_db := patch_machine m (\<lambda>r. r\<lparr>mc_usedSlots := usedSlots\<rparr>) (rn_db s)\<rparr>)"

definition recon_write :: "(db \<Rightarrow> db) \<Rightarrow> recon \<Rightarrow> recon" where
  "recon_write f s = s\<lparr>rn_db := f (rn_db s)\<rparr>"

section \<open>Jobs\<close>

definition assignment_started :: "command docs \<Rightarrow> int" where
  "assignment_started cs =
     fold (\<lambda>c latest. max latest (or_else (cm_claimedAt (snd c)) (cm_creationTime (snd c)))) cs 0"

definition assignment_stuck :: "int \<Rightarrow> recon_load \<Rightarrow> nat \<times> job \<Rightarrow> bool" where
  "assignment_stuck now ld doc =
     (let startedAt = assignment_started (filter (\<lambda>c. jb_runnerName (snd doc) = Some (cm_runnerName (snd c)) \<and>
              jb_machineId (snd doc) = Some (cm_machineId (snd c))) (commands_of_job ld (fst doc)))
      in startedAt > 0 \<and> now - startedAt > ASSIGNMENT_STUCK_MS)"

definition assignment_failure :: "bool \<Rightarrow> (nat \<times> machine) option \<Rightarrow> string" where
  "assignment_failure agentOffline machine =
     (if agentOffline
      then ''Agent for '' @ (case machine of None \<Rightarrow> ''the assigned machine'' | Some (_, m) \<Rightarrow> mc_name m) @
           '' stopped reporting''
      else ''Provisioning did not start within 45 minutes'')"

definition recon_assigned :: "int \<Rightarrow> recon_load \<Rightarrow> nat \<times> job \<Rightarrow> recon \<Rightarrow> recon" where
  "recon_assigned now ld doc s =
     (let machine = machine_of ld (jb_machineId (snd doc));
          agentOffline = silent_for WORKER_OFFLINE_AFTER_MS now machine
      in if \<not> agentOffline \<and> \<not> assignment_stuck now ld doc then s
         else
           let s1 = recon_write (discard_commands now (commands_of_job ld (fst doc)) (Some (snd doc))) s;
               s2 = recon_release machine s1;
               outcome = decideAttemptOutcome (or_else (jb_attempts (snd doc)) 1) now
                           (assignment_failure agentOffline machine);
               s3 = recon_write (patch_job (fst doc) (failed_job now outcome (jb_machineId (snd doc)))) s2
           in case outcome of
                Exhausted _ _ \<Rightarrow> s3
              | Retry _ _ _ \<Rightarrow> s3\<lparr>rn_requeued := rn_requeued s3 + 1\<rparr>)"

definition finish_command :: "int \<Rightarrow> job \<Rightarrow> nat \<times> command \<Rightarrow> db \<Rightarrow> db" where
  "finish_command now job c d =
     snd (enqueueRunnerDeletion now (snd c) (Some job)
       (if cm_status (snd c) \<noteq> CmdFinished
        then patch_command (fst c) (\<lambda>c. c\<lparr>cm_status := CmdFinished\<rparr>) d else d))"

definition recon_running :: "int \<Rightarrow> recon_load \<Rightarrow> nat \<times> job \<Rightarrow> recon \<Rightarrow> recon" where
  "recon_running now ld doc s =
     (let machine = machine_of ld (jb_machineId (snd doc))
      in if \<not> silent_for RUNNING_ABANDONED_MS now machine then s
         else
           let s1 = recon_write (patch_job (fst doc) (\<lambda>j. j\<lparr>jb_status := JobFailed,
                      jb_conclusion := Some ''abandoned'', jb_finishedAt := Some now\<rparr>)) s;
               s2 = recon_write (fold (finish_command now (snd doc)) (commands_of_job ld (fst doc))) s1;
               s3 = recon_release machine s2
           in s3\<lparr>rn_abandoned := rn_abandoned s3 + 1\<rparr>)"

definition recon_queued :: "int \<Rightarrow> nat \<times> job \<Rightarrow> recon \<Rightarrow> recon" where
  "recon_queued now doc s =
     (if now - jb_queuedAt (snd doc) \<le> QUEUE_EXPIRED_MS then s
      else (recon_write (patch_job (fst doc) (\<lambda>j. j\<lparr>jb_status := JobFailed, jb_conclusion := Some ''expired'',
              jb_finishedAt := Some now, jb_nextAttemptAt := None\<rparr>)) s)\<lparr>rn_expired := rn_expired s + 1\<rparr>)"


section \<open>Attempts\<close>

definition recon_retiring ::
  "int \<Rightarrow> nat \<times> attempt \<Rightarrow> (nat \<times> machine) option \<Rightarrow> recon \<Rightarrow> recon res" where
  "recon_retiring now doc machine s =
     (let (kept, d1) =
        (case machine of
           None \<Rightarrow> (False, rn_db s)
         | Some (_, row) \<Rightarrow>
             if workerReports row now then keepForReturningWorker doc (rn_db s) else (False, rn_db s))
      in if kept then Inr (s\<lparr>rn_db := d1\<rparr>)
         else if retirementBackstopDue d1 (snd doc) (map_option snd machine) now
         then res_bind (finishRetirement now doc True d1) (\<lambda>d2.
           Inr (s\<lparr>rn_db := d2, rn_abandoned := rn_abandoned s + 1,
                  rn_machineSlots :=
                    (case machine of
                       None \<Rightarrow> rn_machineSlots s
                     | Some (m, _) \<Rightarrow>
                         (case db_get (d_machines d2) m of
                            None \<Rightarrow> rn_machineSlots s
                          | Some current \<Rightarrow> (rn_machineSlots s)(m \<mapsto> mc_usedSlots current)))\<rparr>))
         else Inr (s\<lparr>rn_db := d1\<rparr>))"

definition attempt_stuck :: "int \<Rightarrow> attempt \<Rightarrow> bool" where
  "attempt_stuck now a \<longleftrightarrow> (at_state a = APreparing \<or> at_state a = AReady) \<and>
     now - or_else (at_claimedAt a) (at_createdAt a) > ASSIGNMENT_STUCK_MS"

definition recon_attempt :: "int \<Rightarrow> recon_load \<Rightarrow> nat \<times> attempt \<Rightarrow> recon \<Rightarrow> recon res" where
  "recon_attempt now ld doc s =
     (case doc of (i, attempt) \<Rightarrow>
        if at_machineId attempt = None
        then
          if now - at_createdAt attempt > QUEUE_EXPIRED_MS
          then res_bind (deleteAttemptSecret i (rn_db s)) (\<lambda>d1.
            Inr (s\<lparr>rn_db := patch_attempt i (\<lambda>a. a\<lparr>at_state := ACancelled, at_jitConfig := None,
                      at_cancelReason := Some ''No compatible Worker became ready within 24 hours'',
                      at_finishedAt := Some now, at_runnerCleanupPending := Some True\<rparr>) d1,
                    rn_expired := rn_expired s + 1\<rparr>))
          else Inr s
        else
          let machine = machine_of ld (at_machineId attempt) in
          if at_state attempt = APending \<and> silent_for WORKER_OFFLINE_AFTER_MS now machine
          then Inr ((recon_write (patch_attempt i (\<lambda>a. a\<lparr>at_machineId := None\<rparr>)) s)\<lparr>rn_requeued := rn_requeued s + 1\<rparr>)
          else if at_retirement attempt \<noteq> None then recon_retiring now doc machine s
          else
            let stuckPreparing = attempt_stuck now attempt;
                abandonedRunning = (at_state attempt = ARunning \<and> silent_for RUNNING_ABANDONED_MS now machine)
            in if (at_state attempt = APreparing \<or> at_state attempt = AReady) \<and>
                    silent_for WORKER_OFFLINE_AFTER_MS now machine \<or> stuckPreparing \<or> abandonedRunning
               then res_bind (retireAttempt now doc RetireFailed
                   (if abandonedRunning then ''Worker stopped reporting during the GitHub job''
                    else if stuckPreparing then ''Executor did not become usable within 45 minutes''
                    else ''Worker stopped reporting while preparing the runner'') (rn_db s)) (\<lambda>(_, d1).
                 Inr (s\<lparr>rn_db := d1, rn_abandoned := rn_abandoned s + 1\<rparr>))
               else Inr s)"

section \<open>Experiments\<close>

definition recon_experiment :: "int \<Rightarrow> recon_load \<Rightarrow> nat \<times> experiment_row \<Rightarrow> recon \<Rightarrow> recon" where
  "recon_experiment now ld doc s =
     (case doc of (i, experiment) \<Rightarrow>
        if ex_machineId experiment = None
        then
          if now - ex_createdAt experiment > QUEUE_EXPIRED_MS
          then (recon_write (patch_experiment i (\<lambda>e. e\<lparr>ex_state := EFailed, ex_finishedAt := Some now,
                  ex_lastError := Some ''No compatible Worker became ready within 24 hours''\<rparr>)) s)
                 \<lparr>rn_expired := rn_expired s + 1\<rparr>
          else s
        else
          let machine = machine_of ld (ex_machineId experiment) in
          if ex_state experiment = EQueued \<and> silent_for WORKER_OFFLINE_AFTER_MS now machine
          then (recon_write (patch_experiment i (\<lambda>e. e\<lparr>ex_machineId := None\<rparr>)) s)\<lparr>rn_requeued := rn_requeued s + 1\<rparr>
          else
            let stuckPreparing = (ex_state experiment = EPreparing \<and>
                  now - or_else (ex_claimedAt experiment) (ex_createdAt experiment) > ASSIGNMENT_STUCK_MS);
                exceededDeadline = (ex_state experiment = ERunning \<and>
                  now - or_else (ex_startedAt experiment) (or_else (ex_claimedAt experiment) (ex_createdAt experiment))
                    > ex_timeoutSeconds experiment * 1000 + 5 * 60000);
                abandonedRunning = (ex_state experiment = ERunning \<and> silent_for RUNNING_ABANDONED_MS now machine)
            in if ex_state experiment = EPreparing \<and> silent_for WORKER_OFFLINE_AFTER_MS now machine \<or>
                  stuckPreparing \<or> exceededDeadline \<or> abandonedRunning
               then (recon_write (patch_experiment i (\<lambda>e. e\<lparr>ex_state := EFailed, ex_finishedAt := Some now,
                       ex_lastError := Some
                         (if exceededDeadline then ''Experiment exceeded its timeout without exiting''
                          else if abandonedRunning then ''Worker stopped reporting during the Experiment''
                          else if stuckPreparing then ''Experiment executor did not start within 45 minutes''
                          else ''Worker stopped reporting while preparing the Experiment'')\<rparr>)) s)
                      \<lparr>rn_abandoned := rn_abandoned s + 1\<rparr>
               else s)"

section \<open>Retention\<close>

definition delete_tokens :: "int \<Rightarrow> db \<Rightarrow> db" where
  "delete_tokens now d =
     (let expired = take 200 (sort_key (\<lambda>x. rk_createdAt (snd x))
            (db_query (\<lambda>t. rk_createdAt t \<le> now - REGISTRATION_TOKEN_RETENTION_MS) (d_registrationTokens d)));
          used = take 200 (sort_key (\<lambda>x. or_else (rk_usedAt (snd x)) 0)
            (db_query (\<lambda>t. case rk_usedAt t of None \<Rightarrow> False | Some u \<Rightarrow> u > 0) (d_registrationTokens d)))
      in d\<lparr>d_registrationTokens := fold (\<lambda>i t. db_delete t i) (js_unique (map fst (expired @ used))) (d_registrationTokens d)\<rparr>)"

text \<open>The oldest \<open>limit\<close> rows of a range, and the deletion of those of them that are due.\<close>

definition delete_due :: "nat \<Rightarrow> ('r \<Rightarrow> int) \<Rightarrow> ('r \<Rightarrow> bool) \<Rightarrow> ('r \<Rightarrow> bool) \<Rightarrow> 'r docs \<Rightarrow> 'r docs" where
  "delete_due limit key sel due t =
     fold (\<lambda>x t. if due (snd x) then db_delete t (fst x) else t)
       (take limit (sort_key (\<lambda>x. key (snd x)) (db_query sel t))) t"

definition delete_deliveries :: "int \<Rightarrow> db \<Rightarrow> db" where
  "delete_deliveries now d =
     d\<lparr>d_webhookDeliveries :=
        fold (\<lambda>status. delete_due 200 wd_receivedAt
            (\<lambda>r. wd_status r = status \<and> wd_receivedAt r \<le> now - DELIVERY_RETENTION_MS)
            (\<lambda>r. now - or_else (wd_settledAt r) (wd_receivedAt r) \<ge> DELIVERY_RETENTION_MS))
          [DlvProcessed, DlvRejected, DlvFailed] (d_webhookDeliveries d)\<rparr>"

definition delete_recoveries :: "int \<Rightarrow> db \<Rightarrow> db" where
  "delete_recoveries now d =
     d\<lparr>d_webhookRecovery :=
        fold (\<lambda>state. delete_due 200 wy_lastRequestedAt
            (\<lambda>r. wy_state r = state \<and> wy_lastRequestedAt r \<le> now - RECOVERY_RETENTION_MS)
            (\<lambda>r. now - wy_lastRequestedAt r \<ge> RECOVERY_RETENTION_MS))
          [RecRecovered, RecAbandoned] (d_webhookRecovery d)\<rparr>"

definition delete_jobs :: "int \<Rightarrow> db \<Rightarrow> db" where
  "delete_jobs now d =
     d\<lparr>d_jobs :=
        fold (\<lambda>status. delete_due 100 jb_queuedAt
            (\<lambda>j. jb_status j = status \<and> jb_queuedAt j \<le> now - FINISHED_JOB_RETENTION_MS)
            (\<lambda>j. now - or_else (jb_finishedAt j) (jb_creationTime j) \<ge> FINISHED_JOB_RETENTION_MS))
          [JobDone, JobFailed] (d_jobs d)\<rparr>"

definition deleteAttemptEgress :: "nat \<Rightarrow> db \<Rightarrow> db res" where
  "deleteAttemptEgress attemptId d =
     res_bind (db_unique (db_query (\<lambda>r. ae_attemptId r = attemptId) (d_attemptEgress d))) (\<lambda>record.
       case record of
         None \<Rightarrow> Inr d
       | Some (k, _) \<Rightarrow> Inr (d\<lparr>d_attemptEgress := db_delete (d_attemptEgress d) k\<rparr>))"

definition delete_attempt :: "nat \<Rightarrow> db \<Rightarrow> db" where
  "delete_attempt i d = d\<lparr>d_attempts := db_delete (d_attempts d) i\<rparr>"

definition purge_attempt :: "nat \<times> attempt \<Rightarrow> db \<Rightarrow> db res" where
  "purge_attempt doc d =
     res_bind (deleteAttemptSecret (fst doc) d) (\<lambda>d1.
     res_bind (deleteAttemptEgress (fst doc) d1) (\<lambda>d2. Inr (delete_attempt (fst doc) d2)))"

definition finished_before :: "int \<Rightarrow> int option \<Rightarrow> bool" where
  "finished_before limit finishedAt = (case finishedAt of None \<Rightarrow> False | Some f \<Rightarrow> f > 0 \<and> f \<le> limit)"

definition stale_attempts :: "int \<Rightarrow> attempt_state \<Rightarrow> db \<Rightarrow> attempt docs" where
  "stale_attempts now state d =
     take 100 (sort_key (\<lambda>x. or_else (at_finishedAt (snd x)) 0)
       (db_query (\<lambda>a. at_state a = state \<and> at_runnerCleanupPending a = None \<and>
          finished_before (now - TERMINAL_WORK_RETENTION_MS) (at_finishedAt a)) (d_attempts d))) @
     filter (\<lambda>x. now - at_createdAt (snd x) \<ge> TERMINAL_WORK_RETENTION_MS)
       (take 100 (db_query (\<lambda>a. at_state a = state \<and> at_runnerCleanupPending a = None \<and> at_finishedAt a = None)
          (d_attempts d)))"

definition purge_attempts :: "int \<Rightarrow> db \<Rightarrow> db res" where
  "purge_attempts now d =
     res_fold (\<lambda>state d. res_fold purge_attempt (stale_attempts now state d) d) TERMINAL_ATTEMPT_STATES d"

definition stale_experiments :: "int \<Rightarrow> experiment_state \<Rightarrow> experiment_row docs \<Rightarrow> experiment_row docs" where
  "stale_experiments now state t =
     take 100 (sort_key (\<lambda>x. or_else (ex_finishedAt (snd x)) 0)
       (db_query (\<lambda>e. ex_state e = state \<and>
          finished_before (now - TERMINAL_WORK_RETENTION_MS) (ex_finishedAt e)) t)) @
     filter (\<lambda>x. now - ex_createdAt (snd x) \<ge> TERMINAL_WORK_RETENTION_MS)
       (take 100 (db_query (\<lambda>e. ex_state e = state \<and> ex_finishedAt e = None) t))"

definition delete_experiments :: "int \<Rightarrow> db \<Rightarrow> db" where
  "delete_experiments now d =
     d\<lparr>d_experiments :=
        fold (\<lambda>state t. fold (\<lambda>x t. db_delete t (fst x)) (stale_experiments now state t) t)
          TERMINAL_EXPERIMENT_STATES (d_experiments d)\<rparr>"

definition retention :: "int \<Rightarrow> db \<Rightarrow> db res" where
  "retention now d =
     res_bind (purge_attempts now (delete_jobs now (delete_recoveries now (delete_deliveries now (delete_tokens now d)))))
       (\<lambda>d1. Inr (delete_experiments now d1))"

section \<open>Slots and the run\<close>

definition count_machine :: "nat option \<Rightarrow> (nat \<Rightarrow> int option) \<Rightarrow> nat \<Rightarrow> int option" where
  "count_machine machineId expected =
     (case machineId of None \<Rightarrow> expected | Some m \<Rightarrow> expected(m \<mapsto> or_else (expected m) 0 + 1))"

definition expectedByMachine :: "db \<Rightarrow> nat \<Rightarrow> int option" where
  "expectedByMachine d =
     fold (\<lambda>x. count_machine (ex_machineId (snd x))) (active_experiments d)
       (fold (\<lambda>x. count_machine (at_machineId (snd x))) (active_attempts d)
         (fold (\<lambda>x. count_machine (jb_machineId (snd x)))
           (ranges (\<lambda>s j. jb_status j = s) [JobAssigned, JobRunning] (d_jobs d)) (\<lambda>_. None)))"

definition repair_machine ::
  "(nat \<Rightarrow> int option) \<Rightarrow> nat \<times> machine \<Rightarrow> int \<times> (nat \<Rightarrow> int option) \<times> db \<Rightarrow> int \<times> (nat \<Rightarrow> int option) \<times> db" where
  "repair_machine expected machine state =
     (case (machine, state) of
        ((m, row), (repaired, slots, d)) \<Rightarrow>
          let expectedSlots = or_else (expected m) 0;
              currentSlots = or_else (slots m) (mc_usedSlots row)
          in if currentSlots = expectedSlots then (repaired, slots, d)
             else (repaired + 1, slots(m \<mapsto> expectedSlots),
                   patch_machine m (\<lambda>r. r\<lparr>mc_usedSlots := expectedSlots\<rparr>) d))"

record recon_result =
  rz_requeued :: int
  rz_abandoned :: int
  rz_expired :: int
  rz_slotsRepaired :: int
  rz_deliveriesRetried :: int

definition recon_start :: "recon_load \<Rightarrow> db \<Rightarrow> recon" where
  "recon_start ld d =
     \<lparr>rn_requeued = 0, rn_abandoned = 0, rn_expired = 0,
      rn_machineSlots = (\<lambda>m. map_option mc_usedSlots (map_of (ld_machines ld) m)),
      rn_db = fold (\<lambda>c. delete_command (fst c)) (ld_finishedCommands ld) d\<rparr>"

definition recon_work :: "int \<Rightarrow> recon_load \<Rightarrow> recon \<Rightarrow> recon res" where
  "recon_work now ld s =
     res_bind (res_fold (recon_attempt now ld) (ld_attempts ld)
         (fold (recon_queued now) (ld_queuedJobs ld)
           (fold (recon_running now ld) (ld_runningJobs ld)
             (fold (recon_assigned now ld) (ld_assignedJobs ld) s)))) (\<lambda>s1.
       Inr (fold (recon_experiment now ld) (ld_experiments ld) s1))"

definition recon_finish :: "recon \<Rightarrow> int \<Rightarrow> db \<Rightarrow> db" where
  "recon_finish s slotsRepaired d =
     (let d1 = (if rn_requeued s > 0 \<or> rn_abandoned s > 0 \<or> rn_expired s > 0 \<or> slotsRepaired > 0
                then runAfter AttemptTryAssign (runAfter (LegacyTryAssign 0) d) else d)
      in if length (take 1 (d_runnerDeletions d1)) > 0 then runAfter DrainRunnerDeletions d1 else d1)"

definition reconcile_run :: "int \<Rightarrow> db \<Rightarrow> (recon_result \<times> db) res" where
  "reconcile_run now d =
     (let ld = recon_read d in
      res_bind (recon_work now ld (recon_start ld d)) (\<lambda>s.
      res_bind (retention now (rn_db s)) (\<lambda>d1.
        let (slotsRepaired, _, d2) =
              fold (repair_machine (expectedByMachine d1)) (ld_machines ld) (0, rn_machineSlots s, d1);
            ((retried, _), d3) = retryStalledDeliveries now d2
        in Inr (\<lparr>rz_requeued = rn_requeued s, rz_abandoned = rn_abandoned s, rz_expired = rn_expired s,
                 rz_slotsRepaired = slotsRepaired, rz_deliveriesRetried = retried\<rparr>,
                recon_finish s slotsRepaired d3))))"


section \<open>What every write of a run keeps\<close>

text \<open>
  \<open>repairs d e\<close> relates the state a run found to a state it goes through: the invariant holds apart
  from the slot accounting, Workers differ in their used slots only, and no Worker has work that had
  none before.
\<close>

definition egress_ok :: "db \<Rightarrow> bool" where
  "egress_ok d \<longleftrightarrow> db_wf (d_attemptEgress d) \<and> distinct (map (\<lambda>x. ae_attemptId (snd x)) (d_attemptEgress d))"

definition placed :: "nat \<Rightarrow> db \<Rightarrow> bool" where
  "placed m d \<longleftrightarrow> (\<exists>x \<in> set (d_attempts d). attempt_on m (snd x)) \<or>
     (\<exists>x \<in> set (d_experiments d). experiment_on m (snd x)) \<or> (\<exists>x \<in> set (d_jobs d). job_on m (snd x))"

definition repairs :: "db \<Rightarrow> db \<Rightarrow> bool" where
  "repairs d e \<longleftrightarrow> core_ok e \<and> egress_ok e \<and> used_slots_nonneg e \<and>
     map host_of (d_machines e) = map host_of (d_machines d) \<and> (\<forall>m. placed m e \<longrightarrow> placed m d)"

lemmas core_ok_parts =
  core_ok_def db_ok_def attempts_ok_def names_ok_def secrets_ok_def secret_live_def profiles_ok_def fresh_ok_split

lemma work_on_rows:
  "db_ok d \<Longrightarrow> work_on m d = int (length (db_query (attempt_on m) (d_attempts d))) +
     int (length (db_query (experiment_on m) (d_experiments d))) + int (length (db_query (job_on m) (d_jobs d)))"
  by (simp add: work_on_def count_docs_filter db_ok_def)

lemma work_on_unplaced:
  assumes "db_ok d" "\<not> placed m d"
  shows "work_on m d = 0"
proof -
  have "db_query (attempt_on m) (d_attempts d) = []" "db_query (experiment_on m) (d_experiments d) = []"
    "db_query (job_on m) (d_jobs d) = []"
    using assms(2) by (auto simp: placed_def db_query_def filter_empty_conv)
  then show ?thesis by (simp add: work_on_rows [OF assms(1)])
qed

lemma repairs_frame:
  assumes "repairs d e" "d_machines e' = d_machines e" "d_attempts e' = d_attempts e"
    "d_experiments e' = d_experiments e" "d_jobs e' = d_jobs e" "d_attemptSecrets e' = d_attemptSecrets e"
    "d_profiles e' = d_profiles e" "d_attemptEgress e' = d_attemptEgress e" "d_nextId e \<le> d_nextId e'"
  shows "repairs d e'"
  using assms
  by (auto simp: repairs_def core_ok_parts egress_ok_def used_slots_nonneg_def placed_def intro: ids_below_mono)

lemma repairs_jobs:
  assumes "repairs d e" "d_machines e' = d_machines e" "d_attempts e' = d_attempts e"
    "d_experiments e' = d_experiments e" "d_attemptSecrets e' = d_attemptSecrets e"
    "d_profiles e' = d_profiles e" "d_attemptEgress e' = d_attemptEgress e" "d_nextId e' = d_nextId e"
    and "db_wf (d_jobs e')" "set (db_ids (d_jobs e')) \<subseteq> set (db_ids (d_jobs e))"
    and "\<And>m x. x \<in> set (d_jobs e') \<Longrightarrow> job_on m (snd x) \<Longrightarrow> \<exists>y \<in> set (d_jobs e). job_on m (snd y)"
  shows "repairs d e'"
proof -
  have "placed m e" if "placed m e'" for m using that assms(3,4,11) unfolding placed_def by metis
  moreover have "ids_below (d_nextId e) (d_jobs e')" using assms(1,10) by (auto simp: repairs_def core_ok_parts ids_below_def)
  ultimately show ?thesis
    using assms(1-9) by (simp add: repairs_def core_ok_parts egress_ok_def used_slots_nonneg_def)
qed

lemma repairs_experiments:
  assumes "repairs d e" "d_machines e' = d_machines e" "d_attempts e' = d_attempts e"
    "d_jobs e' = d_jobs e" "d_attemptSecrets e' = d_attemptSecrets e"
    "d_profiles e' = d_profiles e" "d_attemptEgress e' = d_attemptEgress e" "d_nextId e' = d_nextId e"
    and "db_wf (d_experiments e')" "set (db_ids (d_experiments e')) \<subseteq> set (db_ids (d_experiments e))"
    and "\<And>m x. x \<in> set (d_experiments e') \<Longrightarrow> experiment_on m (snd x) \<Longrightarrow> \<exists>y \<in> set (d_experiments e). experiment_on m (snd y)"
  shows "repairs d e'"
proof -
  have "placed m e" if "placed m e'" for m using that assms(3,4,11) unfolding placed_def by metis
  moreover have "ids_below (d_nextId e) (d_experiments e')" using assms(1,10) by (auto simp: repairs_def core_ok_parts ids_below_def)
  ultimately show ?thesis
    using assms(1-9) by (simp add: repairs_def core_ok_parts egress_ok_def used_slots_nonneg_def)
qed

lemma repairs_attempts:
  assumes "repairs d e" "d_machines e' = d_machines e" "d_experiments e' = d_experiments e"
    "d_jobs e' = d_jobs e" "d_profiles e' = d_profiles e" "d_nextId e' = d_nextId e" "egress_ok e'"
    and "db_wf (d_attempts e')" "set (db_ids (d_attempts e')) \<subseteq> set (db_ids (d_attempts e))"
    and "db_wf (d_attemptSecrets e')" "set (db_ids (d_attemptSecrets e')) \<subseteq> set (db_ids (d_attemptSecrets e))"
    and "attempts_ok e'" "names_ok e'" "secrets_ok e'"
    and "\<And>m x. x \<in> set (d_attempts e') \<Longrightarrow> attempt_on m (snd x) \<Longrightarrow> \<exists>y \<in> set (d_attempts e). attempt_on m (snd y)"
  shows "repairs d e'"
proof -
  have "placed m e" if "placed m e'" for m using that assms(3,4,15) unfolding placed_def by metis
  moreover have "ids_below (d_nextId e) (d_attempts e')" "ids_below (d_nextId e) (d_attemptSecrets e')"
    using assms(1,9,11) by (auto simp: repairs_def core_ok_parts ids_below_def)
  ultimately show ?thesis
    using assms(1-8,10,12-14)
    by (simp add: repairs_def core_ok_def db_ok_def fresh_ok_split profiles_ok_def used_slots_nonneg_def)
qed

lemma repairs_used_slots:
  assumes "repairs d e" "0 \<le> n"
  shows "repairs d (patch_machine m (\<lambda>r. r\<lparr>mc_usedSlots := n\<rparr>) e)"
proof -
  have "used_slots_nonneg (patch_machine m (\<lambda>r. r\<lparr>mc_usedSlots := n\<rparr>) e)"
    using assms by (intro used_slots_patch) (simp_all add: repairs_def)
  then show ?thesis
    using assms by (simp add: repairs_def core_ok_parts egress_ok_def placed_def map_host_of_patch)
qed

lemma patched_row:
  assumes "x \<in> set (db_patch t i f)" "P (snd x)" "\<And>r. P (f r) \<Longrightarrow> P r"
  shows "\<exists>y \<in> set t. P (snd y)"
proof -
  obtain k r where r: "(k, r) \<in> set t" "x = (k, if k = i then f r else r)"
    using assms(1) by (auto simp: db_patch_def)
  then have "P r" using assms(2,3) by (cases "k = i") auto
  then show ?thesis using r(1) by force
qed

lemma repairs_patch_job:
  assumes "repairs d e" "\<And>m j. job_on m (f j) \<Longrightarrow> job_on m j"
  shows "repairs d (patch_job i f e)"
proof (rule repairs_jobs [OF assms(1)])
  fix m x assume "x \<in> set (d_jobs (patch_job i f e))" "job_on m (snd x)"
  then show "\<exists>y \<in> set (d_jobs e). job_on m (snd y)"
    using patched_row [of x "d_jobs e" i f "job_on m"] assms(2) by simp
qed (use assms(1) in \<open>simp_all add: repairs_def core_ok_parts\<close>)

lemma repairs_patch_experiment:
  assumes "repairs d e" "\<And>m j. experiment_on m (f j) \<Longrightarrow> experiment_on m j"
  shows "repairs d (patch_experiment i f e)"
proof (rule repairs_experiments [OF assms(1)])
  fix m x assume "x \<in> set (d_experiments (patch_experiment i f e))" "experiment_on m (snd x)"
  then show "\<exists>y \<in> set (d_experiments e). experiment_on m (snd y)"
    using patched_row [of x "d_experiments e" i f "experiment_on m"] assms(2) by simp
qed (use assms(1) in \<open>simp_all add: repairs_def core_ok_parts\<close>)

lemma repairs_patch_attempt:
  assumes "repairs d e" "\<And>m a. attempt_on m (f a) \<Longrightarrow> attempt_on m a" "\<And>a. at_runnerName (f a) = at_runnerName a"
    and "\<And>a. db_get (d_attempts e) i = Some a \<Longrightarrow> attempt_ok (f a)"
    and "\<And>a. db_get (d_attempts e) i = Some a \<Longrightarrow> active_attempt_state (at_state (f a)) \<or> no_secret i e"
  shows "repairs d (patch_attempt i f e)"
proof (rule repairs_attempts [OF assms(1)])
  show "attempts_ok (patch_attempt i f e)"
    using assms(1,4) by (intro attempts_ok_patch) (simp_all add: repairs_def core_ok_def db_ok_def)
  show "names_ok (patch_attempt i f e)"
    using assms(1,3) by (intro names_ok_patch) (simp_all add: repairs_def core_ok_def)
  show "secrets_ok (patch_attempt i f e)"
    using assms(1,5) by (intro secrets_ok_patch) (simp_all add: repairs_def core_ok_def)
  fix m x assume "x \<in> set (d_attempts (patch_attempt i f e))" "attempt_on m (snd x)"
  then show "\<exists>y \<in> set (d_attempts e). attempt_on m (snd y)"
    using patched_row [of x "d_attempts e" i f "attempt_on m"] assms(2) by simp
qed (use assms(1) in \<open>simp_all add: repairs_def core_ok_parts egress_ok_def\<close>)

lemma repairs_drop_secret:
  assumes "repairs d e"
  shows "repairs d (drop_secret i e)"
proof -
  have "secrets_ok (drop_secret i e)"
    using assms by (auto simp: repairs_def core_ok_def secrets_ok_def secret_live_def db_query_def list_all_iff
        intro: distinct_map_filter)
  then show ?thesis
    using assms db_ids_query_subset [of "\<lambda>s. as_attemptId s \<noteq> i" "d_attemptSecrets e"]
    by (intro repairs_attempts [OF assms])
       (auto simp: repairs_def core_ok_def db_ok_def attempts_ok_def names_ok_def egress_ok_def db_wf_query drop_secret_def)
qed

lemma repairs_secret:
  assumes "repairs d e"
  shows "deleteAttemptSecret i e = Inr (drop_secret i e)"
  using assms by (intro deleteAttemptSecret_ok) (simp_all add: repairs_def core_ok_def db_ok_def)


section \<open>The map of used slots\<close>

text \<open>
  \<open>machineSlots\<close> mirrors the used slots of every Worker the run loaded, and the run writes no other Worker.
\<close>

definition loaded :: "db \<Rightarrow> nat \<Rightarrow> bool" where
  "loaded d m \<longleftrightarrow> m \<in> set (map fst (recon_machines d))"

definition mirrors :: "db \<Rightarrow> (nat \<Rightarrow> int option) \<Rightarrow> db \<Rightarrow> bool" where
  "mirrors d slots e \<longleftrightarrow> (\<forall>m row. db_get (d_machines e) m = Some row \<longrightarrow>
     (if loaded d m then slots m = Some (mc_usedSlots row) else db_get (d_machines d) m = Some row))"

definition recon_ok :: "db \<Rightarrow> recon \<Rightarrow> bool" where
  "recon_ok d s \<longleftrightarrow> repairs d (rn_db s) \<and> mirrors d (rn_machineSlots s) (rn_db s)"

lemma mirrors_machines: "d_machines e' = d_machines e \<Longrightarrow> mirrors d slots e \<Longrightarrow> mirrors d slots e'"
  by (simp add: mirrors_def)

lemma mirrors_patch:
  assumes "mirrors d slots e" "loaded d m"
  shows "mirrors d (slots(m \<mapsto> n)) (patch_machine m (\<lambda>r. r\<lparr>mc_usedSlots := n\<rparr>) e)"
  using assms by (auto simp: mirrors_def)

lemma recon_write_ok:
  assumes "recon_ok d s" "repairs d (rn_db s) \<Longrightarrow> repairs d (f (rn_db s))"
    "d_machines (f (rn_db s)) = d_machines (rn_db s)"
  shows "recon_ok d (recon_write f s)"
  using assms mirrors_machines by (auto simp: recon_ok_def recon_write_def)

lemma recon_counters [simp]:
  "recon_ok d (s\<lparr>rn_requeued := a\<rparr>) = recon_ok d s" "recon_ok d (s\<lparr>rn_abandoned := b\<rparr>) = recon_ok d s"
  "recon_ok d (s\<lparr>rn_expired := c\<rparr>) = recon_ok d s"
  by (simp_all add: recon_ok_def)

lemma map_filter_fst:
  "map fst (List.map_filter (\<lambda>i. map_option (Pair i) (g i)) is) = filter (\<lambda>i. g i \<noteq> None) is"
  by (induction "is") (auto simp: List.map_filter_simps)

lemma recon_machines_row:
  assumes "db_wf (d_machines d)" "(m, row) \<in> set (recon_machines d)"
  shows "db_get (d_machines d) m = Some row"
  using assms by (auto simp: recon_machines_def Let_def List.map_filter_def db_query_iff simp flip: db_wf_get_iff)

lemma recon_machines_distinct:
  assumes "db_wf (d_machines d)"
  shows "distinct (map fst (recon_machines d))"
proof -
  let ?r = "List.map_filter (\<lambda>i. map_option (Pair i) (db_get (d_machines d) i)) (referencedMachineIds d)"
  let ?w = "sort_key (\<lambda>x. mc_usedSlots (snd x)) (db_query (\<lambda>m. mc_usedSlots m > 0) (d_machines d))"
  have "distinct (map fst ?r)" by (simp add: map_filter_fst referencedMachineIds_def)
  moreover have "distinct (map fst ?w)"
    using query_rows(1) [OF assms, of "\<lambda>m. mc_usedSlots m > 0"] by (simp add: distinct_map)
  moreover have "distinct (map fst (filter (\<lambda>x. fst x \<notin> set (map fst ?r)) ?w))"
    by (rule distinct_map_filter) fact
  ultimately show ?thesis
    unfolding recon_machines_def Let_def map_append distinct_append by (auto simp del: filter_sort) force
qed

lemma machine_of_loaded:
  assumes "machine_of (recon_read d) mid = Some (m, row)"
  shows "mid = Some m" "loaded d m" "(m, row) \<in> set (recon_machines d)"
  using assms by (auto simp: machine_of_def loaded_def recon_read_def split: option.splits dest!: map_of_SomeD intro: rev_image_eqI)

lemma recon_release_ok:
  assumes "recon_ok d s"
  shows "recon_ok d (recon_release (machine_of (recon_read d) mid) s)"
proof (cases "machine_of (recon_read d) mid")
  case (Some x)
  obtain m row where x: "x = (m, row)" by (cases x)
  let ?n = "max 0 (or_else (rn_machineSlots s m) (mc_usedSlots row) - 1)"
  have "repairs d (patch_machine m (\<lambda>r. r\<lparr>mc_usedSlots := ?n\<rparr>) (rn_db s))"
    using assms by (intro repairs_used_slots) (simp_all add: recon_ok_def)
  moreover have "mirrors d ((rn_machineSlots s)(m \<mapsto> ?n)) (patch_machine m (\<lambda>r. r\<lparr>mc_usedSlots := ?n\<rparr>) (rn_db s))"
    using assms machine_of_loaded(2) [OF Some [unfolded x]] by (intro mirrors_patch) (simp_all add: recon_ok_def)
  ultimately show ?thesis by (simp add: recon_release_def Some x Let_def recon_ok_def)
qed (simp add: recon_release_def assms)

section \<open>Jobs are taken off silent Workers\<close>

lemma repairs_other_writes [simp]:
  "repairs d e \<Longrightarrow> repairs d (delete_command i e)" "repairs d e \<Longrightarrow> repairs d (patch_command i f e)"
  "repairs d e \<Longrightarrow> repairs d (insert_deletion r e)" "repairs d e \<Longrightarrow> repairs d (runAfter t e)"
  by (erule repairs_frame; simp add: insert_deletion_def)+

lemma repairs_enqueue [simp]: "repairs d e \<Longrightarrow> repairs d (snd (enqueueRunnerDeletion now c j e))"
  by (simp add: enqueueRunnerDeletion_def split: option.split)

lemma enqueue_machines [simp]: "d_machines (snd (enqueueRunnerDeletion now c j e)) = d_machines e"
  by (simp add: enqueueRunnerDeletion_def split: option.split)

lemma repairs_discard: "repairs d e \<Longrightarrow> repairs d (discard_commands now cs j e)"
  unfolding discard_commands_def by (rule fold_frame [where I = "repairs d"]) (simp_all add: discardCommand_def)

lemma discard_machines [simp]: "d_machines (discard_commands now cs j e) = d_machines e"
  unfolding discard_commands_def
  by (rule fold_frame [where I = "\<lambda>e'. d_machines e' = d_machines e"]) (simp_all add: discardCommand_def)

lemma failed_job_off: "\<not> job_on m (failed_job now outcome mid j)"
  by (cases outcome) (simp_all add: failed_job_def job_on_def)

lemma recon_assigned_ok:
  assumes "recon_ok d s"
  shows "recon_ok d (recon_assigned now (recon_read d) doc s)"
proof -
  let ?ld = "recon_read d"
  let ?machine = "machine_of ?ld (jb_machineId (snd doc))"
  let ?s1 = "recon_write (discard_commands now (commands_of_job ?ld (fst doc)) (Some (snd doc))) s"
  have "recon_ok d ?s1" using assms by (rule recon_write_ok) (simp_all add: repairs_discard)
  then have s2: "recon_ok d (recon_release ?machine ?s1)" by (rule recon_release_ok)
  have "recon_ok d (recon_write (patch_job (fst doc) (failed_job now outcome (jb_machineId (snd doc)))) (recon_release ?machine ?s1))"
    for outcome
    using s2 by (rule recon_write_ok) (auto simp: failed_job_off intro!: repairs_patch_job)
  then show ?thesis using assms by (simp add: recon_assigned_def Let_def split: attempt_outcome.split)
qed

lemma finish_commands_ok:
  "repairs d e \<Longrightarrow> repairs d (fold (finish_command now job) cs e)"
  "d_machines (fold (finish_command now job) cs e) = d_machines e"
proof -
  show "repairs d e \<Longrightarrow> repairs d (fold (finish_command now job) cs e)"
    by (rule fold_frame [where I = "repairs d"]) (simp_all add: finish_command_def)
  show "d_machines (fold (finish_command now job) cs e) = d_machines e"
    by (rule fold_frame [where I = "\<lambda>e'. d_machines e' = d_machines e"]) (simp_all add: finish_command_def)
qed

lemma recon_running_ok:
  assumes "recon_ok d s"
  shows "recon_ok d (recon_running now (recon_read d) doc s)"
proof -
  let ?f = "\<lambda>j. j\<lparr>jb_status := JobFailed, jb_conclusion := Some ''abandoned'', jb_finishedAt := Some now\<rparr>"
  let ?s1 = "recon_write (patch_job (fst doc) ?f) s"
  let ?s2 = "recon_write (fold (finish_command now (snd doc)) (commands_of_job (recon_read d) (fst doc))) ?s1"
  have "recon_ok d ?s1"
    using assms by (rule recon_write_ok) (auto simp: job_on_def intro!: repairs_patch_job)
  then have "recon_ok d ?s2"
    by (rule recon_write_ok) (simp_all add: finish_commands_ok)
  then have "recon_ok d (recon_release (machine_of (recon_read d) (jb_machineId (snd doc))) ?s2)"
    by (rule recon_release_ok)
  then show ?thesis using assms by (simp add: recon_running_def Let_def)
qed

lemma recon_queued_ok:
  assumes "recon_ok d s"
  shows "recon_ok d (recon_queued now doc s)"
proof -
  let ?f = "\<lambda>j. j\<lparr>jb_status := JobFailed, jb_conclusion := Some ''expired'', jb_finishedAt := Some now, jb_nextAttemptAt := None\<rparr>"
  have "recon_ok d (recon_write (patch_job (fst doc) ?f) s)"
    using assms by (rule recon_write_ok) (auto simp: job_on_def intro!: repairs_patch_job)
  then show ?thesis using assms by (simp add: recon_queued_def)
qed


section \<open>Attempts\<close>

lemma active_attempts_iff:
  "x \<in> set (active_attempts d) \<longleftrightarrow> x \<in> set (d_attempts d) \<and> active_attempt_state (at_state (snd x))"
  by (cases "at_state (snd x)") (auto simp: active_attempts_def ranges_def ACTIVE_ATTEMPT_STATES_def db_query_def)

lemma active_experiments_iff:
  "x \<in> set (active_experiments d) \<longleftrightarrow> x \<in> set (d_experiments d) \<and> active_experiment_state (ex_state (snd x))"
  by (cases "ex_state (snd x)") (auto simp: active_experiments_def ranges_def ACTIVE_EXPERIMENT_STATES_def db_query_def)

lemma set_map_filter_id: "m \<in> set (List.map_filter id xs) \<longleftrightarrow> Some m \<in> set xs"
  by (induction xs) (auto simp: List.map_filter_simps split: option.splits)

lemma placed_referenced:
  assumes "placed m d"
  shows "m \<in> set (referencedMachineIds d)"
proof -
  have "Some m \<in> (\<lambda>x. jb_machineId (snd x)) ` (set (jobs_with JobAssigned d) \<union> set (jobs_with JobRunning d)) \<or>
      Some m \<in> (\<lambda>x. at_machineId (snd x)) ` set (active_attempts d) \<or>
      Some m \<in> (\<lambda>x. ex_machineId (snd x)) ` set (active_experiments d)"
    using assms unfolding placed_def
  proof (elim disjE bexE, goal_cases)
    case (1 x)
    then show ?thesis by (intro disjI2 disjI1 image_eqI [of _ _ x]) (auto simp: attempt_on_def active_attempts_iff)
  next
    case (2 x)
    then show ?thesis by (intro disjI2 image_eqI [of _ _ x]) (auto simp: experiment_on_def active_experiments_iff)
  next
    case (3 x)
    then have "x \<in> set (jobs_with JobAssigned d) \<union> set (jobs_with JobRunning d)"
      by (cases "jb_status (snd x)") (auto simp: job_on_def jobs_with_def db_query_def)
    then show ?thesis using 3 by (intro disjI1 image_eqI [of _ _ x]) (auto simp: job_on_def)
  qed
  then show ?thesis by (auto simp: referencedMachineIds_def set_map_filter_id)
qed

lemma referenced_loaded:
  assumes "m \<in> set (referencedMachineIds d)" "db_get (d_machines d) m = Some row"
  shows "loaded d m"
  using assms by (auto simp: loaded_def recon_machines_def Let_def map_filter_fst simp flip: set_map)

lemma placed_loaded: "placed m d \<Longrightarrow> db_get (d_machines d) m = Some row \<Longrightarrow> loaded d m"
  by (blast intro: referenced_loaded placed_referenced)

lemma repairs_release: "repairs d e \<Longrightarrow> repairs d (releaseMachineSlot mid e)"
  by (auto simp: releaseMachineSlot_def repairs_used_slots split: option.split)

lemma repairs_machine_None:
  assumes "repairs d e" "db_get (d_machines d) m = None"
  shows "db_get (d_machines e) m = None"
proof -
  have "db_ids (d_machines e) = db_ids (d_machines d)"
    by (rule map_host_of_ids) (use assms(1) in \<open>simp add: repairs_def\<close>)
  then show ?thesis using assms(2) by (simp add: db_get_def map_of_eq_None_iff db_ids_def flip: set_map)
qed

lemma map_of_loaded:
  assumes "loaded d m"
  shows "\<exists>row. machine_of (recon_read d) (Some m) = Some (m, row)"
proof -
  obtain row where "(m, row) \<in> set (recon_machines d)" using assms by (auto simp: loaded_def)
  then have "\<exists>r. map_of (recon_machines d) m = Some r" by (rule weak_map_of_SomeI)
  then show ?thesis by (auto simp: machine_of_def recon_read_def)
qed

text \<open>A retirement that ends gives the slot back, in the map as in the table.\<close>

lemma finish_mirrors:
  assumes s: "mirrors d slots e" "repairs d e" and m: "at_machineId a = Some m" "placed m d"
    and e': "d_machines e' = d_machines (releaseAttemptSlot a e)"
  shows "mirrors d (case machine_of (recon_read d) (Some m) of
      None \<Rightarrow> slots
    | Some (m, _) \<Rightarrow>
        (case db_get (d_machines e') m of
           None \<Rightarrow> slots | Some current \<Rightarrow> slots(m \<mapsto> mc_usedSlots current))) e'"
proof (cases "loaded d m")
  case True
  from map_of_loaded [OF this] obtain row where row: "machine_of (recon_read d) (Some m) = Some (m, row)" by blast
  have "mirrors d slots (releaseAttemptSlot a e) \<or> db_get (d_machines e') m \<noteq> None"
    using s(1) by (cases "db_get (d_machines e) m") (simp_all add: e' m releaseAttemptSlot_def get_releaseMachineSlot, simp add: releaseMachineSlot_def)
  moreover have "db_get (d_machines e') k = db_get (d_machines e) k" if "k \<noteq> m" for k
    using that by (simp add: e' m releaseAttemptSlot_def get_releaseMachineSlot)
  ultimately show ?thesis
    using s(1) True by (auto simp: row mirrors_def e' split: option.split)
next
  case False
  then have "db_get (d_machines d) m = None" using placed_loaded [OF m(2)] by (cases "db_get (d_machines d) m") auto
  then have "db_get (d_machines e) m = None" by (rule repairs_machine_None [OF s(2)])
  then have "d_machines e' = d_machines e" by (simp add: e' m releaseAttemptSlot_def releaseMachineSlot_def)
  moreover have "machine_of (recon_read d) (Some m) = None"
    using False machine_of_loaded [of d "Some m"] by (cases "machine_of (recon_read d) (Some m)") auto
  ultimately show ?thesis using s(1) by (simp add: mirrors_def)
qed

lemma repairs_end_attempt:
  assumes "repairs d e" "\<And>m a. \<not> attempt_on m (f a)" "\<And>a. at_runnerName (f a) = at_runnerName a"
    and "\<And>a. db_get (d_attempts e) i = Some a \<Longrightarrow> attempt_ok (f a)"
  shows "repairs d (patch_attempt i f (drop_secret i e))"
  by (rule repairs_patch_attempt [OF repairs_drop_secret [OF assms(1)]]) (use assms(2-4) in auto)


text \<open>One Attempt: it throws nothing, keeps the run's invariant and touches its own row only.\<close>

definition attempt_step :: "db \<Rightarrow> nat \<Rightarrow> recon \<Rightarrow> recon \<Rightarrow> bool" where
  "attempt_step d i s s' \<longleftrightarrow> recon_ok d s' \<and>
     (\<forall>j. j \<noteq> i \<longrightarrow> db_get (d_attempts (rn_db s')) j = db_get (d_attempts (rn_db s)) j)"

lemma attempt_step_refl: "recon_ok d s \<Longrightarrow> attempt_step d i s s"
  by (simp add: attempt_step_def)

lemma recon_retiring_step:
  assumes ok: "recon_ok d s" and row: "db_get (d_attempts (rn_db s)) i = Some a"
    and a: "at_machineId a = Some m" "placed m d" "at_retirement a = Some r"
  shows "\<exists>s'. recon_retiring now (i, a) (machine_of (recon_read d) (Some m)) s = Inr s' \<and> attempt_step d i s s'"
proof -
  let ?machine = "machine_of (recon_read d) (Some m)"
  note rep = ok [unfolded recon_ok_def, THEN conjunct1] and mir = ok [unfolded recon_ok_def, THEN conjunct2]
  have aok: "attempt_ok a" using rep row by (auto simp: repairs_def core_ok_def intro: attempts_okD)
  obtain kept d1 where k: "(case ?machine of None \<Rightarrow> (False, rn_db s)
      | Some (_, row) \<Rightarrow> if workerReports row now then keepForReturningWorker (i, a) (rn_db s) else (False, rn_db s)) = (kept, d1)"
    by fastforce
  have cases: "(kept \<and> d1 = patch_attempt i (\<lambda>a. a\<lparr>at_retirement := None, at_runnerCleanupPending := None\<rparr>) (rn_db s)) \<or>
      (\<not> kept \<and> d1 = rn_db s)"
    using k by (auto simp: keepForReturningWorker_def split: option.splits if_splits)
  show ?thesis
  proof (cases kept)
    case True
    let ?f = "\<lambda>a. a\<lparr>at_retirement := None, at_runnerCleanupPending := None\<rparr>"
    have "repairs d (patch_attempt i ?f (rn_db s))"
      using aok row
      by (intro repairs_patch_attempt [OF rep])
         (auto simp: attempt_on_def attempt_ok_def a runnerMayBeOnline_active)
    then show ?thesis
      using True cases mir mirrors_machines [of "patch_attempt i ?f (rn_db s)" "rn_db s" d]
      by (simp add: recon_retiring_def k attempt_step_def recon_ok_def)
  next
    case False
    then have d1: "d1 = rn_db s" using cases by blast
    show ?thesis
    proof (cases "retirementBackstopDue d1 a (map_option snd ?machine) now")
      case True
      let ?e = "releaseAttemptSlot a (rn_db s)"
      have rel: "repairs d ?e" unfolding releaseAttemptSlot_def by (rule repairs_release [OF rep])
      let ?reason = "rt_reason r @ '' (no controller confirmed the Runner was deleted within 6 hours)''"
      let ?f = "\<lambda>a. let b = a\<lparr>at_state := outcome_state (rt_outcome r), at_jitConfig := None, at_finishedAt := Some now,
          at_runnerCleanupPending := Some True, at_retirement := None\<rparr>
        in case rt_outcome r of RetireCancelled \<Rightarrow> b\<lparr>at_cancelReason := Some (take 500 ?reason)\<rparr>
           | RetireFailed \<Rightarrow> b\<lparr>at_lastError := Some (take 500 ?reason)\<rparr>"
      have "finishRetirement now (i, a) True d1 = Inr (patch_attempt i ?f (drop_secret i ?e))"
        by (simp add: finishRetirement_def a d1 repairs_secret [OF rel] Let_def)
      moreover have "repairs d (patch_attempt i ?f (drop_secret i ?e))"
        by (rule repairs_end_attempt [OF rel])
           (auto simp: attempt_on_def attempt_ok_def Let_def split: retirement_outcome.splits)
      ultimately have "\<exists>f. finishRetirement now (i, a) True d1 = Inr (patch_attempt i f (drop_secret i ?e)) \<and>
          repairs d (patch_attempt i f (drop_secret i ?e))" by blast
      then obtain f where f: "finishRetirement now (i, a) True d1 = Inr (patch_attempt i f (drop_secret i ?e))"
          "repairs d (patch_attempt i f (drop_secret i ?e))" by blast
      show ?thesis
        using False True f finish_mirrors [OF mir rep a(1,2), of "patch_attempt i f (drop_secret i ?e)"]
        by (simp add: recon_retiring_def k attempt_step_def recon_ok_def) (simp add: releaseAttemptSlot_def)
    next
      case F: False
      then show ?thesis using False d1 ok by (simp add: recon_retiring_def k attempt_step_refl)
    qed
  qed
qed

lemma recon_retire_step:
  assumes ok: "recon_ok d s" and row: "db_get (d_attempts (rn_db s)) i = Some a"
    and a: "runnerMayBeOnline (at_state a)" "at_machineId a = Some m" "at_retirement a = None"
  shows "\<exists>x d1. retireAttempt now (i, a) outcome reason (rn_db s) = Inr (x, d1) \<and>
    attempt_step d i s (s\<lparr>rn_db := d1, rn_abandoned := n\<rparr>)"
proof -
  note rep = ok [unfolded recon_ok_def, THEN conjunct1] and mir = ok [unfolded recon_ok_def, THEN conjunct2]
  have aok: "attempt_ok a" using rep row by (auto simp: repairs_def core_ok_def intro: attempts_okD)
  let ?f = "\<lambda>a. a\<lparr>at_jitConfig := None, at_runnerCleanupPending := Some True,
    at_retirement := Some \<lparr>rt_outcome = outcome, rt_reason = take 500 reason, rt_requestedAt = now\<rparr>\<rparr>"
  have "retireAttempt now (i, a) outcome reason (rn_db s) = Inr (True, patch_attempt i ?f (drop_secret i (rn_db s)))"
    using a by (simp add: retireAttempt_def repairs_secret [OF rep])
  moreover have "repairs d (patch_attempt i ?f (drop_secret i (rn_db s)))"
    using aok a row
    by (intro repairs_patch_attempt [OF repairs_drop_secret [OF rep]])
       (auto simp: attempt_on_def attempt_ok_def runnerMayBeOnline_active)
  moreover have "mirrors d (rn_machineSlots s) (patch_attempt i ?f (drop_secret i (rn_db s)))"
    using mir by (rule mirrors_machines [rotated]) simp
  ultimately show ?thesis by (auto simp: attempt_step_def recon_ok_def)
qed


lemma recon_attempt_step:
  assumes ok: "recon_ok d s" and row: "db_get (d_attempts (rn_db s)) i = Some a"
    and active: "(i, a) \<in> set (active_attempts d)"
  shows "\<exists>s'. recon_attempt now (recon_read d) (i, a) s = Inr s' \<and> attempt_step d i s s'"
proof -
  note rep = ok [unfolded recon_ok_def, THEN conjunct1] and mir = ok [unfolded recon_ok_def, THEN conjunct2]
  have aok: "attempt_ok a" using rep row by (auto simp: repairs_def core_ok_def intro: attempts_okD)
  have act: "active_attempt_state (at_state a)" "(i, a) \<in> set (d_attempts d)"
    using active by (simp_all add: active_attempts_iff)
  show ?thesis
  proof (cases "at_machineId a")
    case None
    let ?f = "\<lambda>a. a\<lparr>at_state := ACancelled, at_jitConfig := None,
      at_cancelReason := Some ''No compatible Worker became ready within 24 hours'',
      at_finishedAt := Some now, at_runnerCleanupPending := Some True\<rparr>"
    have "at_retirement a = None" using aok None by (auto simp: attempt_ok_def)
    then have "repairs d (patch_attempt i ?f (drop_secret i (rn_db s)))"
      using row by (intro repairs_end_attempt [OF rep]) (auto simp: attempt_on_def attempt_ok_def)
    moreover have "mirrors d (rn_machineSlots s) (patch_attempt i ?f (drop_secret i (rn_db s)))"
      using mir by (rule mirrors_machines [rotated]) simp
    ultimately show ?thesis
      using ok by (auto simp: recon_attempt_def None repairs_secret [OF rep] attempt_step_def recon_ok_def)
  next
    case (Some m)
    have placed: "placed m d" using act Some by (force simp: placed_def attempt_on_def)
    let ?machine = "machine_of (recon_read d) (Some m)"
    consider "at_state a = APending" "silent_for WORKER_OFFLINE_AFTER_MS now ?machine"
      | r where "\<not> (at_state a = APending \<and> silent_for WORKER_OFFLINE_AFTER_MS now ?machine)" "at_retirement a = Some r"
      | "\<not> (at_state a = APending \<and> silent_for WORKER_OFFLINE_AFTER_MS now ?machine)" "at_retirement a = None"
      by fastforce
    then show ?thesis
    proof cases
      case 1
      let ?f = "\<lambda>a. a\<lparr>at_machineId := None\<rparr>"
      have "repairs d (patch_attempt i ?f (rn_db s))"
        using aok row 1 by (intro repairs_patch_attempt [OF rep]) (auto simp: attempt_on_def attempt_ok_def)
      then have "recon_ok d (recon_write (patch_attempt i ?f) s)" by (intro recon_write_ok [OF ok]) simp_all
      then show ?thesis
        using 1 by (simp add: recon_attempt_def Some attempt_step_def) (simp add: recon_write_def)
    next
      case 2
      then have "recon_attempt now (recon_read d) (i, a) s = recon_retiring now (i, a) ?machine s"
        by (auto simp: recon_attempt_def Some Let_def)
      then show ?thesis using recon_retiring_step [OF ok row Some placed 2(2)] by simp
    next
      case 3
      let ?silent = "silent_for WORKER_OFFLINE_AFTER_MS now ?machine"
      let ?due = "(at_state a = APreparing \<or> at_state a = AReady) \<and> ?silent \<or> attempt_stuck now a \<or>
        at_state a = ARunning \<and> silent_for RUNNING_ABANDONED_MS now ?machine"
      show ?thesis
      proof (cases ?due)
        case True
        then have on: "runnerMayBeOnline (at_state a)" by (auto simp: attempt_stuck_def)
        let ?reason = "if at_state a = ARunning \<and> silent_for RUNNING_ABANDONED_MS now ?machine
          then ''Worker stopped reporting during the GitHub job''
          else if attempt_stuck now a then ''Executor did not become usable within 45 minutes''
          else ''Worker stopped reporting while preparing the runner''"
        obtain x d1 where r: "retireAttempt now (i, a) RetireFailed ?reason (rn_db s) = Inr (x, d1)"
            "attempt_step d i s (s\<lparr>rn_db := d1, rn_abandoned := rn_abandoned s + 1\<rparr>)"
          using recon_retire_step [OF ok row on Some 3(2)] by blast
        have "recon_attempt now (recon_read d) (i, a) s = Inr (s\<lparr>rn_db := d1, rn_abandoned := rn_abandoned s + 1\<rparr>)"
          using True 3 r(1) by (auto simp: recon_attempt_def Some Let_def)
        then show ?thesis using r(2) by blast
      next
        case False
        then show ?thesis
          using 3 ok by (auto simp: recon_attempt_def Some Let_def attempt_step_refl)
      qed
    qed
  qed
qed

lemma recon_experiment_ok:
  assumes "recon_ok d s"
  shows "recon_ok d (recon_experiment now ld doc s)"
proof -
  obtain i e where doc: "doc = (i, e)" by (cases doc)
  have "recon_ok d (recon_write (patch_experiment i (\<lambda>e. e\<lparr>ex_state := EFailed, ex_finishedAt := f, ex_lastError := err\<rparr>)) s)"
    for f err
    using assms by (rule recon_write_ok) (auto simp: experiment_on_def intro!: repairs_patch_experiment)
  moreover have "recon_ok d (recon_write (patch_experiment i (\<lambda>e. e\<lparr>ex_machineId := None\<rparr>)) s)"
    using assms by (rule recon_write_ok) (auto simp: experiment_on_def intro!: repairs_patch_experiment)
  ultimately show ?thesis using assms by (simp add: recon_experiment_def doc Let_def)
qed

lemma fold_recon_ok:
  assumes "recon_ok d s" "\<And>x s. recon_ok d s \<Longrightarrow> recon_ok d (f x s)"
  shows "recon_ok d (fold f xs s)"
  by (rule fold_frame [where I = "recon_ok d"]) (use assms in auto)


lemma ranges_rows:
  assumes "db_wf t" "distinct keys" "\<And>k k' r. has k r \<Longrightarrow> has k' r \<Longrightarrow> k = k'"
  shows "distinct (map fst (ranges has keys t))" "\<forall>(i, r) \<in> set (ranges has keys t). db_get t i = Some r"
proof -
  show rows: "\<forall>(i, r) \<in> set (ranges has keys t). db_get t i = Some r"
    using assms(1) by (auto simp: ranges_def db_query_iff db_wf_get_iff)
  show "distinct (map fst (ranges has keys t))"
    using assms(2)
  proof (induction keys)
    case (Cons k keys)
    have "fst ` set (db_query (has k) t) \<inter> fst ` set (ranges has keys t) = {}"
      using assms(1,3) Cons.prems by (fastforce simp: ranges_def db_query_iff simp flip: db_wf_get_iff)
    then show ?case using Cons query_rows(1) [OF assms(1), of "has k"] by (simp add: ranges_def)
  qed (simp add: ranges_def)
qed

lemma active_attempts_rows:
  assumes "db_wf (d_attempts d)"
  shows "distinct (map fst (active_attempts d))" "\<forall>(i, a) \<in> set (active_attempts d). db_get (d_attempts d) i = Some a"
  using ranges_rows [OF assms, of ACTIVE_ATTEMPT_STATES "\<lambda>s a. at_state a = s"]
  by (auto simp: active_attempts_def ACTIVE_ATTEMPT_STATES_def)

lemma jobs_loops_attempts:
  "d_attempts (rn_db (recon_assigned now ld x s)) = d_attempts (rn_db s)"
  "d_attempts (rn_db (recon_running now ld x s)) = d_attempts (rn_db s)"
  "d_attempts (rn_db (recon_queued now x s)) = d_attempts (rn_db s)"
proof -
  have dis: "d_attempts (discard_commands now cs j e) = d_attempts e" for cs j e
    unfolding discard_commands_def
    by (rule fold_frame [where I = "\<lambda>e'. d_attempts e' = d_attempts e"])
       (simp_all add: discardCommand_def enqueueRunnerDeletion_def insert_deletion_def split: option.split)
  have fin: "d_attempts (fold (finish_command now j) cs e) = d_attempts e" for cs j e
    by (rule fold_frame [where I = "\<lambda>e'. d_attempts e' = d_attempts e"])
       (simp_all add: finish_command_def enqueueRunnerDeletion_def insert_deletion_def split: option.split)
  have rel: "d_attempts (rn_db (recon_release machine s)) = d_attempts (rn_db s)" for machine s
    by (simp add: recon_release_def Let_def split: option.split)
  show "d_attempts (rn_db (recon_assigned now ld x s)) = d_attempts (rn_db s)"
    by (simp add: recon_assigned_def Let_def recon_write_def rel dis split: attempt_outcome.split)
  show "d_attempts (rn_db (recon_running now ld x s)) = d_attempts (rn_db s)"
    by (simp add: recon_running_def Let_def recon_write_def rel fin)
  show "d_attempts (rn_db (recon_queued now x s)) = d_attempts (rn_db s)"
    by (simp add: recon_queued_def recon_write_def)
qed

lemma recon_work_total:
  assumes ok: "recon_ok d s" and wf: "db_wf (d_attempts d)" and same: "d_attempts (rn_db s) = d_attempts d"
  shows "\<exists>s'. recon_work now (recon_read d) s = Inr s' \<and> recon_ok d s'"
proof -
  let ?ld = "recon_read d"
  let ?s3 = "fold (recon_queued now) (ld_queuedJobs ?ld) (fold (recon_running now ?ld) (ld_runningJobs ?ld)
    (fold (recon_assigned now ?ld) (ld_assignedJobs ?ld) s))"
  have att: "d_attempts (rn_db (fold f xs t)) = d_attempts (rn_db t)"
    if "\<And>x s. d_attempts (rn_db (f x s)) = d_attempts (rn_db s)" for f :: "'b \<Rightarrow> recon \<Rightarrow> recon" and xs t
    by (rule fold_frame [where I = "\<lambda>u. d_attempts (rn_db u) = d_attempts (rn_db t)"]) (simp_all add: that)
  have s3: "recon_ok d ?s3"
    by (intro fold_recon_ok ok recon_queued_ok recon_running_ok recon_assigned_ok)
  have same3: "d_attempts (rn_db ?s3) = d_attempts d"
    by (simp add: att [OF jobs_loops_attempts(1)] att [OF jobs_loops_attempts(2)] att [OF jobs_loops_attempts(3)] same)
  have "\<exists>s'. res_fold (recon_attempt now ?ld) (active_attempts d) ?s3 = Inr s' \<and> recon_ok d s'"
  proof (rule res_fold_rows [where tab = "\<lambda>s. d_attempts (rn_db s)" and I = "recon_ok d"])
    show "\<forall>(i, a) \<in> set (active_attempts d). db_get (d_attempts (rn_db ?s3)) i = Some a"
      using active_attempts_rows(2) [OF wf] by (simp add: same3)
    show "\<exists>s'. recon_attempt now ?ld (i, a) s = Inr s' \<and> recon_ok d s' \<and>
        (\<forall>j. j \<noteq> i \<longrightarrow> db_get (d_attempts (rn_db s')) j = db_get (d_attempts (rn_db s)) j)"
      if "(i, a) \<in> set (active_attempts d)" "recon_ok d s" "db_get (d_attempts (rn_db s)) i = Some a" for i a s
      using recon_attempt_step [OF that(2,3,1)] by (simp add: attempt_step_def)
  qed (rule active_attempts_rows [OF wf] s3)+
  then obtain s4 where s4: "res_fold (recon_attempt now ?ld) (active_attempts d) ?s3 = Inr s4" "recon_ok d s4" by blast
  moreover have "recon_ok d (fold (recon_experiment now ?ld) (ld_experiments ?ld) s4)"
    by (intro fold_recon_ok s4 recon_experiment_ok)
  ultimately show ?thesis by (simp add: recon_work_def recon_read_def)
qed

section \<open>Retention\<close>

lemma db_delete_fold:
  assumes "\<And>x t. db_wf t \<Longrightarrow> db_wf (f x t) \<and> set (f x t) \<subseteq> set t" "db_wf t"
  shows "db_wf (fold f xs t) \<and> set (fold f xs t) \<subseteq> set t"
  by (rule fold_frame [where I = "\<lambda>u. db_wf u \<and> set u \<subseteq> set t"]) (use assms in blast)+

lemma set_db_delete_subset: "set (db_delete t i) \<subseteq> set t"
  by (auto simp: db_delete_def)

lemma delete_due_shrinks: "db_wf t \<Longrightarrow> db_wf (delete_due n key sel due t) \<and> set (delete_due n key sel due t) \<subseteq> set t"
  unfolding delete_due_def by (rule db_delete_fold) (auto simp: set_db_delete_subset [THEN subsetD])

lemma ids_of_subset: "set t \<subseteq> set u \<Longrightarrow> set (db_ids t) \<subseteq> set (db_ids u)"
  by (auto simp: db_ids_def)

lemma repairs_delete_jobs:
  assumes "repairs d e"
  shows "repairs d (delete_jobs now e)"
proof -
  let ?t = "d_jobs (delete_jobs now e)"
  have t: "db_wf ?t \<and> set ?t \<subseteq> set (d_jobs e)"
    unfolding delete_jobs_def using assms
    by (simp del: fold.simps) (rule db_delete_fold, rule delete_due_shrinks, simp_all add: repairs_def core_ok_parts)
  show ?thesis
    by (rule repairs_jobs [OF assms])
       (use t ids_of_subset [of ?t "d_jobs e"] in \<open>auto simp: delete_jobs_def simp del: fold.simps\<close>)
qed

lemma repairs_delete_experiments:
  assumes "repairs d e"
  shows "repairs d (delete_experiments now e)"
proof -
  let ?t = "d_experiments (delete_experiments now e)"
  have "db_wf ?t \<and> set ?t \<subseteq> set (d_experiments e)"
    unfolding delete_experiments_def using assms
    by (simp del: fold.simps)
       (rule db_delete_fold, rule db_delete_fold, simp_all add: set_db_delete_subset repairs_def core_ok_parts)
  then show ?thesis
    by (intro repairs_experiments [OF assms])
       (use ids_of_subset [of ?t "d_experiments e"] in \<open>auto simp: delete_experiments_def simp del: fold.simps\<close>)
qed


lemma repairs_egress:
  assumes "repairs d e"
  shows "\<exists>e'. deleteAttemptEgress i e = Inr e' \<and> repairs d e' \<and> d_attempts e' = d_attempts e \<and>
    d_attemptSecrets e' = d_attemptSecrets e \<and> d_machines e' = d_machines e"
proof -
  have eg: "egress_ok e" using assms by (simp add: repairs_def)
  obtain x where x: "db_unique (db_query (\<lambda>r. ae_attemptId r = i) (d_attemptEgress e)) = Inr x"
    using eg db_unique_distinct [of ae_attemptId "d_attemptEgress e" i] by (auto simp: egress_ok_def)
  have "repairs d (e\<lparr>d_attemptEgress := db_delete (d_attemptEgress e) k\<rparr>)" for k
  proof -
    have "egress_ok (e\<lparr>d_attemptEgress := db_delete (d_attemptEgress e) k\<rparr>)"
      using eg tb.wf_del [of "d_attemptEgress e" k] by (simp add: egress_ok_def) (simp add: db_delete_def distinct_map_filter)
    then show ?thesis using assms by (simp add: repairs_def core_ok_parts used_slots_nonneg_def placed_def)
  qed
  then show ?thesis using x assms by (auto simp: deleteAttemptEgress_def split: option.split)
qed

lemma repairs_delete_attempt:
  assumes "repairs d e" "no_secret i e"
  shows "repairs d (delete_attempt i e)"
proof (rule repairs_attempts [OF assms(1)])
  show "secrets_ok (delete_attempt i e)"
    using assms by (auto simp: repairs_def core_ok_def secrets_ok_def secret_live_def delete_attempt_def list_all_iff no_secret_def)
  show "names_ok (delete_attempt i e)"
    using assms(1) by (simp add: repairs_def core_ok_def names_ok_def delete_attempt_def db_delete_def distinct_map_filter)
qed (use assms(1) set_db_delete_subset [of "d_attempts e" i] in
     \<open>auto simp: repairs_def core_ok_def db_ok_def egress_ok_def attempts_ok_def list_all_iff delete_attempt_def\<close>)

lemma purge_attempt_ok:
  assumes "repairs d e"
  shows "\<exists>e'. purge_attempt doc e = Inr e' \<and> repairs d e' \<and> d_machines e' = d_machines e"
proof -
  let ?e1 = "drop_secret (fst doc) e"
  have e1: "repairs d ?e1" by (rule repairs_drop_secret [OF assms])
  from repairs_egress [OF this, of "fst doc"] obtain e2 where e2: "deleteAttemptEgress (fst doc) ?e1 = Inr e2"
    "repairs d e2" "d_attemptSecrets e2 = d_attemptSecrets ?e1" "d_machines e2 = d_machines ?e1" by blast
  have "no_secret (fst doc) e2" using no_secret_drop [of "fst doc" e] by (simp add: no_secret_def e2(3))
  from repairs_delete_attempt [OF e2(2) this] show ?thesis
    by (simp add: purge_attempt_def repairs_secret [OF assms] e2) (simp add: delete_attempt_def e2)
qed

lemma purge_attempts_ok:
  assumes "repairs d e"
  shows "\<exists>e'. purge_attempts now e = Inr e' \<and> repairs d e' \<and> d_machines e' = d_machines e"
  unfolding purge_attempts_def
  by (rule res_fold_total [where I = "\<lambda>e'. repairs d e' \<and> d_machines e' = d_machines e"], use assms in simp,
      rule res_fold_total [where I = "\<lambda>e'. repairs d e' \<and> d_machines e' = d_machines e"])
     (use purge_attempt_ok in \<open>metis\<close>)+

lemma retention_ok:
  assumes "repairs d e"
  shows "\<exists>e'. retention now e = Inr e' \<and> repairs d e' \<and> d_machines e' = d_machines e"
proof -
  let ?e1 = "delete_recoveries now (delete_deliveries now (delete_tokens now e))"
  have "repairs d ?e1"
    by (rule repairs_frame [OF assms]) (simp_all add: delete_recoveries_def delete_deliveries_def delete_tokens_def Let_def)
  then have "repairs d (delete_jobs now ?e1)" by (rule repairs_delete_jobs)
  from purge_attempts_ok [OF this] obtain e2 where e2: "purge_attempts now (delete_jobs now ?e1) = Inr e2"
    "repairs d e2" "d_machines e2 = d_machines (delete_jobs now ?e1)" by blast
  then show ?thesis
    using repairs_delete_experiments [OF e2(2)]
    by (simp add: retention_def) (simp add: delete_experiments_def delete_jobs_def delete_recoveries_def
        delete_deliveries_def delete_tokens_def Let_def)
qed

section \<open>Slots\<close>

lemma count_machine_fold:
  "or_else (fold (\<lambda>x. count_machine (g x)) xs expected m) 0 =
     or_else (expected m) 0 + int (length (filter (\<lambda>x. g x = Some m) xs))"
proof (induction xs arbitrary: expected)
  case (Cons x xs)
  have "or_else (count_machine (g x) expected m) 0 = or_else (expected m) 0 + (if g x = Some m then 1 else 0)"
    by (simp add: count_machine_def split: option.split)
  then show ?case by (simp add: Cons.IH)
qed simp

lemma length_ranges:
  assumes "distinct keys" "\<And>k r. has k r \<longleftrightarrow> key r = k"
  shows "length (filter (\<lambda>x. P (snd x)) (ranges has keys t)) = length (db_query (\<lambda>r. key r \<in> set keys \<and> P r) t)"
  using assms(1)
proof (induction keys)
  case (Cons k keys)
  have "length (db_query (\<lambda>r. key r \<in> set (k # keys) \<and> P r) t) =
      length (filter (\<lambda>x. P (snd x)) (db_query (has k) t)) + length (db_query (\<lambda>r. key r \<in> set keys \<and> P r) t)"
    using Cons.prems by (induction t) (auto simp: db_query_def assms(2))
  then show ?case using Cons by (simp add: ranges_def)
qed (simp add: ranges_def db_query_def)

lemma expected_work:
  assumes "db_ok d"
  shows "or_else (expectedByMachine d m) 0 = work_on m d"
proof -
  have a: "length (filter (\<lambda>x. at_machineId (snd x) = Some m) (active_attempts d)) = length (db_query (attempt_on m) (d_attempts d))"
  proof -
    have "active_attempt_state s \<longleftrightarrow> s \<in> set ACTIVE_ATTEMPT_STATES" for s
      by (cases s) (simp_all add: ACTIVE_ATTEMPT_STATES_def)
    then show ?thesis
      unfolding active_attempts_def
      by (subst length_ranges [where key = at_state]) (auto simp: ACTIVE_ATTEMPT_STATES_def attempt_on_def [abs_def])
  qed
  have e: "length (filter (\<lambda>x. ex_machineId (snd x) = Some m) (active_experiments d)) = length (db_query (experiment_on m) (d_experiments d))"
  proof -
    have "active_experiment_state s \<longleftrightarrow> s \<in> set ACTIVE_EXPERIMENT_STATES" for s
      by (cases s) (simp_all add: ACTIVE_EXPERIMENT_STATES_def)
    then show ?thesis
      unfolding active_experiments_def
      by (subst length_ranges [where key = ex_state]) (auto simp: ACTIVE_EXPERIMENT_STATES_def experiment_on_def [abs_def])
  qed
  have j: "length (filter (\<lambda>x. jb_machineId (snd x) = Some m) (ranges (\<lambda>s j. jb_status j = s) [JobAssigned, JobRunning] (d_jobs d))) =
      length (db_query (job_on m) (d_jobs d))"
  proof -
    have "active_job_status s \<longleftrightarrow> s \<in> set [JobAssigned, JobRunning]" for s by (cases s) simp_all
    then show ?thesis by (subst length_ranges [where key = jb_status]) (auto simp: job_on_def [abs_def])
  qed
  show ?thesis
    by (simp add: expectedByMachine_def count_machine_fold a e j work_on_rows [OF assms])
qed


lemma repair_machine_cases:
  assumes "repair_machine ex (m, row0) (r, slots, e) = (r', slots', e')"
    and "\<And>row. db_get (d_machines e) m = Some row \<Longrightarrow> slots m = Some (mc_usedSlots row)"
  shows "db_get (d_machines e') k = (if k = m then map_option (\<lambda>row. row\<lparr>mc_usedSlots := or_else (ex m) 0\<rparr>) (db_get (d_machines e) m)
           else db_get (d_machines e) k)"
    and "k \<noteq> m \<Longrightarrow> slots' k = slots k" and "e' = e\<lparr>d_machines := d_machines e'\<rparr>"
    and "repairs d e \<Longrightarrow> 0 \<le> or_else (ex m) 0 \<Longrightarrow> repairs d e'"
proof -
  have "e' = e \<or> e' = patch_machine m (\<lambda>r. r\<lparr>mc_usedSlots := or_else (ex m) 0\<rparr>) e"
    using assms(1) by (auto simp: repair_machine_def Let_def split: if_splits)
  then show "e' = e\<lparr>d_machines := d_machines e'\<rparr>" by (auto simp: patch_machine_def)
  show "repairs d e \<Longrightarrow> 0 \<le> or_else (ex m) 0 \<Longrightarrow> repairs d e'"
    using assms(1) by (auto simp: repair_machine_def Let_def repairs_used_slots split: if_splits)
  show "k \<noteq> m \<Longrightarrow> slots' k = slots k"
    using assms(1) by (auto simp: repair_machine_def Let_def split: if_splits)
  show "db_get (d_machines e') k = (if k = m then map_option (\<lambda>row. row\<lparr>mc_usedSlots := or_else (ex m) 0\<rparr>) (db_get (d_machines e) m)
           else db_get (d_machines e) k)"
  proof (cases "db_get (d_machines e) m")
    case (Some row)
    then show ?thesis using assms(1) assms(2) [OF Some]
      by (cases "k = m") (auto simp: repair_machine_def Let_def split: if_splits)
  qed (use assms(1) in \<open>auto simp: repair_machine_def Let_def split: if_splits\<close>)
qed

lemma repair_fold:
  assumes "distinct (map fst xs)"
    and "\<And>m row. m \<in> set (map fst xs) \<Longrightarrow> db_get (d_machines e) m = Some row \<Longrightarrow> slots m = Some (mc_usedSlots row)"
    and "fold (repair_machine ex) xs (r, slots, e) = (r', slots', e')"
    and "repairs d e" "\<And>m. 0 \<le> or_else (ex m) 0"
  shows "repairs d e' \<and> e' = e\<lparr>d_machines := d_machines e'\<rparr> \<and> (\<forall>m row. db_get (d_machines e') m = Some row \<longrightarrow>
    (\<exists>row0. db_get (d_machines e) m = Some row0 \<and>
       row = (if m \<in> set (map fst xs) then row0\<lparr>mc_usedSlots := or_else (ex m) 0\<rparr> else row0)))"
  using assms(1-4)
proof (induction xs arbitrary: r slots e)
  case (Cons x xs)
  obtain m row0 where x: "x = (m, row0)" by (cases x)
  obtain r1 slots1 e1 where one: "repair_machine ex (m, row0) (r, slots, e) = (r1, slots1, e1)"
    by (cases "repair_machine ex (m, row0) (r, slots, e)")
  have mine: "db_get (d_machines e) m = Some row \<Longrightarrow> slots m = Some (mc_usedSlots row)" for row
    using Cons.prems(2) [of m row] by (simp add: x)
  note step = repair_machine_cases [OF one mine]
  have new: "m \<notin> set (map fst xs)" using Cons.prems(1) by (simp add: x)
  have "slots1 k = Some (mc_usedSlots row)" if "k \<in> set (map fst xs)" "db_get (d_machines e1) k = Some row" for k row
  proof -
    have "k \<noteq> m" using that(1) new by blast
    then show ?thesis using that step(1) [of k] step(2) [of k] Cons.prems(2) [of k row] by simp
  qed
  moreover have "repairs d e1" using step(4) [OF _ Cons.prems(4)] assms(5) by simp
  ultimately have IH: "repairs d e' \<and> e' = e1\<lparr>d_machines := d_machines e'\<rparr> \<and> (\<forall>m row. db_get (d_machines e') m = Some row \<longrightarrow>
      (\<exists>row0. db_get (d_machines e1) m = Some row0 \<and>
         row = (if m \<in> set (map fst xs) then row0\<lparr>mc_usedSlots := or_else (ex m) 0\<rparr> else row0)))"
    using Cons.prems(1,3) one by (intro Cons.IH) (simp_all add: x)
  moreover have "e' = e\<lparr>d_machines := d_machines e'\<rparr>"
    using IH step(3) by (metis (no_types, lifting) db.surjective db.update_convs(1))
  moreover have "\<exists>r0. db_get (d_machines e) k = Some r0 \<and>
      row = (if k \<in> set (map fst (x # xs)) then r0\<lparr>mc_usedSlots := or_else (ex k) 0\<rparr> else r0)"
    if "db_get (d_machines e') k = Some row" for k row
  proof -
    from IH that obtain r1 where r1: "db_get (d_machines e1) k = Some r1"
        "row = (if k \<in> set (map fst xs) then r1\<lparr>mc_usedSlots := or_else (ex k) 0\<rparr> else r1)" by blast
    show ?thesis
    proof (cases "k = m")
      case True
      then show ?thesis using step(1) [of k] new r1 by (cases "db_get (d_machines e) m") (simp_all add: x)
    next
      case False
      then have "db_get (d_machines e) k = Some r1" using step(1) [of k] r1(1) by simp
      then show ?thesis using False r1(2) by (intro exI [of _ r1]) (simp add: x)
    qed
  qed
  ultimately show ?case by blast
qed simp

text \<open>The state a run starts from.\<close>

lemma recon_start_ok:
  assumes "core_ok d" "egress_ok d" "used_slots_nonneg d"
  shows "recon_ok d (recon_start (recon_read d) d)" "d_attempts (rn_db (recon_start (recon_read d) d)) = d_attempts d"
proof -
  let ?e = "fold (\<lambda>c. delete_command (fst c)) (ld_finishedCommands (recon_read d)) d"
  have "repairs d d" using assms by (simp add: repairs_def)
  then have same: "repairs d ?e \<and> d_machines ?e = d_machines d \<and> d_attempts ?e = d_attempts d"
    by (intro fold_frame [where I = "\<lambda>e. repairs d e \<and> d_machines e = d_machines d \<and> d_attempts e = d_attempts d"]) simp_all
  have wf: "db_wf (d_machines d)" using assms(1) by (simp add: core_ok_parts)
  have "map_of (recon_machines d) m = Some row" if "loaded d m" "db_get (d_machines d) m = Some row" for m row
  proof -
    from that(1) obtain row' where r: "(m, row') \<in> set (recon_machines d)" by (auto simp: loaded_def)
    then have "map_of (recon_machines d) m = Some row'" by (simp add: map_of_is_SomeI recon_machines_distinct [OF wf])
    then show ?thesis using recon_machines_row [OF wf r] that(2) by simp
  qed
  then have "mirrors d (\<lambda>m. map_option mc_usedSlots (map_of (recon_machines d) m)) ?e"
    using same by (auto simp: mirrors_def)
  then show "recon_ok d (recon_start (recon_read d) d)"
    using same by (simp add: recon_ok_def recon_start_def recon_read_def)
  show "d_attempts (rn_db (recon_start (recon_read d) d)) = d_attempts d"
    using same by (simp add: recon_start_def)
qed

lemma retry_tables:
  "d_machines (snd (retryStalledDeliveries now d)) = d_machines d \<and> d_attempts (snd (retryStalledDeliveries now d)) = d_attempts d \<and>
   d_experiments (snd (retryStalledDeliveries now d)) = d_experiments d \<and> d_jobs (snd (retryStalledDeliveries now d)) = d_jobs d \<and>
   d_attemptSecrets (snd (retryStalledDeliveries now d)) = d_attemptSecrets d \<and>
   d_profiles (snd (retryStalledDeliveries now d)) = d_profiles d \<and> d_nextId (snd (retryStalledDeliveries now d)) = d_nextId d"
  unfolding retryStalledDeliveries_def
  by (rule fold_frame [where I = "\<lambda>s. d_machines (snd s) = d_machines d \<and> d_attempts (snd s) = d_attempts d \<and>
        d_experiments (snd s) = d_experiments d \<and> d_jobs (snd s) = d_jobs d \<and> d_attemptSecrets (snd s) = d_attemptSecrets d \<and>
        d_profiles (snd s) = d_profiles d \<and> d_nextId (snd s) = d_nextId d"])
     (auto simp: retry_delivery_def Let_def patch_delivery_def split: prod.splits)


section \<open>A run repairs the slot accounting\<close>

lemma kept_in_map: "(m, row) \<in> set w \<Longrightarrow> m \<in> set (map fst (r @ filter (\<lambda>x. fst x \<notin> set (map fst r)) w))"
proof (cases "m \<in> set (map fst r)")
  case False
  assume "(m, row) \<in> set w"
  with False have "(m, row) \<in> set (filter (\<lambda>x. fst x \<notin> set (map fst r)) w)" by simp
  then have "fst (m, row) \<in> fst ` set (filter (\<lambda>x. fst x \<notin> set (map fst r)) w)" by (rule imageI)
  then show ?thesis unfolding map_append set_append set_map by simp
qed simp

lemma used_loaded:
  assumes "db_get (d_machines d) m = Some row" "mc_usedSlots row > 0"
  shows "loaded d m"
proof -
  have "(m, row) \<in> set (sort_key (\<lambda>x. mc_usedSlots (snd x)) (db_query (\<lambda>m. mc_usedSlots m > 0) (d_machines d)))"
    using assms db_get_in_set [OF assms(1)] by (simp add: db_query_iff)
  then show ?thesis unfolding loaded_def recon_machines_def Let_def by (rule kept_in_map)
qed

lemma repaired_slots:
  assumes ok: "core_ok d" "used_slots_nonneg d" and s: "mirrors d slots e" and rep: "repairs d e"
    and run: "fold (repair_machine (expectedByMachine e)) (recon_machines d) (0, slots, e) = (n, slots', e')"
  shows "state_ok e'"
proof -
  have dbe: "db_ok e" and wf: "db_wf (d_machines d)" using rep ok(1) by (simp_all add: repairs_def core_ok_parts)
  have "slots m = Some (mc_usedSlots row)"
    if "m \<in> set (map fst (recon_machines d))" "db_get (d_machines e) m = Some row" for m row
    using s that by (simp add: mirrors_def loaded_def)
  moreover have "0 \<le> or_else (expectedByMachine e m) 0" for m by (simp add: expected_work [OF dbe] work_on_nonneg)
  ultimately have fold: "repairs d e' \<and> e' = e\<lparr>d_machines := d_machines e'\<rparr> \<and> (\<forall>m row. db_get (d_machines e') m = Some row \<longrightarrow>
      (\<exists>row0. db_get (d_machines e) m = Some row0 \<and> row = (if m \<in> set (map fst (recon_machines d))
         then row0\<lparr>mc_usedSlots := or_else (expectedByMachine e m) 0\<rparr> else row0)))"
    using recon_machines_distinct [OF wf] run rep by (intro repair_fold) blast+
  then obtain ms where "e' = e\<lparr>d_machines := ms\<rparr>" by blast
  then have work: "work_on m e' = work_on m e" for m by (simp add: work_on_def)
  have "mc_usedSlots row = work_on m e'" if row: "db_get (d_machines e') m = Some row" for m row
  proof (cases "loaded d m")
    case True
    from fold row obtain row0 where "row = (if m \<in> set (map fst (recon_machines d))
        then row0\<lparr>mc_usedSlots := or_else (expectedByMachine e m) 0\<rparr> else row0)" by blast
    then show ?thesis using True by (simp add: work loaded_def expected_work [OF dbe] flip: set_map)
  next
    case False
    from fold row obtain row0 where "db_get (d_machines e) m = Some row0" "row = (if m \<in> set (map fst (recon_machines d))
        then row0\<lparr>mc_usedSlots := or_else (expectedByMachine e m) 0\<rparr> else row0)" by blast
    then have "db_get (d_machines e) m = Some row" using False by (simp add: loaded_def)
    then have old: "db_get (d_machines d) m = Some row" using s False by (simp add: mirrors_def)
    have "\<not> mc_usedSlots row > 0" using used_loaded [OF old] False by blast
    moreover have "0 \<le> mc_usedSlots row" using ok(2) db_get_in_set [OF old] by (auto simp: used_slots_nonneg_def)
    moreover have "\<not> placed m e" using rep placed_loaded [OF _ old] False by (auto simp: repairs_def)
    ultimately show ?thesis using work_on_unplaced [OF dbe] by (simp add: work)
  qed
  moreover have "core_ok e'" using fold by (simp add: repairs_def)
  ultimately show ?thesis by (simp add: state_ok_core slots_ok_iff core_ok_def)
qed

text \<open>The stages of a run: the loops over work, retention, the slots, and the retries of deliveries.\<close>

lemma run_stages:
  assumes "core_ok d" "used_slots_nonneg d" "egress_ok d"
  obtains s d1 n slots' d2 result d' where
    "recon_work now (recon_read d) (recon_start (recon_read d) d) = Inr s" "recon_ok d s"
    "retention now (rn_db s) = Inr d1" "repairs d d1" "mirrors d (rn_machineSlots s) d1"
    "fold (repair_machine (expectedByMachine d1)) (recon_machines d) (0, rn_machineSlots s, d1) = (n, slots', d2)"
    "d' = recon_finish s n (snd (retryStalledDeliveries now d2))"
    "reconcile_run now d = Inr (result, d')"
proof -
  let ?ld = "recon_read d"
  have wf: "db_wf (d_attempts d)" using assms(1) by (simp add: core_ok_parts)
  note start = recon_start_ok [OF assms(1,3,2)]
  from recon_work_total [OF start(1) wf start(2)] obtain s where s: "recon_work now ?ld (recon_start ?ld d) = Inr s" "recon_ok d s"
    by blast
  from retention_ok [of d "rn_db s"] s(2) obtain d1 where d1: "retention now (rn_db s) = Inr d1" "repairs d d1"
    "d_machines d1 = d_machines (rn_db s)" by (auto simp: recon_ok_def)
  have mir: "mirrors d (rn_machineSlots s) d1" using s(2) d1(3) by (simp add: recon_ok_def mirrors_def)
  obtain n slots' d2 where d2: "fold (repair_machine (expectedByMachine d1)) (recon_machines d) (0, rn_machineSlots s, d1) = (n, slots', d2)"
    by (cases "fold (repair_machine (expectedByMachine d1)) (recon_machines d) (0, rn_machineSlots s, d1)")
  obtain r a d3 where d3: "retryStalledDeliveries now d2 = ((r, a), d3)" by (metis prod.collapse)
  have "ld_machines ?ld = recon_machines d" by (simp add: recon_read_def)
  then have "\<exists>result. reconcile_run now d = Inr (result, recon_finish s n (snd (retryStalledDeliveries now d2)))"
    by (simp add: reconcile_run_def Let_def s(1) d1(1) d2 d3)
  then show ?thesis using that [OF s d1(1,2) mir d2 refl] by blast
qed

lemma reconcile_run_ok:
  assumes "core_ok d" "used_slots_nonneg d" "egress_ok d"
  shows "\<exists>result d'. reconcile_run now d = Inr (result, d') \<and> state_ok d'"
proof -
  obtain s d1 n slots' d2 result d' where run:
    "recon_work now (recon_read d) (recon_start (recon_read d) d) = Inr s" "recon_ok d s"
    "retention now (rn_db s) = Inr d1" "repairs d d1" "mirrors d (rn_machineSlots s) d1"
    "fold (repair_machine (expectedByMachine d1)) (recon_machines d) (0, rn_machineSlots s, d1) = (n, slots', d2)"
    "d' = recon_finish s n (snd (retryStalledDeliveries now d2))"
    "reconcile_run now d = Inr (result, d')"
    by (rule run_stages [OF assms])
  have "state_ok d2" by (rule repaired_slots [OF assms(1,2) run(5,4,6)])
  then have "state_ok (snd (retryStalledDeliveries now d2))" by (rule state_ok_frame) (simp_all add: retry_tables)
  then have "state_ok d'" by (simp add: run(7) recon_finish_def Let_def)
  then show ?thesis using run(8) by blast
qed

text \<open>C3: The reconciler repairs the slot accounting: from any state whose invariant holds apart from the slot
  counts, which may be any numbers that are not negative, a run does not throw, and afterwards the whole
  invariant holds: every Worker's \<open>usedSlots\<close> is the number of Jobs, Attempts and Experiments on it.\<close>

theorem reconcile_repairs:
  assumes "core_ok d" "used_slots_nonneg d" "egress_ok d"
  shows "\<exists>result d'. reconcile_run now d = Inr (result, d') \<and> state_ok d'"
  using assms by (rule reconcile_run_ok)

section \<open>What becomes of an Attempt\<close>

text \<open>The row of an Attempt on a Worker, after a run; \<open>machine\<close> is the Worker, if it exists.\<close>

definition attempt_after :: "int \<Rightarrow> (nat \<times> machine) option \<Rightarrow> attempt \<Rightarrow> attempt" where
  "attempt_after now machine a =
     (if at_state a = APending then
        if silent_for WORKER_OFFLINE_AFTER_MS now machine then a\<lparr>at_machineId := None\<rparr> else a
      else if at_state a = ARunning then
        if silent_for RUNNING_ABANDONED_MS now machine
        then a\<lparr>at_jitConfig := None, at_runnerCleanupPending := Some True, at_retirement := Some
               \<lparr>rt_outcome = RetireFailed, rt_reason = ''Worker stopped reporting during the GitHub job'', rt_requestedAt = now\<rparr>\<rparr>
        else a
      else if attempt_stuck now a \<or> silent_for WORKER_OFFLINE_AFTER_MS now machine
      then a\<lparr>at_jitConfig := None, at_runnerCleanupPending := Some True, at_retirement := Some
             \<lparr>rt_outcome = RetireFailed,
              rt_reason = (if attempt_stuck now a then ''Executor did not become usable within 45 minutes''
                           else ''Worker stopped reporting while preparing the runner''), rt_requestedAt = now\<rparr>\<rparr>
      else a)"

lemma attempt_after_active:
  "active_attempt_state (at_state (attempt_after now machine a)) = active_attempt_state (at_state a)"
  by (simp add: attempt_after_def)

lemma recon_attempt_row:
  assumes "recon_ok d s" "db_get (d_attempts (rn_db s)) i = Some a" "active_attempt_state (at_state a)"
    and "at_machineId a = Some m" "at_retirement a = None" "recon_attempt now ld (i, a) s = Inr s'"
  shows "db_get (d_attempts (rn_db s')) i = Some (attempt_after now (machine_of ld (Some m)) a)"
proof -
  have rep: "repairs d (rn_db s)" using assms(1) by (simp add: recon_ok_def)
  show ?thesis
    using assms(2-6)
    by (cases "at_state a")
       (auto simp: recon_attempt_def Let_def attempt_after_def attempt_stuck_def retireAttempt_def repairs_secret [OF rep]
          recon_write_def split: if_splits)
qed

text \<open>A loop over rows, with what it leaves of each row.\<close>

lemma res_fold_rows_at:
  assumes "distinct (map fst docs)" "\<forall>(i, a) \<in> set docs. db_get (tab s) i = Some a" "I s"
    and step: "\<And>i a s. (i, a) \<in> set docs \<Longrightarrow> I s \<Longrightarrow> db_get (tab s) i = Some a \<Longrightarrow>
      \<exists>s'. f (i, a) s = Inr s' \<and> I s' \<and> P i a (db_get (tab s') i) \<and> (\<forall>j. j \<noteq> i \<longrightarrow> db_get (tab s') j = db_get (tab s) j)"
  shows "\<exists>s'. res_fold f docs s = Inr s' \<and> I s' \<and> (\<forall>(i, a) \<in> set docs. P i a (db_get (tab s') i)) \<and>
    (\<forall>j. j \<notin> set (map fst docs) \<longrightarrow> db_get (tab s') j = db_get (tab s) j)"
  using assms
proof (induction docs arbitrary: s)
  case (Cons x docs)
  obtain i a where x: "x = (i, a)" by fastforce
  from Cons.prems(4) [of i a s] Cons.prems(2,3) obtain s1 where s1: "f (i, a) s = Inr s1" "I s1" "P i a (db_get (tab s1) i)"
    "\<forall>j. j \<noteq> i \<longrightarrow> db_get (tab s1) j = db_get (tab s) j" by (auto simp: x)
  have fresh: "i \<notin> set (map fst docs)" using Cons.prems(1) by (simp add: x)
  have "\<forall>(j, b) \<in> set docs. db_get (tab s1) j = Some b"
  proof (intro ballI, clarify)
    fix j b assume jb: "(j, b) \<in> set docs"
    then have "j \<noteq> i" using fresh by force
    then show "db_get (tab s1) j = Some b" using jb Cons.prems(2) s1(4) by auto
  qed
  moreover have "\<exists>s'. f (j, b) t = Inr s' \<and> I s' \<and> P j b (db_get (tab s') j) \<and> (\<forall>k. k \<noteq> j \<longrightarrow> db_get (tab s') k = db_get (tab t) k)"
    if "(j, b) \<in> set docs" "I t" "db_get (tab t) j = Some b" for j b t
    by (rule Cons.prems(4)) (use that in simp_all)
  ultimately have "\<exists>s'. res_fold f docs s1 = Inr s' \<and> I s' \<and> (\<forall>(i, a) \<in> set docs. P i a (db_get (tab s') i)) \<and>
      (\<forall>j. j \<notin> set (map fst docs) \<longrightarrow> db_get (tab s') j = db_get (tab s1) j)"
    using Cons.IH [OF _ _ s1(2)] Cons.prems(1) by (simp add: x)
  then obtain s' where s': "res_fold f docs s1 = Inr s'" "I s'" "\<forall>(i, a) \<in> set docs. P i a (db_get (tab s') i)"
      "\<forall>j. j \<notin> set (map fst docs) \<longrightarrow> db_get (tab s') j = db_get (tab s1) j" by blast
  have "P i a (db_get (tab s') i)" using s'(4) fresh s1(3) by simp
  then show ?case using s1(1,4) s' by (intro exI [of _ s']) (simp add: x)
qed simp


lemma recon_work_rows:
  assumes ok: "recon_ok d s" and wf: "db_wf (d_attempts d)" and same: "d_attempts (rn_db s) = d_attempts d"
    and run: "recon_work now (recon_read d) s = Inr s'" and row: "(i, a) \<in> set (active_attempts d)"
    and a: "at_machineId a = Some m" "at_retirement a = None"
  shows "db_get (d_attempts (rn_db s')) i = Some (attempt_after now (machine_of (recon_read d) (Some m)) a)"
proof -
  let ?ld = "recon_read d"
  let ?s3 = "fold (recon_queued now) (ld_queuedJobs ?ld) (fold (recon_running now ?ld) (ld_runningJobs ?ld)
    (fold (recon_assigned now ?ld) (ld_assignedJobs ?ld) s))"
  let ?P = "\<lambda>(i :: nat) a r. \<forall>m. at_machineId a = Some m \<longrightarrow> at_retirement a = None \<longrightarrow>
    r = Some (attempt_after now (machine_of ?ld (Some m)) a)"
  have att: "d_attempts (rn_db (fold f xs t)) = d_attempts (rn_db t)"
    if "\<And>x s. d_attempts (rn_db (f x s)) = d_attempts (rn_db s)" for f :: "'b \<Rightarrow> recon \<Rightarrow> recon" and xs t
    by (rule fold_frame [where I = "\<lambda>u. d_attempts (rn_db u) = d_attempts (rn_db t)"]) (simp_all add: that)
  have s3: "recon_ok d ?s3"
    by (intro fold_recon_ok ok recon_queued_ok recon_running_ok recon_assigned_ok)
  have same3: "d_attempts (rn_db ?s3) = d_attempts d"
    by (simp add: att [OF jobs_loops_attempts(1)] att [OF jobs_loops_attempts(2)] att [OF jobs_loops_attempts(3)] same)
  have "\<exists>s'. res_fold (recon_attempt now ?ld) (active_attempts d) ?s3 = Inr s' \<and> recon_ok d s' \<and>
      (\<forall>(i, a) \<in> set (active_attempts d). ?P i a (db_get (d_attempts (rn_db s')) i)) \<and>
      (\<forall>j. j \<notin> set (map fst (active_attempts d)) \<longrightarrow> db_get (d_attempts (rn_db s')) j = db_get (d_attempts (rn_db ?s3)) j)"
  proof (rule res_fold_rows_at [where tab = "\<lambda>s. d_attempts (rn_db s)" and I = "recon_ok d" and P = ?P])
    show "\<forall>(i, a) \<in> set (active_attempts d). db_get (d_attempts (rn_db ?s3)) i = Some a"
      using active_attempts_rows(2) [OF wf] by (simp add: same3)
    fix i a s assume i: "(i, a) \<in> set (active_attempts d)" "recon_ok d s" "db_get (d_attempts (rn_db s)) i = Some a"
    from recon_attempt_step [OF i(2,3,1)] obtain s1 where s1: "recon_attempt now ?ld (i, a) s = Inr s1" "attempt_step d i s s1"
      by blast
    have "active_attempt_state (at_state a)" using i(1) by (simp add: active_attempts_iff)
    then have "?P i a (db_get (d_attempts (rn_db s1)) i)" using recon_attempt_row [OF i(2,3)] s1(1) by blast
    then show "\<exists>s'. recon_attempt now ?ld (i, a) s = Inr s' \<and> recon_ok d s' \<and> ?P i a (db_get (d_attempts (rn_db s')) i) \<and>
        (\<forall>j. j \<noteq> i \<longrightarrow> db_get (d_attempts (rn_db s')) j = db_get (d_attempts (rn_db s)) j)"
      using s1 by (simp add: attempt_step_def)
  qed (rule active_attempts_rows [OF wf] s3)+
  then obtain s4 where s4: "res_fold (recon_attempt now ?ld) (active_attempts d) ?s3 = Inr s4"
      "\<forall>(i, a) \<in> set (active_attempts d). ?P i a (db_get (d_attempts (rn_db s4)) i)" by blast
  have ex: "d_attempts (rn_db (recon_experiment now ?ld x t)) = d_attempts (rn_db t)" for x t
    by (cases x) (simp add: recon_experiment_def Let_def recon_write_def)
  have "s' = fold (recon_experiment now ?ld) (ld_experiments ?ld) s4"
    using run s4(1) by (simp add: recon_work_def) (simp add: recon_read_def)
  then have "d_attempts (rn_db s') = d_attempts (rn_db s4)" by (simp add: att [OF ex])
  then show ?thesis using s4(2) row a by auto
qed

lemma purge_attempts_keeps:
  assumes rep: "repairs d e" and row: "db_get (d_attempts e) i = Some a" "active_attempt_state (at_state a)"
    and run: "purge_attempts now e = Inr e'"
  shows "db_get (d_attempts e') i = Some a"
proof -
  let ?I = "\<lambda>e. repairs d e \<and> db_get (d_attempts e) i = Some a"
  have one: "?I e1" if "?I e" "purge_attempt x e = Inr e1" "fst x \<noteq> i" for x e e1
  proof -
    let ?e1 = "drop_secret (fst x) e"
    have re: "repairs d e" using that(1) by simp
    then have rd: "repairs d ?e1" by (rule repairs_drop_secret)
    from repairs_egress [OF this, of "fst x"] obtain e2 where e2: "deleteAttemptEgress (fst x) ?e1 = Inr e2"
      "d_attempts e2 = d_attempts ?e1" by blast
    have "e1 = delete_attempt (fst x) e2" using that(1,2) e2(1) by (simp add: purge_attempt_def repairs_secret [OF re])
    then have "db_get (d_attempts e1) i = Some a" using that(1,3) e2(2) by (simp add: delete_attempt_def)
    moreover obtain e3 where "purge_attempt x e = Inr e3" "repairs d e3"
      using purge_attempt_ok [OF re, of x] by blast
    ultimately show ?thesis using that(2) by simp
  qed
  have stale: "fst x \<noteq> i" if "?I e" "x \<in> set (stale_attempts now state e)" "state \<in> set TERMINAL_ATTEMPT_STATES" for x e state
  proof
    assume "fst x = i"
    moreover have "x \<in> set (d_attempts e)" "at_state (snd x) = state"
      using that(2) by (auto simp: stale_attempts_def db_query_def dest!: in_set_takeD)
    moreover have "db_wf (d_attempts e)" using that(1) by (simp add: repairs_def core_ok_def db_ok_def)
    ultimately have "snd x = a" using that(1) by (metis db_wf_get_iff option.inject prod.collapse)
    then show False using that(3) row(2) \<open>at_state (snd x) = state\<close> by (auto simp: TERMINAL_ATTEMPT_STATES_def)
  qed
  have inner: "?I e1" if "?I e" "docs = stale_attempts now state e" "state \<in> set TERMINAL_ATTEMPT_STATES"
      "res_fold purge_attempt docs e = Inr e1" for e e1 docs state
    using that(4,1)
  proof (rule res_fold_invariant)
    fix x s s' assume "x \<in> set docs" and s: "?I s" "purge_attempt x s = Inr s'"
    have "fst x \<noteq> i" using stale [OF that(1) _ that(3)] that(2) \<open>x \<in> set docs\<close> by simp
    then show "?I s'" by (rule one [OF s])
  qed
  have "?I e'"
    using run [unfolded purge_attempts_def]
  proof (rule res_fold_invariant)
    fix state s s' assume "?I s" "state \<in> set TERMINAL_ATTEMPT_STATES" "res_fold purge_attempt (stale_attempts now state s) s = Inr s'"
    then show "?I s'" by (rule inner [OF _ refl])
  qed (use rep row in simp)
  then show ?thesis by simp
qed



section \<open>Witnesses\<close>

text \<open>A Worker with one Attempt whose slot count drifted to 7.\<close>

definition drifted_db :: db where
  "drifted_db = patch_machine 1 (\<lambda>m. m\<lparr>mc_usedSlots := 7\<rparr>) sample_assigned"

lemma drifted_db_ok: "core_ok drifted_db" "used_slots_nonneg drifted_db" "egress_ok drifted_db"
  by code_simp+

theorem reconcile_repairs_witness:
  "\<not> slots_ok drifted_db \<and> (\<exists>result d'. reconcile_run 2000 drifted_db = Inr (result, d') \<and> state_ok d' \<and>
     rz_slotsRepaired result = 1 \<and> map (\<lambda>x. mc_usedSlots (snd x)) (d_machines d') = [1])"
proof -
  have drift: "\<not> slots_ok drifted_db" by code_simp
  have run: "(case reconcile_run 2000 drifted_db of
      Inr (r, d) \<Rightarrow> (rz_slotsRepaired r, map (\<lambda>x. mc_usedSlots (snd x)) (d_machines d)) | Inl _ \<Rightarrow> (0, [])) = (1, [1])"
    by code_simp
  from reconcile_repairs [OF drifted_db_ok, of 2000] obtain result d' where
    "reconcile_run 2000 drifted_db = Inr (result, d')" "state_ok d'" by blast
  then show ?thesis using drift run by simp
qed


end
