(* ===== verification/Machines.thy ===== *)
theory Machines
  imports Reconcile
begin

text \<open>
  Workers joining and leaving the fleet: registration tokens, registration, host labels, the list the
  dashboard shows and the capacity probe (\<open>packages/backend/convex/machines.ts\<close>), and the operator's
  mutations on a Worker (\<open>admin.ts\<close>). The random source is an argument: \<open>rnd k\<close> is the string the
  k-th call of \<open>randomHex\<close> returns, and a loop that draws until a string is free returns \<open>None\<close> when it
  never ends. A reply with a status is a value, as in the code; only \<open>throw\<close> is an error.
\<close>

section \<open>Names and tokens\<close>

definition REGISTRATION_TOKEN_TTL_MS :: int where
  "REGISTRATION_TOKEN_TTL_MS = 15 * 60 * 1000"

definition hex_digit :: "nat \<Rightarrow> char" where
  "hex_digit n = ''0123456789abcdef'' ! n"

text \<open>The bytes of \<open>crypto.getRandomValues\<close>, each as two hexadecimal digits.\<close>

definition randomHex :: "nat \<Rightarrow> nat list \<Rightarrow> string" where
  "randomHex len bytes = take len (concat (map (\<lambda>b. [hex_digit (b div 16), hex_digit (b mod 16)]) bytes))"

definition name_char :: "char \<Rightarrow> bool" where
  "name_char c \<longleftrightarrow> is_lower_letter (lower_char c) \<or> is_digit c \<or> c \<in> set ''._-''"

text \<open>\<open>replace(/[^A-Za-z0-9._-]+/g, "-")\<close>: each run of other characters becomes one dash.\<close>

fun dash_runs :: "bool \<Rightarrow> string \<Rightarrow> string" where
  "dash_runs in_run [] = []"
| "dash_runs in_run (c # cs) =
     (if name_char c then c # dash_runs False cs
      else if in_run then dash_runs True cs else CHR ''-'' # dash_runs True cs)"

definition strip_dashes :: "string \<Rightarrow> string" where
  "strip_dashes s = rev (dropWhile (\<lambda>c. c = CHR ''-'') (rev (dropWhile (\<lambda>c. c = CHR ''-'') s)))"

definition sanitizeMachineName :: "string \<Rightarrow> string" where
  "sanitizeMachineName hostname =
     (let sanitized = take 64 (strip_dashes (dash_runs False (js_trim hostname)))
      in if length sanitized > 0 then sanitized else ''runner'')"

section \<open>The list of Workers\<close>

record readiness_view =
  rw_profile :: string
  rw_executor :: executor
  rw_imageRelease :: string
  rw_state :: readiness_state
  rw_checkedAt :: int
  rw_preparedAt :: "int option"
  rw_statusDetail :: "string option"
  rw_lastError :: "string option"

record machine_view =
  mv_id :: nat
  mv_name :: string
  mv_os :: os
  mv_labels :: "string list"
  mv_arch :: "string option"
  mv_cpus :: "int option"
  mv_memoryMiB :: "int option"
  mv_slotPolicy :: "slot_policy option"
  mv_configuredSlots :: "int option"
  mv_resourceRecommendedSlots :: "int option"
  mv_recommendedSlots :: "int option"
  mv_benchmark :: "stored_benchmark option"
  mv_maxSlots :: int
  mv_usedSlots :: int
  mv_lastSeen :: int
  mv_currentJobs :: "(nat \<times> string \<times> string \<times> job_status) list"
  mv_currentAttempts :: "(nat \<times> string \<times> attempt_state) list"
  mv_currentExperiments :: "(nat \<times> string \<times> experiment_state) list"
  mv_readiness :: "readiness_view list"

text \<open>\<open>new Map(entries)\<close>: the last of equal keys wins.\<close>

definition map_from :: "('k \<times> 'v) list \<Rightarrow> 'k \<Rightarrow> 'v option" where
  "map_from entries = map_of (rev entries)"

definition shown_benchmark :: "db \<Rightarrow> nat \<times> machine \<Rightarrow> stored_benchmark option" where
  "shown_benchmark d doc =
     (case map_from (map (\<lambda>x. (be_machineId (snd x), be_benchmark (snd x))) (d_benchmarkEvidence d)) (fst doc) of
        Some b \<Rightarrow> Some b
      | None \<Rightarrow> (case mc_benchmark (snd doc) of Some (FullBenchmark b) \<Rightarrow> Some b | _ \<Rightarrow> None))"

definition shown_readiness :: "db \<Rightarrow> machine \<Rightarrow> worker_readiness \<Rightarrow> readiness_view" where
  "shown_readiness d machine entry =
     (let evidence = map_from (map (\<lambda>x. ((rr_machineId (snd x), rr_profile (snd x)), snd x)) (d_readinessEvidence d))
            (rr_machineId entry, rr_profile entry);
          currentEvidence = (case evidence of None \<Rightarrow> None
            | Some e \<Rightarrow> if rr_checkedAt e = rr_checkedAt entry then Some e else None);
          egress = or_else (map_from (map (\<lambda>x. (pf_name (snd x), profileEgressOf (pf_egress (snd x)))) (d_profiles d))
            (rr_profile entry)) PUBLIC_EGRESS;
          pin = or_else (map_from (map (\<lambda>x. (pf_name (snd x), pf_workerLabels (snd x))) (d_profiles d)) (rr_profile entry)) None;
          admissionError = readinessAdmissionError entry evidence egress
      in \<lparr>rw_profile = rr_profile entry, rw_executor = rr_executor entry, rw_imageRelease = rr_imageRelease entry,
          rw_state =
            (if wr_state entry = Ready \<and> admissionError \<noteq> None
             then if wr_preparedAt entry = None then ReadinessFailed else Degraded
             else wr_state entry),
          rw_checkedAt = rr_checkedAt entry, rw_preparedAt = wr_preparedAt entry,
          rw_statusDetail = (case map_option re_statusDetail currentEvidence of
            Some (Some detail) \<Rightarrow> Some detail | _ \<Rightarrow> wr_statusDetail entry),
          rw_lastError = (case pinDetail pin (Some (mc_labels machine)) of
            Some detail \<Rightarrow> Some detail
          | None \<Rightarrow> (case map_option re_lastError currentEvidence of
              Some (Some err) \<Rightarrow> Some err
            | _ \<Rightarrow> (case wr_lastError entry of Some err \<Rightarrow> Some err | None \<Rightarrow> admissionError)))\<rparr>)"

definition machine_item :: "(string \<Rightarrow> string \<Rightarrow> int) \<Rightarrow> db \<Rightarrow> nat \<times> machine \<Rightarrow> machine_view" where
  "machine_item lc d doc =
     (case doc of (i, machine) \<Rightarrow>
        \<lparr>mv_id = i, mv_name = mc_name machine, mv_os = mc_os machine, mv_labels = mc_labels machine,
         mv_arch = mc_arch machine, mv_cpus = mc_cpus machine, mv_memoryMiB = mc_memoryMiB machine,
         mv_slotPolicy = mc_slotPolicy machine, mv_configuredSlots = mc_configuredSlots machine,
         mv_resourceRecommendedSlots = mc_resourceRecommendedSlots machine,
         mv_recommendedSlots = mc_recommendedSlots machine, mv_benchmark = shown_benchmark d doc,
         mv_maxSlots = mc_maxSlots machine, mv_usedSlots = mc_usedSlots machine, mv_lastSeen = mc_lastSeen machine,
         mv_currentJobs = map (\<lambda>(k, j). (k, jb_repo j, jb_workflowName j, jb_status j))
           (filter (\<lambda>x. jb_machineId (snd x) = Some i) (jobs_with JobAssigned d @ jobs_with JobRunning d)),
         mv_currentAttempts = map (\<lambda>(k, a). (k, at_profile a, at_state a))
           (filter (\<lambda>x. at_machineId (snd x) = Some i) (active_attempts d)),
         mv_currentExperiments = map (\<lambda>(k, e). (k, ex_name e, ex_state e))
           (filter (\<lambda>x. ex_machineId (snd x) = Some i) (active_experiments d)),
         mv_readiness = map (shown_readiness d machine)
           (js_sort (\<lambda>a b. lc (rr_profile a) (rr_profile b))
             (map snd (db_query (\<lambda>r. rr_machineId r = i) (d_workerReadiness d))))\<rparr>)"

definition listMachines :: "(string \<Rightarrow> string \<Rightarrow> int) \<Rightarrow> db \<Rightarrow> machine_view list" where
  "listMachines lc d =
     map (machine_item lc d) (js_sort (\<lambda>a b. lc (mc_name (snd a)) (mc_name (snd b))) (d_machines d))"

definition machines_list :: "(string \<Rightarrow> string \<Rightarrow> int) \<Rightarrow> string res \<Rightarrow> db \<Rightarrow> machine_view list res" where
  "machines_list lc auth d = res_bind auth (\<lambda>_. Inr (listMachines lc d))"

section \<open>Labels\<close>

datatype 'a reply = Accepted 'a | RefusedWith int string

record labels_set =
  ls_name :: string
  ls_labels :: "string list"
  ls_retiredRunners :: nat
  ls_requeuedAttempts :: nat

definition setLabels :: "int \<Rightarrow> string \<Rightarrow> string list \<Rightarrow> db \<Rightarrow> (labels_set reply \<times> db) res" where
  "setLabels now name labels d =
     (case normalizeHostLabels (map AString labels) of
        Inl err \<Rightarrow> Inr (RefusedWith 400 err, d)
      | Inr normalized \<Rightarrow>
          res_bind (db_unique (db_query (\<lambda>m. mc_name m = name) (d_machines d))) (\<lambda>found.
            case found of
              None \<Rightarrow> Inr (RefusedWith 404 ''No Worker has that name'', d)
            | Some (i, machine) \<Rightarrow>
                res_bind (retireOffPinOnWorker now (i, machine\<lparr>mc_labels := normalized\<rparr>)
                    (patch_machine i (\<lambda>m. m\<lparr>mc_labels := normalized\<rparr>) d)) (\<lambda>(retired, d1).
                  Inr (Accepted \<lparr>ls_name = mc_name machine, ls_labels = normalized,
                         ls_retiredRunners = pr_retired retired, ls_requeuedAttempts = pr_requeued retired\<rparr>,
                       runAfter AttemptTryAssign d1))))"

section \<open>Registration\<close>

text \<open>Draw until a string is free; the lookup is a \<open>.unique()\<close>, which may throw.\<close>

partial_function (option) draw_free :: "(nat \<Rightarrow> string) \<Rightarrow> (string \<Rightarrow> bool res) \<Rightarrow> nat \<Rightarrow> string res option" where
  "draw_free draw taken k =
     (case taken (draw k) of
        Inl e \<Rightarrow> Some (Inl e)
      | Inr t \<Rightarrow> if t then draw_free draw taken (Suc k) else Some (Inr (draw k)))"

definition token_taken :: "db \<Rightarrow> string \<Rightarrow> bool res" where
  "token_taken d token =
     res_bind (db_unique (db_query (\<lambda>t. rk_token t = token) (d_registrationTokens d))) (\<lambda>x. Inr (x \<noteq> None))"

definition machine_token_taken :: "db \<Rightarrow> string \<Rightarrow> bool res" where
  "machine_token_taken d token =
     res_bind (db_unique (db_query (\<lambda>m. mc_token m = token) (d_machines d))) (\<lambda>x. Inr (x \<noteq> None))"

definition issueRegistrationToken ::
  "int \<Rightarrow> (nat \<Rightarrow> nat list) \<Rightarrow> db \<Rightarrow> ((string \<times> int) \<times> db) res option" where
  "issueRegistrationToken now bytes d =
     map_option (\<lambda>drawn. res_bind drawn (\<lambda>token.
         Inr ((token, now + REGISTRATION_TOKEN_TTL_MS),
              d\<lparr>d_registrationTokens := db_insert (d_registrationTokens d) (d_nextId d)
                   \<lparr>rk_token = token, rk_createdAt = now, rk_usedAt = None\<rparr>,
                 d_nextId := Suc (d_nextId d)\<rparr>)))
       (draw_free (\<lambda>k. ''rcreg_'' @ randomHex 24 (bytes k)) (token_taken d) 0)"

text \<open>The name is free, or gets the first free suffix from 2 on.\<close>

definition suffixed :: "string \<Rightarrow> nat \<Rightarrow> string" where
  "suffixed base k = base @ ''-'' @ show_nat k"

lemma suffixed_inj: "suffixed base k = suffixed base j \<Longrightarrow> k = j"
  by (simp add: suffixed_def) (metis read_show_nat)

lemma finite_suffixes: "finite {j. k \<le> j \<and> suffixed base j \<in> set names}"
proof -
  have "finite (suffixed base -` set names)"
    by (rule finite_vimageI) (auto intro: injI suffixed_inj)
  then show ?thesis by (rule rev_finite_subset) auto
qed

function free_suffix :: "string \<Rightarrow> string list \<Rightarrow> nat \<Rightarrow> string" where
  "free_suffix base names k =
     (if suffixed base k \<in> set names then free_suffix base names (Suc k) else suffixed base k)"
  by auto

text \<open>The loop ends: every round uses up one of the finitely many names that are taken.\<close>

termination free_suffix
proof (relation "measure (\<lambda>(base, names, k). card {j. k \<le> j \<and> suffixed base j \<in> set names})")
  fix base names k assume "suffixed base k \<in> set names"
  then have "{j. Suc k \<le> j \<and> suffixed base j \<in> set names} \<subset> {j. k \<le> j \<and> suffixed base j \<in> set names}"
    by (intro psubsetI) (auto, metis (mono_tags, lifting) Suc_n_not_le_n le_refl mem_Collect_eq)
  then show "((base, names, Suc k), base, names, k) \<in> measure (\<lambda>(base, names, k). card {j. k \<le> j \<and> suffixed base j \<in> set names})"
    by (simp add: psubset_card_mono finite_suffixes)
qed simp

declare free_suffix.simps [simp del]

definition free_name :: "string \<Rightarrow> db \<Rightarrow> string" where
  "free_name base d =
     (let names = map (\<lambda>x. mc_name (snd x)) (d_machines d)
      in if base \<in> set names then free_suffix base names 2 else base)"

record registration_args =
  ra_registrationToken :: string
  ra_name :: string
  ra_os :: os
  ra_arch :: string
  ra_cpus :: int
  ra_memoryMiB :: "int option"
  ra_labels :: "string list option"
  ra_maxSlots :: "int option"

definition new_machine :: "registration_args \<Rightarrow> string \<Rightarrow> string list \<Rightarrow> string \<Rightarrow> machine" where
  "new_machine args name labels token =
     (let defaultSlots = resourceRecommendedSlots (ra_os args) (ra_cpus args) (ra_memoryMiB args)
      in \<lparr>mc_name = name, mc_os = ra_os args, mc_labels = labels, mc_arch = Some (ra_arch args),
          mc_cpus = Some (ra_cpus args), mc_memoryMiB = ra_memoryMiB args,
          mc_slotPolicy = Some (if ra_maxSlots args = None then AutoSlots else FixedSlots),
          mc_configuredSlots = ra_maxSlots args, mc_resourceRecommendedSlots = Some defaultSlots,
          mc_recommendedSlots = Some defaultSlots, mc_benchmark = None,
          mc_maxSlots = or_else (ra_maxSlots args) defaultSlots, mc_usedSlots = 0, mc_lastSeen = 0, mc_token = token\<rparr>)"

definition registerAgent ::
  "int \<Rightarrow> (nat \<Rightarrow> nat list) \<Rightarrow> registration_args \<Rightarrow> db \<Rightarrow> (string reply \<times> db) res option" where
  "registerAgent now bytes args d =
     (case db_unique (db_query (\<lambda>t. rk_token t = ra_registrationToken args) (d_registrationTokens d)) of
        Inl e \<Rightarrow> Some (Inl e)
      | Inr None \<Rightarrow> Some (Inr (RefusedWith 401 ''Invalid registration token'', d))
      | Inr (Some (r, registration)) \<Rightarrow>
          if rk_usedAt registration \<noteq> None
          then Some (Inr (RefusedWith 409 ''Registration token has already been used'', d))
          else if now - rk_createdAt registration \<ge> REGISTRATION_TOKEN_TTL_MS
          then Some (Inr (RefusedWith 410 ''Registration token has expired'', d))
          else case normalizeHostLabels (map AString (or_else (ra_labels args) [])) of
            Inl err \<Rightarrow> Some (Inr (RefusedWith 400 err, d))
          | Inr labels \<Rightarrow>
              let name = free_name (sanitizeMachineName (ra_name args)) d in
              map_option (\<lambda>drawn. res_bind drawn (\<lambda>machineToken.
                  Inr (Accepted machineToken,
                       d\<lparr>d_registrationTokens := db_patch (d_registrationTokens d) r (\<lambda>t. t\<lparr>rk_usedAt := Some now\<rparr>),
                         d_machines := db_insert (d_machines d) (d_nextId d) (new_machine args name labels machineToken),
                         d_nextId := Suc (d_nextId d)\<rparr>)))
                (draw_free (\<lambda>k. randomHex 32 (bytes k)) (machine_token_taken d) 0))"

section \<open>Capacity\<close>

definition hasCapacity :: "int \<Rightarrow> string list \<Rightarrow> db \<Rightarrow> bool" where
  "hasCapacity now labels d =
     (let eligible = filter (\<lambda>x. selectImageForMachine labels (mc_os (snd x)) (mc_labels (snd x)) \<noteq> None)
            (sort_key (\<lambda>x. mc_lastSeen (snd x)) (online_machines now d));
          freeSlots = sum_list (map (\<lambda>x. max 0 (mc_maxSlots (snd x) - mc_usedSlots (snd x))) eligible);
          backlog = length (filter (\<lambda>j. list_ex (\<lambda>x. selectImageForMachine (jb_labels (snd j)) (mc_os (snd x)) (mc_labels (snd x)) \<noteq> None) eligible)
            (jobs_with JobQueued d))
      in freeSlots > int backlog)"

section \<open>The operator\<close>

definition setMachineMaxSlots :: "nat \<Rightarrow> js_number \<Rightarrow> db \<Rightarrow> db res" where
  "setMachineMaxSlots machineId maxSlots d =
     throw_if (\<not> is_integer maxSlots \<or> num_val maxSlots < 1 \<or> num_val maxSlots > 128)
       (PlainError ''maxSlots must be an integer between 1 and 128'')
     (case db_get (d_machines d) machineId of
        None \<Rightarrow> Inl (PlainError ''Machine not found'')
      | Some machine \<Rightarrow>
          throw_if (int_val maxSlots < mc_usedSlots machine)
            (PlainError (''maxSlots cannot be lower than the machine'' @ [CHR 0x27] @ ''s '' @ show_int (mc_usedSlots machine) @ '' active slot(s)''))
          (Inr (runAfter (LegacyTryAssign 0)
            (patch_machine machineId (\<lambda>m. m\<lparr>mc_slotPolicy := Some FixedSlots, mc_configuredSlots := Some (int_val maxSlots),
               mc_maxSlots := int_val maxSlots\<rparr>) d))))"

definition delete_machine :: "nat \<Rightarrow> db \<Rightarrow> db" where
  "delete_machine i d = d\<lparr>d_machines := db_delete (d_machines d) i\<rparr>"

definition discard_of_machine :: "int \<Rightarrow> nat \<Rightarrow> command_status \<Rightarrow> db \<Rightarrow> db" where
  "discard_of_machine now machineId status d =
     fold (\<lambda>c d. discardCommand now c (db_get (d_jobs d) (cm_jobId (snd c))) d) (commands_of_machine machineId status d) d"

definition deleteMachine :: "int \<Rightarrow> nat \<Rightarrow> db \<Rightarrow> db res" where
  "deleteMachine now machineId d =
     (let d1 = fold (discard_of_machine now machineId) [CmdPending, CmdClaimed, CmdCancelled, CmdFinished] d
      in case db_get (d_machines d1) machineId of
           None \<Rightarrow> Inl (PlainError ''Delete on nonexistent document ID'')
         | Some _ \<Rightarrow> Inr (runAfter DrainRunnerDeletions (delete_machine machineId d1)))"


section \<open>Names\<close>

lemma dash_runs_chars: "list_all name_char (dash_runs b s)"
  by (induction b s rule: dash_runs.induct) (auto simp: name_char_def)

lemma strip_dashes_subset: "set (strip_dashes s) \<subseteq> set s"
  by (fastforce simp: strip_dashes_def dest: set_dropWhileD)


lemma free_suffix_free: "free_suffix base names k \<notin> set names"
proof (induction base names k rule: free_suffix.induct)
  case (1 base names k)
  then show ?case by (subst free_suffix.simps) simp
qed

lemma free_name_free: "free_name base d \<notin> set (map (\<lambda>x. mc_name (snd x)) (d_machines d))"
  by (simp add: free_name_def Let_def free_suffix_free del: set_map)

section \<open>Drawing a token\<close>

lemma draw_free_Some:
  assumes "draw_free draw taken k = Some (Inr token)"
  shows "taken token = Inr False \<and> (\<exists>j. token = draw j)"
proof -
  let ?P = "\<lambda>(draw :: nat \<Rightarrow> string) (taken :: string \<Rightarrow> bool res) (k :: nat) (r :: string res).
    \<forall>token. r = Inr token \<longrightarrow> taken token = Inr False \<and> (\<exists>j. token = draw j)"
  have "?P draw taken k (Inr token)"
    by (rule draw_free.raw_induct [where P = ?P, OF _ assms]) (auto split: sum.split_asm if_split_asm)
  then show ?thesis by blast
qed

text \<open>
  The loop ends when the draws do not repeat: \<open>n\<close> taken strings cannot meet \<open>n + 1\<close> different draws.
\<close>

lemma draw_free_ends:
  assumes "\<And>j. k \<le> j \<Longrightarrow> j \<le> n \<Longrightarrow> \<exists>b. taken (draw j) = Inr b" "k \<le> n" "taken (draw n) = Inr False"
  shows "\<exists>token. draw_free draw taken k = Some (Inr token)"
  using assms
proof (induction "n - k" arbitrary: k)
  case 0
  then have "k = n" by simp
  then show ?case using 0 by (subst draw_free.simps) simp
next
  case (Suc i)
  from Suc.prems(1) [of k] Suc.prems(2) obtain b where b: "taken (draw k) = Inr b" by blast
  show ?case
  proof (cases b)
    case True
    have "\<exists>token. draw_free draw taken (Suc k) = Some (Inr token)"
      by (rule Suc.hyps(1)) (use Suc.hyps(2) Suc.prems in auto)
    then show ?thesis using b True by (subst draw_free.simps) simp
  next
    case False
    then show ?thesis using b by (subst draw_free.simps) simp
  qed
qed

lemma machine_token_taken_iff:
  assumes "distinct (map (\<lambda>x. mc_token (snd x)) (d_machines d))"
  shows "machine_token_taken d token = Inr (token \<in> set (map (\<lambda>x. mc_token (snd x)) (d_machines d)))"
proof -
  obtain r where r: "db_unique (db_query (\<lambda>m. mc_token m = token) (d_machines d)) = Inr r"
    using db_unique_distinct [OF assms] by blast
  have "r \<noteq> None \<longleftrightarrow> token \<in> set (map (\<lambda>x. mc_token (snd x)) (d_machines d))"
  proof (cases r)
    case None
    then show ?thesis using r by (auto simp: db_unique_None db_query_def filter_empty_conv)
  next
    case (Some x)
    then have "x \<in> set (db_query (\<lambda>m. mc_token m = token) (d_machines d))" using r by (simp add: db_unique_Some)
    then show ?thesis using Some by (force simp: db_query_def)
  qed
  then show ?thesis by (simp add: machine_token_taken_def r)
qed

lemma free_draw_exists:
  assumes "inj_on draw {..length ts}"
  shows "\<exists>n \<le> length ts. draw n \<notin> set ts"
proof (rule ccontr)
  assume "\<not> ?thesis"
  then have "draw ` {..length ts} \<subseteq> set ts" by auto
  then have "card (draw ` {..length ts}) \<le> card (set ts)" by (intro card_mono) auto
  then show False using card_image [OF assms] card_length [of ts] by simp
qed

definition tokens_ok :: "db \<Rightarrow> bool" where
  "tokens_ok d \<longleftrightarrow> distinct (map (\<lambda>x. rk_token (snd x)) (d_registrationTokens d)) \<and>
     distinct (map (\<lambda>x. mc_token (snd x)) (d_machines d)) \<and> distinct (map (\<lambda>x. mc_name (snd x)) (d_machines d)) \<and>
     db_wf (d_registrationTokens d)"

text \<open>C16: Registration returns: if the random source does not repeat itself within as many draws as there are
  Workers, plus one, the loops that look for a free name and a free token end and the call answers.\<close>

theorem registerAgent_returns:
  assumes "tokens_ok d" "inj_on (\<lambda>k. randomHex 32 (bytes k)) {..length (d_machines d)}"
  shows "\<exists>reply d'. registerAgent now bytes args d = Some (Inr (reply, d'))"
proof -
  let ?ts = "map (\<lambda>x. mc_token (snd x)) (d_machines d)"
  let ?draw = "\<lambda>k. randomHex 32 (bytes k)"
  have taken: "machine_token_taken d t = Inr (t \<in> set ?ts)" for t
    by (rule machine_token_taken_iff) (use assms(1) in \<open>simp add: tokens_ok_def\<close>)
  obtain n where n: "n \<le> length ?ts" "?draw n \<notin> set ?ts" using free_draw_exists [of ?draw ?ts] assms(2) by auto
  have "\<exists>token. draw_free ?draw (machine_token_taken d) 0 = Some (Inr token)"
    by (rule draw_free_ends [of 0 n]) (use taken n(2) in simp_all)
  moreover have "\<exists>r. db_unique (db_query (\<lambda>t. rk_token t = ra_registrationToken args) (d_registrationTokens d)) = Inr r"
    by (rule db_unique_distinct) (use assms(1) in \<open>simp add: tokens_ok_def\<close>)
  ultimately show ?thesis
    by (auto simp: registerAgent_def Let_def split: option.split sum.split)
qed


text \<open>No work refers to a Worker that does not exist yet.\<close>

definition refs_ok :: "db \<Rightarrow> bool" where
  "refs_ok d \<longleftrightarrow> (\<forall>m. placed m d \<longrightarrow> m < d_nextId d)"

lemma registerAgent_cases:
  assumes "registerAgent now bytes args d = Some (Inr (Accepted token, d'))"
  obtains r registration labels where
    "db_query (\<lambda>t. rk_token t = ra_registrationToken args) (d_registrationTokens d) = [(r, registration)]"
    "rk_usedAt registration = None" "now - rk_createdAt registration < REGISTRATION_TOKEN_TTL_MS"
    "machine_token_taken d token = Inr False"
    "d' = d\<lparr>d_registrationTokens := db_patch (d_registrationTokens d) r (\<lambda>t. t\<lparr>rk_usedAt := Some now\<rparr>),
       d_machines := db_insert (d_machines d) (d_nextId d)
         (new_machine args (free_name (sanitizeMachineName (ra_name args)) d) labels token), d_nextId := Suc (d_nextId d)\<rparr>"
proof -
  obtain r registration where r: "db_unique (db_query (\<lambda>t. rk_token t = ra_registrationToken args) (d_registrationTokens d)) =
      Inr (Some (r, registration))"
    "rk_usedAt registration = None" "\<not> now - rk_createdAt registration \<ge> REGISTRATION_TOKEN_TTL_MS"
    using assms by (auto simp: registerAgent_def split: sum.split_asm option.split_asm if_split_asm)
  obtain labels where labels: "normalizeHostLabels (map AString (or_else (ra_labels args) [])) = Inr labels"
    using assms r by (auto simp: registerAgent_def split: sum.split_asm)
  obtain drawn where drawn: "draw_free (\<lambda>k. randomHex 32 (bytes k)) (machine_token_taken d) 0 = Some drawn"
    using assms r labels by (auto simp: registerAgent_def Let_def)
  then have "drawn = Inr token" "d' = d\<lparr>d_registrationTokens := db_patch (d_registrationTokens d) r (\<lambda>t. t\<lparr>rk_usedAt := Some now\<rparr>),
       d_machines := db_insert (d_machines d) (d_nextId d)
         (new_machine args (free_name (sanitizeMachineName (ra_name args)) d) labels token), d_nextId := Suc (d_nextId d)\<rparr>"
    using assms r labels by (auto simp: registerAgent_def Let_def elim!: res_bind_InrE)
  with drawn draw_free_Some [of "\<lambda>k. randomHex 32 (bytes k)" "machine_token_taken d" 0 token] r show ?thesis
    by (intro that) (auto simp: db_unique_Some)
qed

lemma state_ok_new_machine:
  assumes "state_ok d" "refs_ok d" "mc_usedSlots machine = 0" and d': "d_machines d' = db_insert (d_machines d) (d_nextId d) machine"
    "d_nextId d' = Suc (d_nextId d)" "d_attempts d' = d_attempts d" "d_experiments d' = d_experiments d"
    "d_jobs d' = d_jobs d" "d_attemptSecrets d' = d_attemptSecrets d" "d_profiles d' = d_profiles d"
  shows "state_ok d'"
proof -
  have wf: "db_wf (d_machines d)" "ids_below (d_nextId d) (d_machines d)" "db_ok d"
    using assms(1) by (simp_all add: state_ok_def db_ok_def fresh_ok_split)
  have work: "work_on m d' = work_on m d" for m by (rule work_on_cong) (simp_all add: d')
  have "work_on (d_nextId d) d = 0" using assms(2) by (intro work_on_unplaced [OF wf(3)]) (auto simp: refs_ok_def)
  moreover have dbd: "db_ok d'" using assms(1) wf by (simp add: state_ok_def db_ok_def d')
  ultimately have "slots_ok d'"
    using assms(1,3) wf by (auto simp: state_ok_def slots_ok_iff work d')
  then show ?thesis
    using assms(1) dbd
    by (auto simp: state_ok_def d' attempts_ok_def names_ok_def secrets_ok_def secret_live_def profiles_ok_def fresh_ok_split)
qed

lemma registerAgent_accepted:
  assumes ok: "state_ok d" "tokens_ok d" "refs_ok d"
    and run: "registerAgent now bytes args d = Some (Inr (Accepted token, d'))"
  shows "state_ok d' \<and> tokens_ok d' \<and> refs_ok d' \<and>
    (\<exists>machine. db_get (d_machines d') (d_nextId d) = Some machine \<and> mc_token machine = token \<and> mc_usedSlots machine = 0) \<and>
    registerAgent now2 bytes2 args d' = Some (Inr (RefusedWith 409 ''Registration token has already been used'', d'))"
  using run
proof (cases rule: registerAgent_cases)
  case (1 r registration labels)
  let ?name = "free_name (sanitizeMachineName (ra_name args)) d"
  let ?machine = "new_machine args ?name labels token"
  have row: "db_get (d_registrationTokens d) r = Some registration" "rk_token registration = ra_registrationToken args"
  proof -
    have "(r, registration) \<in> set (db_query (\<lambda>t. rk_token t = ra_registrationToken args) (d_registrationTokens d))"
      by (simp add: 1(1))
    then show "db_get (d_registrationTokens d) r = Some registration" "rk_token registration = ra_registrationToken args"
      using ok(2) by (auto simp: db_query_iff tokens_ok_def db_wf_get_iff)
  qed
  have fields: "mc_usedSlots ?machine = 0" "mc_token ?machine = token" "mc_name ?machine = ?name"
    by (simp_all add: new_machine_def Let_def)
  have below: "ids_below (d_nextId d) (d_machines d)" using ok(1) by (simp add: state_ok_def fresh_ok_split)
  have st: "state_ok d'"
    by (rule state_ok_new_machine [OF ok(1,3) fields(1)]) (simp_all add: 1(5))
  have "token \<notin> set (map (\<lambda>x. mc_token (snd x)) (d_machines d))"
    using 1(4) ok(2) by (simp add: machine_token_taken_iff tokens_ok_def)
  moreover have "map (\<lambda>x. rk_token (snd x)) (db_patch (d_registrationTokens d) r (\<lambda>t. t\<lparr>rk_usedAt := Some now\<rparr>)) =
      map (\<lambda>x. rk_token (snd x)) (d_registrationTokens d)" by (rule map_db_patch_same) simp
  ultimately have tok: "tokens_ok d'"
    using ok(2) free_name_free [of "sanitizeMachineName (ra_name args)" d]
    by (simp add: tokens_ok_def 1(5) fields db_insert_def)
  have refs: "refs_ok d'" using ok(3) by (auto simp: refs_ok_def placed_def 1(5) less_Suc_eq)
  have used: "db_get (d_registrationTokens d') r = Some (registration\<lparr>rk_usedAt := Some now\<rparr>)" using row by (simp add: 1(5))
  have "db_query (\<lambda>t. rk_token t = ra_registrationToken args) (d_registrationTokens d') = [(r, registration\<lparr>rk_usedAt := Some now\<rparr>)]"
    unfolding db_query_def
    using filter_length_1_distinct [of "\<lambda>x. rk_token (snd x)" "d_registrationTokens d'" "(r, registration\<lparr>rk_usedAt := Some now\<rparr>)" "ra_registrationToken args"]
      tok db_get_in_set [OF used] row(2) by (simp add: tokens_ok_def)
  then have "registerAgent now2 bytes2 args d' = Some (Inr (RefusedWith 409 ''Registration token has already been used'', d'))"
    by (simp add: registerAgent_def db_unique_def)
  moreover have "db_get (d_machines d') (d_nextId d) = Some ?machine" using below by (simp add: 1(5))
  ultimately show ?thesis using st tok refs fields by blast
qed


lemma positive_summand: "sum_list (map f xs) > 0 \<Longrightarrow> \<exists>x \<in> set xs. f x > (0 :: int)"
proof (induction xs)
  case (Cons x xs)
  then show ?case by (cases "f x > 0") auto
qed simp

text \<open>The capacity probe is sound: a positive answer means that a Worker which reports, and whose image
  catalog serves the labels, has a free slot.\<close>

lemma hasCapacity_sound:
  assumes "hasCapacity now labels d"
  shows "\<exists>(i, m) \<in> set (online_machines now d). mc_usedSlots m < mc_maxSlots m \<and>
    selectImageForMachine labels (mc_os m) (mc_labels m) \<noteq> None"
proof -
  let ?e = "filter (\<lambda>x. selectImageForMachine labels (mc_os (snd x)) (mc_labels (snd x)) \<noteq> None)
    (sort_key (\<lambda>x. mc_lastSeen (snd x)) (online_machines now d))"
  let ?free = "\<lambda>x. max 0 (mc_maxSlots (snd x) - mc_usedSlots (snd x))"
  have "sum_list (map ?free ?e) > 0"
    using assms by (simp add: hasCapacity_def Let_def)
  then obtain x where "x \<in> set ?e" "?free x > 0" using positive_summand by blast
  then show ?thesis by (intro bexI [of _ x]) (auto split: prod.split)
qed


section \<open>A removed label takes effect at once\<close>

text \<open>An idle Attempt may stay on the Worker \<open>m\<close> that carries \<open>labels\<close>: it is being retired, or its Profile's pin is met.\<close>

definition pin_met :: "db \<Rightarrow> string list \<Rightarrow> string \<Rightarrow> bool" where
  "pin_met d labels profile \<longleftrightarrow> (\<forall>p. profile_named profile d = Inr (Some p) \<longrightarrow>
     missingHostLabels (pf_workerLabels p) (Some labels) = [])"

definition may_stay :: "db \<Rightarrow> nat \<Rightarrow> string list \<Rightarrow> attempt \<Rightarrow> bool" where
  "may_stay d m labels a \<longleftrightarrow> at_machineId a \<noteq> Some m \<or> at_retirement a \<noteq> None \<or> pin_met d labels (at_profile a)"

lemma retireIfOffPin_row:
  assumes ok: "state_ok d" and row: "db_get (d_attempts d) i = Some a"
    and idle: "at_state a \<in> set IDLE_STATES" and p: "profile_named (at_profile a) d = Inr p"
    and run: "retireIfOffPin now (i, a) p (Some machine) (tally, d) = Inr (tally', d')"
  shows "\<exists>b. db_get (d_attempts d') i = Some b \<and> at_state b = at_state a \<and> may_stay d m (mc_labels machine) b"
proof (cases "\<exists>p'. p = Some p' \<and> missingHostLabels (pf_workerLabels p') (Some (mc_labels machine)) \<noteq> []")
  case False
  then have "d' = d" using run by (cases p) (auto simp: retireIfOffPin_def Let_def)
  then show ?thesis using False row p by (auto simp: may_stay_def pin_met_def)
next
  case True
  then obtain p' where p': "p = Some p'" "missingHostLabels (pf_workerLabels p') (Some (mc_labels machine)) \<noteq> []" by blast
  show ?thesis
  proof (cases "at_state a = APending")
    case pending: True
    then have "d' = patch_attempt i (\<lambda>a. a\<lparr>at_machineId := None, at_selectionReason := None\<rparr>) (releaseAttemptSlot a d)"
      using run p' by (simp add: retireIfOffPin_def Let_def)
    then show ?thesis using row by (simp add: may_stay_def releaseAttemptSlot_def)
  next
    case False
    then have online: "runnerMayBeOnline (at_state a)" using idle by (auto simp: IDLE_STATES_def)
    show ?thesis
    proof (cases "at_retirement a")
      case None
      then show ?thesis using run p' False row online secret_deleted [OF ok, of i]
        by (auto simp: retireIfOffPin_def Let_def retireAttempt_def may_stay_def)
    next
      case (Some r)
      then show ?thesis using run p' False row online
        by (auto simp: retireIfOffPin_def Let_def retireAttempt_def may_stay_def)
    qed
  qed
qed

lemma off_pin_on_worker_rows:
  assumes st: "state \<in> set IDLE_STATES" and ok: "state_ok (snd st)"
  shows "\<exists>st'. off_pin_on_worker now (m, machine) state st = Inr st' \<and> state_ok (snd st') \<and>
    d_profiles (snd st') = d_profiles (snd st) \<and>
    (\<forall>i b. db_get (d_attempts (snd st')) i = Some b \<longrightarrow>
       (at_state b = state \<and> may_stay (snd st) m (mc_labels machine) b) \<or>
       db_get (d_attempts (snd st)) i = Some b \<and> \<not> (at_machineId b = Some m \<and> at_state b = state))"
proof -
  let ?docs = "db_query (\<lambda>a. at_machineId a = Some m \<and> at_state a = state) (d_attempts (snd st))"
  let ?f = "\<lambda>doc st. res_bind (profile_named (at_profile (snd doc)) (snd st)) (\<lambda>p. retireIfOffPin now doc p (Some machine) st)"
  let ?I = "\<lambda>s :: pin_retirement \<times> db. state_ok (snd s) \<and> d_profiles (snd s) = d_profiles (snd st)"
  let ?P = "\<lambda>(i :: nat) (a :: attempt) r. \<exists>b. r = Some b \<and> at_state b = state \<and> may_stay (snd st) m (mc_labels machine) b"
  have wf: "db_wf (d_attempts (snd st))" using ok by (simp add: state_ok_def db_ok_def)
  have "\<exists>s'. res_fold ?f ?docs st = Inr s' \<and> ?I s' \<and> (\<forall>(i, a) \<in> set ?docs. ?P i a (db_get (d_attempts (snd s')) i)) \<and>
      (\<forall>j. j \<notin> set (map fst ?docs) \<longrightarrow> db_get (d_attempts (snd s')) j = db_get (d_attempts (snd st)) j)"
  proof (rule res_fold_rows_at [where tab = "\<lambda>s. d_attempts (snd s)" and I = ?I and P = ?P])
    show "distinct (map fst ?docs)" "\<forall>(i, a) \<in> set ?docs. db_get (d_attempts (snd st)) i = Some a"
      using query_rows [OF wf] by auto
    show "?I st" using ok by simp
    fix i a and s :: "pin_retirement \<times> db"
    assume ia: "(i, a) \<in> set ?docs" and I: "?I s" and row: "db_get (d_attempts (snd s)) i = Some a"
    then have idle: "at_state a \<in> set IDLE_STATES" "at_machineId a \<noteq> None" "at_state a = state" using st by (auto simp: db_query_iff)
    have oks: "state_ok (snd s)" using I by simp
    then obtain p where p: "profile_named (at_profile a) (snd s) = Inr p"
      using profile_named_ok [of "snd s" "at_profile a"] by (auto simp: state_ok_def)
    obtain tally' d' where r: "retireIfOffPin now (i, a) p (Some machine) s = Inr (tally', d')" "state_ok d'"
        "d_profiles d' = d_profiles (snd s)" "\<forall>j. j \<noteq> i \<longrightarrow> db_get (d_attempts d') j = db_get (d_attempts (snd s)) j"
      using retireIfOffPin_ok [OF oks row idle(1,2), of now p "Some machine" "fst s"] by auto
    obtain b where b: "db_get (d_attempts d') i = Some b" "at_state b = state" "may_stay (snd s) m (mc_labels machine) b"
      using retireIfOffPin_row [OF oks row idle(1) p, of now machine "fst s" tally' d' m] r(1) idle(3) by auto
    have "may_stay (snd st) m (mc_labels machine) b"
      using b(3) I by (simp add: may_stay_def pin_met_def profile_named_def)
    then show "\<exists>s'. ?f (i, a) s = Inr s' \<and> ?I s' \<and> ?P i a (db_get (d_attempts (snd s')) i) \<and>
        (\<forall>j. j \<noteq> i \<longrightarrow> db_get (d_attempts (snd s')) j = db_get (d_attempts (snd s)) j)"
      using r b I by (simp add: p)
  qed
  then obtain s' where s': "res_fold ?f ?docs st = Inr s'" "?I s'" "\<forall>(i, a) \<in> set ?docs. ?P i a (db_get (d_attempts (snd s')) i)"
      "\<forall>j. j \<notin> set (map fst ?docs) \<longrightarrow> db_get (d_attempts (snd s')) j = db_get (d_attempts (snd st)) j" by blast
  have "(at_state b = state \<and> may_stay (snd st) m (mc_labels machine) b) \<or>
      db_get (d_attempts (snd st)) i = Some b \<and> \<not> (at_machineId b = Some m \<and> at_state b = state)"
    if b: "db_get (d_attempts (snd s')) i = Some b" for i b
  proof (cases "i \<in> set (map fst ?docs)")
    case True
    then obtain a where "(i, a) \<in> set ?docs" by auto
    with s'(3) have "?P i a (db_get (d_attempts (snd s')) i)" by blast
    then show ?thesis using b by auto
  next
    case False
    then have same: "db_get (d_attempts (snd st)) i = Some b" using s'(4) b by simp
    have "(i, b) \<notin> set ?docs"
    proof
      assume "(i, b) \<in> set ?docs"
      then have "fst (i, b) \<in> set (map fst ?docs)" unfolding set_map by (rule imageI)
      with False show False by simp
    qed
    then show ?thesis using same db_get_in_set [OF same] by (auto simp: db_query_iff)
  qed
  then show ?thesis using s'(1,2) by (simp add: off_pin_on_worker_def)
qed


lemma retireOffPinOnWorker_rows:
  assumes ok: "state_ok d"
  shows "\<exists>st'. retireOffPinOnWorker now (m, machine) d = Inr st' \<and> state_ok (snd st') \<and>
    d_profiles (snd st') = d_profiles d \<and>
    (\<forall>i b. db_get (d_attempts (snd st')) i = Some b \<longrightarrow> at_state b \<in> set IDLE_STATES \<longrightarrow> may_stay d m (mc_labels machine) b)"
proof -
  let ?stay = "may_stay d m (mc_labels machine)"
  have pin: "may_stay e m (mc_labels machine) = ?stay" if "d_profiles e = d_profiles d" for e
    using that by (auto simp: may_stay_def pin_met_def profile_named_def fun_eq_iff)
  have "\<exists>st'. res_fold (off_pin_on_worker now (m, machine)) states st = Inr st' \<and> state_ok (snd st') \<and>
      d_profiles (snd st') = d_profiles d \<and>
      (\<forall>i b. db_get (d_attempts (snd st')) i = Some b \<longrightarrow> at_state b \<in> seen \<union> set states \<longrightarrow> ?stay b)"
    if "set states \<subseteq> set IDLE_STATES" "state_ok (snd st)" "d_profiles (snd st) = d_profiles d"
      "\<forall>i b. db_get (d_attempts (snd st)) i = Some b \<longrightarrow> at_state b \<in> seen \<longrightarrow> ?stay b" for states seen and st :: "pin_retirement \<times> db"
    using that
  proof (induction states arbitrary: st seen)
    case (Cons state states)
    from off_pin_on_worker_rows [of state st now m machine] Cons.prems
    obtain st1 where st1: "off_pin_on_worker now (m, machine) state st = Inr st1" "state_ok (snd st1)"
      "d_profiles (snd st1) = d_profiles d"
      "\<forall>i b. db_get (d_attempts (snd st1)) i = Some b \<longrightarrow> (at_state b = state \<and> may_stay (snd st) m (mc_labels machine) b) \<or>
         db_get (d_attempts (snd st)) i = Some b \<and> \<not> (at_machineId b = Some m \<and> at_state b = state)" by auto
    have "?stay b" if "db_get (d_attempts (snd st1)) i = Some b" "at_state b \<in> insert state seen" for i b
    proof -
      from st1(4) that(1) consider "may_stay (snd st) m (mc_labels machine) b"
        | "db_get (d_attempts (snd st)) i = Some b" "\<not> (at_machineId b = Some m \<and> at_state b = state)" by blast
      then show ?thesis
      proof cases
        case 1
        then show ?thesis by (simp add: pin [OF Cons.prems(3)])
      next
        case 2
        then show ?thesis using that(2) Cons.prems(4) by (auto simp: may_stay_def)
      qed
    qed
    then have "\<exists>st'. res_fold (off_pin_on_worker now (m, machine)) states st1 = Inr st' \<and> state_ok (snd st') \<and>
        d_profiles (snd st') = d_profiles d \<and>
        (\<forall>i b. db_get (d_attempts (snd st')) i = Some b \<longrightarrow> at_state b \<in> insert state seen \<union> set states \<longrightarrow> ?stay b)"
      using Cons.prems(1) st1(2,3) by (intro Cons.IH) auto
    then show ?case by (simp add: st1(1))
  qed simp
  from this [of IDLE_STATES "(no_pin_retirement, d)" "{}"] ok show ?thesis
    by (simp add: retireOffPinOnWorker_def)
qed

lemma setLabels_pins:
  assumes ok: "state_ok d" and run: "setLabels now name labels d = Inr (Accepted r, d')"
  shows "state_ok d' \<and> (\<exists>m. db_unique (db_query (\<lambda>x. mc_name x = name) (d_machines d)) = Inr (Some m) \<and>
    (\<forall>i a. db_get (d_attempts d') i = Some a \<longrightarrow> at_state a \<in> set IDLE_STATES \<longrightarrow> may_stay d (fst m) (ls_labels r) a))"
proof -
  obtain normalized where n: "normalizeHostLabels (map AString labels) = Inr normalized"
    using run by (auto simp: setLabels_def split: sum.split_asm)
  obtain m machine where m: "db_unique (db_query (\<lambda>x. mc_name x = name) (d_machines d)) = Inr (Some (m, machine))"
    using run by (auto simp: setLabels_def n split: option.split_asm elim!: res_bind_InrE)
  let ?d1 = "patch_machine m (\<lambda>x. x\<lparr>mc_labels := normalized\<rparr>) d"
  let ?machine = "machine\<lparr>mc_labels := normalized\<rparr>"
  have ok1: "state_ok ?d1" using ok by (rule state_ok_patch_machine) simp
  from retireOffPinOnWorker_rows [OF ok1, of now m ?machine] obtain retired d2 where
    d2: "retireOffPinOnWorker now (m, ?machine) ?d1 = Inr (retired, d2)" "state_ok d2"
      "\<forall>i b. db_get (d_attempts d2) i = Some b \<longrightarrow> at_state b \<in> set IDLE_STATES \<longrightarrow> may_stay ?d1 m (mc_labels ?machine) b"
    by auto
  have "d' = runAfter AttemptTryAssign d2" "ls_labels r = normalized" using run by (auto simp: setLabels_def n m d2(1))
  moreover have "may_stay ?d1 m normalized b = may_stay d m normalized b" for b
    by (simp add: may_stay_def pin_met_def profile_named_def)
  ultimately show ?thesis using d2(2,3) m by auto
qed

text \<open>C14: A removed label takes effect at once: after an operator replaced a Worker's labels, the invariant holds
  and no idle Attempt stays on the Worker unless it is being retired or its Profile's pin is met by the new labels.\<close>

theorem setLabels_enforces_pins:
  assumes ok: "state_ok d" and run: "setLabels now name labels d = Inr (Accepted r, d')"
  shows "state_ok d' \<and> (\<exists>m. db_unique (db_query (\<lambda>x. mc_name x = name) (d_machines d)) = Inr (Some m) \<and>
    (\<forall>i a. db_get (d_attempts d') i = Some a \<longrightarrow> at_state a \<in> set IDLE_STATES \<longrightarrow> may_stay d (fst m) (ls_labels r) a))"
  using assms by (rule setLabels_pins)


section \<open>The operator's mutations keep the invariant\<close>

lemma setMachineMaxSlots_ok:
  assumes "state_ok d" "setMachineMaxSlots i n d = Inr d'"
  shows "state_ok d'"
  using assms(2)
  by (auto simp: setMachineMaxSlots_def throw_if_def split: if_split_asm option.split_asm
      intro!: state_ok_patch_machine [OF assms(1)])

lemma discard_of_machine_frame:
  assumes "state_ok d"
  shows "state_ok (discard_of_machine now m status d)"
  unfolding discard_of_machine_def
proof (rule fold_frame [where I = state_ok, OF assms])
  fix c e assume "state_ok e"
  then show "state_ok (discardCommand now c (db_get (d_jobs e) (cm_jobId (snd c))) e)"
    by (rule state_ok_frame) (simp_all add: discardCommand_def enqueueRunnerDeletion_def insert_deletion_def split: option.split)
qed

lemma deleteMachine_ok:
  assumes "state_ok d" "deleteMachine now m d = Inr d'"
  shows "state_ok d'"
proof -
  let ?d1 = "fold (discard_of_machine now m) [CmdPending, CmdClaimed, CmdCancelled, CmdFinished] d"
  have ok: "state_ok ?d1" by (rule fold_frame [where I = state_ok, OF assms(1)]) (rule discard_of_machine_frame)
  have d': "d' = runAfter DrainRunnerDeletions (delete_machine m ?d1)"
    using assms(2) by (auto simp: deleteMachine_def Let_def split: option.split_asm)
  have "work_on k (delete_machine m ?d1) = work_on k ?d1" for k by (rule work_on_cong) (simp_all add: delete_machine_def)
  then have "slots_ok (delete_machine m ?d1)"
    using ok by (auto simp: state_ok_def slots_ok_def delete_machine_def db_delete_def)
  then have "state_ok (delete_machine m ?d1)"
    using ok by (simp add: state_ok_def db_ok_def attempts_ok_def names_ok_def secrets_ok_def secret_live_def profiles_ok_def
        fresh_ok_split delete_machine_def del: fold_simps)
  then show ?thesis by (simp add: d' del: fold_simps)
qed

section \<open>Witnesses\<close>

definition sample_bytes :: "nat \<Rightarrow> nat list" where
  "sample_bytes k = replicate 15 7 @ [k]"

definition joining_db :: db where
  "joining_db = sample_db\<lparr>d_registrationTokens := [(6, \<lparr>rk_token = ''rcreg_1'', rk_createdAt = 1000, rk_usedAt = None\<rparr>)], d_nextId := 7\<rparr>"

definition sample_args :: registration_args where
  "sample_args = \<lparr>ra_registrationToken = ''rcreg_1'', ra_name = ''w'', ra_os = Linux, ra_arch = ''x64'', ra_cpus = 8,
     ra_memoryMiB = None, ra_labels = None, ra_maxSlots = None\<rparr>"

lemma sample_draw_0: "draw_free (\<lambda>k. randomHex 32 (sample_bytes k)) (machine_token_taken joining_db) 0 =
    Some (Inr (randomHex 32 (sample_bytes 0)))"
proof -
  have "machine_token_taken joining_db (randomHex 32 (sample_bytes 0)) = Inr False" by code_simp
  then show ?thesis by (subst draw_free.simps) simp
qed

theorem registerAgent_returns_witness:
  "\<exists>reply d'. registerAgent 2000 sample_bytes sample_args joining_db = Some (Inr (reply, d'))"
proof -
  have "tokens_ok joining_db" "map (\<lambda>k. randomHex 32 (sample_bytes k)) [0, 1] = remdups (map (\<lambda>k. randomHex 32 (sample_bytes k)) [0, 1])"
    "length (d_machines joining_db) = 1"
    by code_simp+
  moreover have "{..1 :: nat} = {0, 1}" by auto
  moreover have "randomHex 32 (sample_bytes 0) \<noteq> randomHex 32 (sample_bytes 1)" by code_simp
  ultimately show ?thesis by (intro registerAgent_returns) (simp_all del: One_nat_def)
qed


theorem setLabels_enforces_pins_witness:
  "\<exists>r d'. setLabels 2000 ''w'' [''GPU''] sample_assigned = Inr (Accepted r, d') \<and> ls_labels r = [''gpu''] \<and> state_ok d'"
proof -
  have ok: "state_ok sample_assigned" by code_simp
  have run: "(case setLabels 2000 ''w'' [''GPU''] sample_assigned of Inr (Accepted r, _) \<Rightarrow> ls_labels r | _ \<Rightarrow> []) = [''gpu'']"
    by code_simp
  then obtain r d' where "setLabels 2000 ''w'' [''GPU''] sample_assigned = Inr (Accepted r, d')" "ls_labels r = [''gpu'']"
    by (auto split: sum.split_asm reply.split_asm)
  then show ?thesis using setLabels_enforces_pins [OF ok] by blast
qed

end
