(* ===== verification/Lifecycle.thy ===== *)
theory Lifecycle
  imports Machines Refinement
begin

text \<open>
  The scale-set control plane as one state machine. A step is any of the mutations of the Controller
  API, of the Worker API, of the scheduler, of the operator and of the reconciler, with any arguments and
  at any time; a mutation that throws is no step. The lemmas show that the invariant of the tables, with
  what the mutations rely on beside it, holds in every state reachable from an empty deployment, and
  that a reconciler run restores it after any drift of the slot counts the legacy Job path leaves.
\<close>

section \<open>What the mutations rely on beside the invariant\<close>

definition machine_ref :: "nat \<Rightarrow> db \<Rightarrow> bool" where
  "machine_ref m d \<longleftrightarrow> (\<exists>x \<in> set (d_attempts d). at_machineId (snd x) = Some m) \<or>
     (\<exists>x \<in> set (d_experiments d). ex_machineId (snd x) = Some m) \<or> (\<exists>x \<in> set (d_jobs d). jb_machineId (snd x) = Some m)"

definition rest_ok :: "db \<Rightarrow> bool" where
  "rest_ok d \<longleftrightarrow> tokens_ok d \<and> egress_ok d \<and> leases_ok d \<and> (\<forall>m. machine_ref m d \<longrightarrow> m < d_nextId d) \<and>
     ids_below (d_nextId d) (d_attemptEgress d) \<and> ids_below (d_nextId d) (d_registrationTokens d)"

lemma rest_ok_refs: "rest_ok d \<Longrightarrow> refs_ok d"
  by (auto simp: rest_ok_def refs_ok_def placed_def machine_ref_def attempt_on_def experiment_on_def job_on_def)

definition machine_idents :: "db \<Rightarrow> (string \<times> string) list" where
  "machine_idents d = map (\<lambda>x. (mc_token (snd x), mc_name (snd x))) (d_machines d)"

lemma machine_idents_maps:
  assumes "machine_idents e = machine_idents d"
  shows "map (\<lambda>x. mc_token (snd x)) (d_machines e) = map (\<lambda>x. mc_token (snd x)) (d_machines d)"
    "map (\<lambda>x. mc_name (snd x)) (d_machines e) = map (\<lambda>x. mc_name (snd x)) (d_machines d)"
  using arg_cong [OF assms, of "map fst"] arg_cong [OF assms, of "map snd"]
  by (simp_all add: machine_idents_def o_def)

lemma rest_ok_frame:
  assumes "rest_ok d" "d_registrationTokens e = d_registrationTokens d" "d_attemptEgress e = d_attemptEgress d"
    "d_controllerLeases e = d_controllerLeases d" "d_nextId d \<le> d_nextId e" "machine_idents e = machine_idents d"
    "\<And>m. machine_ref m e \<Longrightarrow> machine_ref m d"
  shows "rest_ok e"
proof -
  have "leases_ok e" using assms(1,4,5) by (auto simp: rest_ok_def leases_ok_def list_all_iff intro: less_le_trans)
  moreover have "m < d_nextId e" if "machine_ref m e" for m
    using assms(1,5,7) that by (auto simp: rest_ok_def intro: less_le_trans)
  ultimately show ?thesis
    using assms(1,2,3,5) machine_idents_maps [OF assms(6)]
    by (auto simp: rest_ok_def tokens_ok_def egress_ok_def intro: ids_below_mono)
qed

lemma machine_idents_patch:
  assumes "\<And>r. mc_token (f r) = mc_token r" "\<And>r. mc_name (f r) = mc_name r"
  shows "machine_idents (patch_machine i f d) = machine_idents d"
  unfolding machine_idents_def patch_machine_tables by (rule map_db_patch_same) (simp add: assms)

lemma machine_ref_writes:
  "(\<And>a. at_machineId (fa a) = at_machineId a \<or> at_machineId (fa a) = None) \<Longrightarrow> machine_ref m (patch_attempt i fa d) \<Longrightarrow> machine_ref m d"
  "(\<And>e. ex_machineId (fe e) = ex_machineId e \<or> ex_machineId (fe e) = None) \<Longrightarrow> machine_ref m (patch_experiment i fe d) \<Longrightarrow> machine_ref m d"
  "(\<And>j. jb_machineId (fj j) = jb_machineId j \<or> jb_machineId (fj j) = None) \<Longrightarrow> machine_ref m (patch_job i fj d) \<Longrightarrow> machine_ref m d"
  "at_machineId a = None \<Longrightarrow> machine_ref m (insert_attempt a d) \<Longrightarrow> machine_ref m d"
  by (auto simp: machine_ref_def set_db_patch insert_attempt_def db_insert_def split: if_splits)
     (metis option.distinct(1) snd_conv)+

text \<open>The writes of the mutations keep it.\<close>

lemma rest_ok_writes [simp]:
  assumes "rest_ok d"
  shows "rest_ok (runAfter t d)" "rest_ok (delete_secret_row i d)" "rest_ok (insert_secret s d)"
    "rest_ok (patch_command i fc d)" "rest_ok (delete_command i d)" "rest_ok (insert_deletion rd d)"
    "rest_ok (patch_profile i fp d)" "rest_ok (insert_profile p d)" "rest_ok (drop_secret i d)"
  by (rule rest_ok_frame [OF assms]; simp add: machine_idents_def machine_ref_def runAfter_def delete_secret_row_def
      insert_secret_def patch_command_def delete_command_def insert_deletion_def patch_profile_def insert_profile_def
      drop_secret_def)+

lemma rest_ok_patch_machine [simp]:
  assumes "rest_ok d" "\<And>r. mc_token (f r) = mc_token r" "\<And>r. mc_name (f r) = mc_name r"
  shows "rest_ok (patch_machine i f d)"
  by (rule rest_ok_frame [OF assms(1)])
     (simp_all add: machine_idents_patch [OF assms(2,3)] machine_ref_def)

lemma rest_ok_patch_attempt [simp]:
  assumes "rest_ok d" "\<And>a. at_machineId (f a) = at_machineId a \<or> at_machineId (f a) = None"
  shows "rest_ok (patch_attempt i f d)"
  by (rule rest_ok_frame [OF assms(1)]) (simp_all add: machine_idents_def machine_ref_writes(1) [OF assms(2)])

lemma rest_ok_patch_experiment [simp]:
  assumes "rest_ok d" "\<And>e. ex_machineId (f e) = ex_machineId e \<or> ex_machineId (f e) = None"
  shows "rest_ok (patch_experiment i f d)"
  by (rule rest_ok_frame [OF assms(1)]) (simp_all add: machine_idents_def machine_ref_writes(2) [OF assms(2)])

lemma rest_ok_patch_job [simp]:
  assumes "rest_ok d" "\<And>j. jb_machineId (f j) = jb_machineId j \<or> jb_machineId (f j) = None"
  shows "rest_ok (patch_job i f d)"
  by (rule rest_ok_frame [OF assms(1)]) (simp_all add: machine_idents_def machine_ref_writes(3) [OF assms(2)])

lemma rest_ok_insert_attempt [simp]:
  assumes "rest_ok d" "at_machineId a = None"
  shows "rest_ok (insert_attempt a d)"
  by (rule rest_ok_frame [OF assms(1) _ _ _ _ _ machine_ref_writes(4) [OF assms(2)]])
     (simp_all add: machine_idents_def insert_attempt_def)

lemma rest_ok_release [simp]: "rest_ok d \<Longrightarrow> rest_ok (releaseMachineSlot m d)" "rest_ok d \<Longrightarrow> rest_ok (releaseAttemptSlot a d)"
  by (auto simp: releaseAttemptSlot_def releaseMachineSlot_def split: option.splits)

text \<open>Writes of tables it does not speak of.\<close>

lemma rest_ok_other:
  assumes "rest_ok d" "d_registrationTokens e = d_registrationTokens d" "d_attemptEgress e = d_attemptEgress d"
    "d_controllerLeases e = d_controllerLeases d" "d_nextId d \<le> d_nextId e" "d_machines e = d_machines d"
    "d_attempts e = d_attempts d" "d_experiments e = d_experiments d" "d_jobs e = d_jobs d"
  shows "rest_ok e"
  using assms by (intro rest_ok_frame [OF assms(1)]) (simp_all add: machine_idents_def machine_ref_def)

section \<open>Retirement and the Controller API\<close>

named_theorems rest_dest \<open>what a call that returned leaves of the rest\<close>

lemma deleteAttemptSecret_rest [rest_dest]: "deleteAttemptSecret i d = Inr d' \<Longrightarrow> rest_ok d \<Longrightarrow> rest_ok d'"
  by (auto simp: deleteAttemptSecret_def elim!: res_bind_InrE split: option.split_asm)

lemma retireAttempt_rest [rest_dest]: "retireAttempt now doc outcome reason d = Inr (b, d') \<Longrightarrow> rest_ok d \<Longrightarrow> rest_ok d'"
  by (auto simp: retireAttempt_def throw_if_Inr elim!: res_bind_InrE split: prod.split_asm if_split_asm dest!: deleteAttemptSecret_rest)

lemma finishRetirement_rest [rest_dest]: "finishRetirement now doc unconfirmed d = Inr d' \<Longrightarrow> rest_ok d \<Longrightarrow> rest_ok d'"
  by (auto simp: finishRetirement_def Let_def elim!: res_bind_InrE split: prod.split_asm option.split_asm retirement_outcome.splits
      dest!: deleteAttemptSecret_rest)

lemma cancelUnclaimedAttempt_rest [rest_dest]: "cancelUnclaimedAttempt now doc reason d = Inr d' \<Longrightarrow> rest_ok d \<Longrightarrow> rest_ok d'"
  by (auto simp: cancelUnclaimedAttempt_def throw_if_Inr elim!: res_bind_InrE split: prod.split_asm dest!: deleteAttemptSecret_rest)

lemma endIdleAttempt_rest [rest_dest]: "endIdleAttempt now doc reason d = Inr (x, d') \<Longrightarrow> rest_ok d \<Longrightarrow> rest_ok d'"
  by (auto simp: endIdleAttempt_def elim!: res_bind_InrE split: if_split_asm prod.split_asm
      dest: cancelUnclaimedAttempt_rest retireAttempt_rest)

lemma keepForReturningWorker_rest [simp]: "rest_ok d \<Longrightarrow> rest_ok (snd (keepForReturningWorker doc d))"
  by (auto simp: keepForReturningWorker_def split: prod.split)

lemma retireIfOffPin_rest [rest_dest]: "retireIfOffPin now doc p m st = Inr st' \<Longrightarrow> rest_ok (snd st) \<Longrightarrow> rest_ok (snd st')"
  by (cases st; cases doc; cases p; cases m)
     (auto simp: retireIfOffPin_def Let_def elim!: res_bind_InrE split: if_split_asm dest: retireAttempt_rest)

lemma retireOffPinOnWorker_rest [rest_dest]:
  assumes "retireOffPinOnWorker now machine d = Inr (tally, d')" "rest_ok d"
  shows "rest_ok d'"
proof -
  have inner: "rest_ok (snd st')" if "off_pin_on_worker now machine state st = Inr st'" "rest_ok (snd st)" for state st st'
    using that(1) unfolding off_pin_on_worker_def
    by (rule res_fold_invariant [where I = "\<lambda>s. rest_ok (snd s)"])
       (use that(2) in \<open>auto elim!: res_bind_InrE dest: retireIfOffPin_rest\<close>)
  have "rest_ok (snd (tally, d'))"
    using assms(1) unfolding retireOffPinOnWorker_def
    by (rule res_fold_invariant [where I = "\<lambda>s. rest_ok (snd s)"]) (use assms(2) inner in auto)
  then show ?thesis by simp
qed

lemma retireOffPinForProfile_rest [rest_dest]:
  assumes "retireOffPinForProfile now profile d = Inr (tally, d')" "rest_ok d"
  shows "rest_ok d'"
proof -
  have inner: "rest_ok (snd st')" if "off_pin_of_profile now profile state st = Inr st'" "rest_ok (snd st)" for state st st'
    using that(1) unfolding off_pin_of_profile_def
    by (rule res_fold_invariant [where I = "\<lambda>s. rest_ok (snd s)"])
       (use that(2) in \<open>auto split: option.split_asm dest: retireIfOffPin_rest\<close>)
  have "rest_ok (snd st)" if "res_fold (off_pin_of_profile now profile) IDLE_STATES (no_pin_retirement, d) = Inr st" for st
    using that by (rule res_fold_invariant [where I = "\<lambda>s. rest_ok (snd s)"]) (use assms(2) inner in auto)
  then show ?thesis using assms by (auto simp: retireOffPinForProfile_def split: if_split_asm)
qed

section \<open>The scheduler\<close>

lemma secrets_ok_same_state:
  assumes "secrets_ok d" "\<And>a. at_state (f a) = at_state a"
  shows "secrets_ok (patch_attempt i f d)"
proof -
  have "secret_live (patch_attempt i f d) s = secret_live d s" for s
    using assms(2) by (auto simp: secret_live_def split: option.splits)
  then show ?thesis using assms(1) by (simp add: secrets_ok_def)
qed

lemma core_ok_assign [simp]:
  assumes "core_ok d"
  shows "core_ok (assign p d)"
proof (cases "(p, d)" rule: assign.cases)
  case (2 i m reason d0)
  let ?f = "\<lambda>a. a\<lparr>at_machineId := Some m, at_selectionReason := Some reason\<rparr>"
  have "attempts_ok (patch_attempt i ?f d)"
  proof (rule attempts_ok_patch)
    fix a assume "db_get (d_attempts d) i = Some a"
    then have "attempt_ok a" using assms by (auto simp: core_ok_def dest: attempts_okD)
    then show "attempt_ok (?f a)" by (auto simp: attempt_ok_def)
  qed (use assms in \<open>auto simp: core_ok_def db_ok_def\<close>)
  moreover have "names_ok (patch_attempt i ?f d)" "secrets_ok (patch_attempt i ?f d)"
    using assms by (auto simp: core_ok_def intro!: names_ok_patch secrets_ok_same_state)
  ultimately show ?thesis using assms 2 by (simp add: core_ok_def profiles_ok_def)
next
  case (3 i m reason d0)
  then show ?thesis using assms
    by (simp add: core_ok_def attempts_ok_def names_ok_def secrets_ok_def secret_live_def profiles_ok_def)
qed (use assms in simp)

lemma core_ok_patch_machine [simp]: "core_ok d \<Longrightarrow> core_ok (patch_machine m f d)"
  by (simp add: core_ok_def attempts_ok_def names_ok_def secrets_ok_def secret_live_def profiles_ok_def)

lemma write_used_slots_cases:
  "write_used_slots final x d = d \<or> (\<exists>used. write_used_slots final x d = patch_machine (fst x) (mc_usedSlots_update (\<lambda>_. used)) d)"
  by (auto simp: write_used_slots_def split: prod.splits option.splits)

lemma core_ok_write_used [simp]: "core_ok d \<Longrightarrow> core_ok (write_used_slots final x d)"
  using write_used_slots_cases [of final x d] by auto

lemma rest_ok_write_used [simp]: "rest_ok d \<Longrightarrow> rest_ok (write_used_slots final x d)"
  using write_used_slots_cases [of final x d] by auto

lemma rest_ok_assign:
  assumes "rest_ok d" "\<And>m reason. snd p = Some (m, reason) \<Longrightarrow> m < d_nextId d"
  shows "rest_ok (assign p d)" "d_nextId (assign p d) = d_nextId d"
proof -
  have "machine_ref m (assign p d) \<Longrightarrow> machine_ref m d \<or> m < d_nextId d" for m
    using assms(2)
    by (cases "(p, d)" rule: assign.cases) (auto simp: machine_ref_def set_db_patch split: if_splits; metis snd_conv)+
  moreover have same: "d_registrationTokens (assign p d) = d_registrationTokens d" "d_attemptEgress (assign p d) = d_attemptEgress d"
      "d_controllerLeases (assign p d) = d_controllerLeases d" "d_nextId (assign p d) = d_nextId d"
    by (cases "(p, d)" rule: assign.cases; simp)+
  ultimately show "rest_ok (assign p d)"
    using assms(1) by (auto simp: rest_ok_def tokens_ok_def egress_ok_def leases_ok_def)
  show "d_nextId (assign p d) = d_nextId d" by (rule same)
qed

lemma rest_ok_fold_assign:
  assumes "rest_ok d" "\<And>item m reason. (item, Some (m, reason)) \<in> set ps \<Longrightarrow> m < d_nextId d"
  shows "rest_ok (fold assign ps d)"
  using assms
proof (induction ps arbitrary: d)
  case (Cons p ps)
  have "rest_ok (assign p d)" "d_nextId (assign p d) = d_nextId d"
    using Cons.prems by (intro rest_ok_assign; metis list.set_intros(1) prod.collapse)+
  moreover have "m < d_nextId d" if "(item, Some (m, reason)) \<in> set ps" for item m reason
    using Cons.prems(2) [of item m reason] that by simp
  ultimately show ?case using Cons.IH [of "assign p d"] by simp
qed simp

lemma tryAssign_ok:
  assumes ok: "state_ok d" "rest_ok d" and run: "tryAssign lc now d = Inr (n, d')"
  shows "state_ok d'" "rest_ok d'"
proof -
  have slots: "slots_ok d'" using tryAssign_slots_ok [OF _ _ run] ok(1) by auto
  have "core_ok d' \<and> rest_ok d'"
    using run
  proof (cases rule: tryAssign_cases)
    case (2 s ps final)
    have "m < d_nextId d" if "(item, Some (m, reason)) \<in> set ps" for item m reason
    proof -
      have "db_get (online_machines now d) m \<noteq> None"
        using placed_machine_online [of item m reason lc s "unassignedQueue s"] that 2(2) loadSchedulerSnapshot_fields(4) [OF 2(1)]
        by simp
      then obtain row where "(m, row) \<in> set (d_machines d)"
        by (auto simp: online_machines_def db_query_iff dest!: db_get_in_set)
      then have "m \<in> set (db_ids (d_machines d))" using imageI [of "(m, row)" _ fst] by (simp add: db_ids_def)
      then show ?thesis using ok(1) by (simp add: state_ok_def fresh_ok_split ids_below_def)
    qed
    then have "rest_ok (fold assign ps d)" by (rule rest_ok_fold_assign [OF ok(2)])
    moreover have "core_ok (fold assign ps d)"
      by (rule fold_frame [where I = core_ok]) (use ok(1) in \<open>simp_all add: state_ok_core\<close>)
    ultimately show ?thesis unfolding 2(4)
      using fold_frame [where I = core_ok and s = "fold assign ps d" and f = "write_used_slots final"]
        fold_frame [where I = rest_ok and s = "fold assign ps d" and f = "write_used_slots final"] by simp
  qed (use ok in \<open>auto simp: state_ok_core\<close>)
  with slots show "state_ok d'" "rest_ok d'" by (auto simp: state_ok_core)
qed

section \<open>The mutations\<close>

lemmas mutation_cases = option.split_asm if_split_asm prod.split_asm list.split_asm

text \<open>The Controller API.\<close>

lemma createAttempt_rest: "createAttempt now args caller d = Inr d' \<Longrightarrow> rest_ok d \<Longrightarrow> rest_ok d'"
  by (auto simp: createAttempt_def Let_def new_attempt_def elim!: res_bind_InrE split: mutation_cases)

lemma cancelAttempt_rest: "cancelAttempt now profile name reason caller d = Inr d' \<Longrightarrow> rest_ok d \<Longrightarrow> rest_ok d'"
  by (auto simp: cancelAttempt_def elim!: res_bind_InrE split: mutation_cases dest!: endIdleAttempt_rest)

lemma completeRunnerCleanup_rest:
  "completeRunnerCleanup now profile name rid caller d = Inr (b, d') \<Longrightarrow> rest_ok d \<Longrightarrow> rest_ok d'"
  by (auto simp: completeRunnerCleanup_def elim!: res_bind_InrE split: mutation_cases dest!: finishRetirement_rest)

lemma markJobStarted_rest: "markJobStarted now profile name args caller d = Inr d' \<Longrightarrow> rest_ok d \<Longrightarrow> rest_ok d'"
  by (auto simp: markJobStarted_def keepForJob_def elim!: res_bind_InrE split: mutation_cases)

lemma markJobCompleted_rest:
  "markJobCompleted now profile name rr job result finishedAt caller d = Inr d' \<Longrightarrow> rest_ok d \<Longrightarrow> rest_ok d'"
  by (auto simp: markJobCompleted_def elim!: res_bind_InrE split: mutation_cases dest!: deleteAttemptSecret_rest)

lemma pauseProfile_rest: "pauseProfile now name caller d = Inr (b, d') \<Longrightarrow> rest_ok d \<Longrightarrow> rest_ok d'"
  by (auto simp: pauseProfile_def elim!: res_bind_InrE split: mutation_cases)

lemma registerProfile_rest: "registerProfile now args caller d = Inr (r, d') \<Longrightarrow> rest_ok d \<Longrightarrow> rest_ok d'"
  by (auto simp: registerProfile_def Let_def elim!: res_bind_InrE split: mutation_cases dest!: retireOffPinForProfile_rest)

lemma recordHeartbeat_rest: "recordHeartbeat now args caller d = Inr d' \<Longrightarrow> rest_ok d \<Longrightarrow> rest_ok d'"
  by (rule rest_ok_other [of d])
     (auto simp: recordHeartbeat_def Let_def elim!: res_bind_InrE split: option.splits)

text \<open>The Worker API.\<close>

lemma reportHostFacts_rest: "reportHostFacts now token arch cpus memory d = Inr (r, d') \<Longrightarrow> rest_ok d \<Longrightarrow> rest_ok d'"
  by (auto simp: reportHostFacts_def Let_def elim!: res_bind_InrE split: mutation_cases)

lemma write_benchmark_rest: "write_benchmark m b d = Inr d' \<Longrightarrow> rest_ok d \<Longrightarrow> rest_ok d'"
  by (rule rest_ok_other [of d]) (auto simp: write_benchmark_def elim!: res_bind_InrE split: option.splits)

lemma reportBenchmark_rest: "reportBenchmark now token report d = Inr (r, d') \<Longrightarrow> rest_ok d \<Longrightarrow> rest_ok d'"
  by (auto simp: reportBenchmark_def Let_def elim!: res_bind_InrE split: mutation_cases dest!: write_benchmark_rest)

lemma claimExperiment_rest: "claimExperiment now token i d = Inr (r, d') \<Longrightarrow> rest_ok d \<Longrightarrow> rest_ok d'"
  by (auto simp: claimExperiment_def Let_def elim!: res_bind_InrE split: mutation_cases)

lemma markExperimentRunning_rest: "markExperimentRunning now token i d = Inr (r, d') \<Longrightarrow> rest_ok d \<Longrightarrow> rest_ok d'"
  by (auto simp: markExperimentRunning_def elim!: res_bind_InrE split: mutation_cases)

lemma reportExperiment_rest: "reportExperiment now token i code d = Inr (r, d') \<Longrightarrow> rest_ok d \<Longrightarrow> rest_ok d'"
  by (auto simp: reportExperiment_def throw_if_Inr Let_def elim!: res_bind_InrE split: mutation_cases)

lemma experiments_create_rest:
  assumes "experiments_create now auth name profile command timeout d = Inr (i, d')" "rest_ok d"
  shows "rest_ok d'"
proof -
  obtain e where d': "d' = runAfter AttemptTryAssign (d\<lparr>d_experiments := db_insert (d_experiments d) (d_nextId d) e, d_nextId := Suc (d_nextId d)\<rparr>)"
    and e: "ex_machineId e = None"
    using assms(1) by (auto simp: experiments_create_def throw_if_Inr Let_def elim!: res_bind_InrE split: mutation_cases)
  have "rest_ok (d\<lparr>d_experiments := db_insert (d_experiments d) (d_nextId d) e, d_nextId := Suc (d_nextId d)\<rparr>)"
    using assms(2) e by (intro rest_ok_frame [OF assms(2)]) (auto simp: machine_idents_def machine_ref_def db_insert_def)
  then show ?thesis by (simp add: d')
qed

lemma experiments_cancel_rest: "experiments_cancel now auth i d = Inr (r, d') \<Longrightarrow> rest_ok d \<Longrightarrow> rest_ok d'"
  by (auto simp: experiments_cancel_def elim!: res_bind_InrE split: mutation_cases)

lemma claimAttempt_rest: "claimAttempt now token i d = Inr (r, d') \<Longrightarrow> rest_ok d \<Longrightarrow> rest_ok d'"
  by (auto simp: claimAttempt_def Let_def elim!: res_bind_InrE split: mutation_cases)

lemma markReady_rest: "markReady now token i d = Inr (r, d') \<Longrightarrow> rest_ok d \<Longrightarrow> rest_ok d'"
  by (auto simp: markReady_def elim!: res_bind_InrE split: mutation_cases)

lemma write_egress_rest:
  assumes "write_egress now m doc egress d = Inr d'" "rest_ok d"
  shows "rest_ok d'"
proof (cases egress)
  case (Some r)
  let ?row = "\<lparr>ae_attemptId = fst doc, ae_machineId = m, ae_profile = at_profile (snd doc), ae_recordedAt = now, ae_record = boundedEgressRecord r\<rparr>"
  obtain found where found: "db_unique (db_query (\<lambda>e. ae_attemptId e = fst doc) (d_attemptEgress d)) = Inr found"
    using assms(1) Some by (auto simp: write_egress_def elim!: res_bind_InrE)
  have egress: "db_wf (d_attemptEgress d)" "distinct (map (\<lambda>x. ae_attemptId (snd x)) (d_attemptEgress d))"
      "ids_below (d_nextId d) (d_attemptEgress d)" using assms(2) by (auto simp: rest_ok_def egress_ok_def)
  show ?thesis
  proof (cases found)
    case None
    then have d': "d' = d\<lparr>d_attemptEgress := db_insert (d_attemptEgress d) (d_nextId d) ?row, d_nextId := Suc (d_nextId d)\<rparr>"
      using assms(1) Some found by (simp add: write_egress_def Let_def)
    have "fst doc \<notin> set (map (\<lambda>x. ae_attemptId (snd x)) (d_attemptEgress d))"
      using found None by (auto simp: db_unique_None db_query_def filter_empty_conv)
    then show ?thesis using assms(2) egress unfolding d'
      by (auto simp: rest_ok_def egress_ok_def tokens_ok_def leases_ok_def machine_ref_def db_insert_def list_all_iff ids_below_def db_wf_def db_ids_def less_Suc_eq)
  next
    case (Some x)
    then obtain k e where x: "found = Some (k, e)" by (cases x) auto
    then have d': "d' = d\<lparr>d_attemptEgress := db_patch (d_attemptEgress d) k (\<lambda>_. ?row)\<rparr>"
      using assms(1) \<open>egress = Some r\<close> found by (simp add: write_egress_def Let_def)
    have "db_get (d_attemptEgress d) k = Some e" "ae_attemptId e = fst doc"
      using db_unique_query_Some [OF egress(1) found [unfolded x]] by auto
    then have "map (\<lambda>x. ae_attemptId (snd x)) (db_patch (d_attemptEgress d) k (\<lambda>_. ?row)) = map (\<lambda>x. ae_attemptId (snd x)) (d_attemptEgress d)"
      by (intro map_db_patch_const [OF egress(1)]) auto
    then show ?thesis using assms(2) egress unfolding d'
      by (simp add: rest_ok_def egress_ok_def tokens_ok_def leases_ok_def machine_ref_def)
  qed
qed (use assms in \<open>simp add: write_egress_def\<close>)

lemma settle_attempt_machine: "at_machineId (settle_attempt now code x a r) = at_machineId r"
  by (auto simp: settle_attempt_def settle_retiring_def settle_exited_def Let_def split: option.splits retirement_outcome.splits)

lemma reportAttempt_rest: "reportAttempt now token i code egress x d = Inr (r, d') \<Longrightarrow> rest_ok d \<Longrightarrow> rest_ok d'"
  by (erule reportAttempt_cases) (auto simp: settle_attempt_machine dest!: write_egress_rest deleteAttemptSecret_rest)

lemma write_readiness_rest [simp]: "rest_ok d \<Longrightarrow> rest_ok (write_readiness existing row d)"
  by (rule rest_ok_other [of d]) (auto simp: write_readiness_def split: option.splits)

lemma write_evidence_rest [simp]: "rest_ok d \<Longrightarrow> rest_ok (write_evidence existing row d)"
  by (rule rest_ok_other [of d]) (auto simp: write_evidence_def split: option.splits)

lemma reportReadiness_rest: "reportReadiness now token args d = Inr (r, d') \<Longrightarrow> rest_ok d \<Longrightarrow> rest_ok d'"
  by (auto simp: reportReadiness_def throw_if_Inr Let_def elim!: res_bind_InrE split: mutation_cases)

lemma keepRunningAttempts_rest: "rest_ok d \<Longrightarrow> rest_ok (snd (keepRunningAttemptsOfReturningWorker m d))"
  unfolding keepRunningAttemptsOfReturningWorker_def
proof (rule fold_frame [where I = "\<lambda>s. rest_ok (snd s)"])
  fix doc and s :: "nat \<times> db"
  assume "rest_ok (snd s)"
  then have "rest_ok (snd (keepForReturningWorker doc (snd s)))" by (rule keepForReturningWorker_rest)
  then show "rest_ok (snd (case s of (kept, d) \<Rightarrow> let (k, d') = keepForReturningWorker doc d in (if k then kept + 1 else kept, d')))"
    by (simp add: case_prod_beta Let_def)
qed simp

lemma heartbeat_rest: "heartbeat now token d = Inr (r, d') \<Longrightarrow> rest_ok d \<Longrightarrow> rest_ok d'"
  by (auto simp: heartbeat_def Let_def keepRunningAttempts_rest elim!: res_bind_InrE split: mutation_cases)

text \<open>The leases of the Controllers.\<close>

lemma lease_write_rest:
  assumes "lease_write now q d d'" "rest_ok d"
  shows "rest_ok d'"
proof -
  have "leases_ok d'" using lease_write_ok [OF _ assms(1)] assms(2) by (simp add: rest_ok_def)
  moreover have "d_nextId d \<le> d_nextId d'" "d_registrationTokens d' = d_registrationTokens d" "d_attemptEgress d' = d_attemptEgress d"
    "d_machines d' = d_machines d" "d_attempts d' = d_attempts d" "d_experiments d' = d_experiments d" "d_jobs d' = d_jobs d"
    using assms(1) by (auto elim!: lease_writeE simp: insert_lease_def patch_lease_def)
  ultimately show ?thesis using assms(2)
    by (auto simp: rest_ok_def tokens_ok_def egress_ok_def machine_ref_def intro: ids_below_mono less_le_trans)
qed

lemma lease_write_state:
  assumes "lease_write now q d d'" "state_ok d"
  shows "state_ok d'"
  by (rule state_ok_frame [OF assms(2)]) (use assms(1) in \<open>auto elim!: lease_writeE simp: insert_lease_def patch_lease_def\<close>)

text \<open>The operator.\<close>

lemma setLabels_ok:
  assumes "setLabels now name labels d = Inr (reply, d')" "state_ok d" "rest_ok d"
  shows "state_ok d'" "rest_ok d'"
proof -
  show "state_ok d'"
  proof (cases reply)
    case (Accepted r)
    then show ?thesis using setLabels_pins [OF assms(2)] assms(1) by blast
  next
    case (RefusedWith code err)
    then have "d' = d" using assms(1) by (auto simp: setLabels_def elim!: res_bind_InrE split: sum.split_asm mutation_cases)
    then show ?thesis using assms(2) by simp
  qed
  show "rest_ok d'"
    using assms(1,3) by (auto simp: setLabels_def elim!: res_bind_InrE split: sum.split_asm mutation_cases dest!: retireOffPinOnWorker_rest)
qed

lemma setMachineMaxSlots_rest: "setMachineMaxSlots i n d = Inr d' \<Longrightarrow> rest_ok d \<Longrightarrow> rest_ok d'"
  by (auto simp: setMachineMaxSlots_def throw_if_Inr split: mutation_cases)

lemma deleteMachine_rest:
  assumes "deleteMachine now m d = Inr d'" "rest_ok d"
  shows "rest_ok d'"
proof -
  let ?d1 = "fold (discard_of_machine now m) [CmdPending, CmdClaimed, CmdCancelled, CmdFinished] d"
  have d': "d' = runAfter DrainRunnerDeletions (delete_machine m ?d1)"
    using assms(1) by (auto simp: deleteMachine_def Let_def split: option.split_asm)
  have "rest_ok (discard_of_machine now m status e)" if "rest_ok e" for status e
    unfolding discard_of_machine_def
    by (rule fold_frame [where I = rest_ok, OF that])
       (auto simp: discardCommand_def enqueueRunnerDeletion_def Let_def split: option.splits prod.splits)
  then have ok: "rest_ok ?d1" by (intro fold_frame [where I = rest_ok, OF assms(2)])
  have "rest_ok (delete_machine m e)" if "rest_ok e" for e
    using that
    by (auto simp: rest_ok_def delete_machine_def tokens_ok_def egress_ok_def leases_ok_def machine_ref_def db_delete_def distinct_map_filter)
  with ok show ?thesis by (simp add: d' del: fold_simps)
qed

lemma registerAgent_ok:
  assumes "registerAgent now bytes args d = Some (Inr (reply, d'))" "state_ok d" "rest_ok d"
  shows "state_ok d'" "rest_ok d'"
proof -
  have "state_ok d' \<and> rest_ok d'"
  proof (cases reply)
    case (Accepted token)
    note run = assms(1) [unfolded Accepted]
    have ok: "state_ok d'" "tokens_ok d'"
      using registerAgent_accepted [OF assms(2) _ rest_ok_refs [OF assms(3)] run] assms(3) by (auto simp: rest_ok_def)
    show ?thesis using run
    proof (cases rule: registerAgent_cases)
      case (1 r registration labels)
      have "machine_ref m d' = machine_ref m d" for m by (simp add: 1(5) machine_ref_def)
      then have "rest_ok d'" using ok(2) assms(3)
        by (auto simp: rest_ok_def 1(5) egress_ok_def leases_ok_def list_all_iff less_Suc_eq)
      with ok show ?thesis by simp
    qed
  next
    case (RefusedWith code err)
    then have "d' = d" using assms(1)
      by (auto simp: registerAgent_def Let_def elim!: res_bind_InrE split: sum.split_asm mutation_cases)
    then show ?thesis using assms(2,3) by simp
  qed
  then show "state_ok d'" "rest_ok d'" by blast+
qed

lemma issueRegistrationToken_ok:
  assumes "issueRegistrationToken now bytes d = Some (Inr (r, d'))" "state_ok d" "rest_ok d"
  shows "state_ok d'" "rest_ok d'"
proof -
  obtain token where drawn: "draw_free (\<lambda>k. ''rcreg_'' @ randomHex 24 (bytes k)) (token_taken d) 0 = Some (Inr token)"
    and d': "d' = d\<lparr>d_registrationTokens := db_insert (d_registrationTokens d) (d_nextId d) \<lparr>rk_token = token, rk_createdAt = now, rk_usedAt = None\<rparr>,
      d_nextId := Suc (d_nextId d)\<rparr>"
    using assms(1) by (auto simp: issueRegistrationToken_def elim!: res_bind_InrE)
  show "state_ok d'" by (rule state_ok_frame [OF assms(2)]) (simp_all add: d')
  have "token_taken d token = Inr False" using draw_free_Some [OF drawn] by blast
  then have "db_unique (db_query (\<lambda>t. rk_token t = token) (d_registrationTokens d)) = Inr None"
    by (cases "db_unique (db_query (\<lambda>t. rk_token t = token) (d_registrationTokens d))") (simp_all add: token_taken_def del: not_None_eq)
  then have "token \<notin> set (map (\<lambda>x. rk_token (snd x)) (d_registrationTokens d))"
    by (auto simp: db_unique_None db_query_def filter_empty_conv)
  then show "rest_ok d'" using assms(3)
    by (auto simp: rest_ok_def d' tokens_ok_def egress_ok_def leases_ok_def machine_ref_def db_insert_def db_wf_def db_ids_def
        ids_below_def list_all_iff less_Suc_eq)
qed

section \<open>The reconciler\<close>

definition sub_rows :: "'r docs \<Rightarrow> 'r docs \<Rightarrow> bool" where
  "sub_rows t' t \<longleftrightarrow> (\<exists>P. t' = filter P t)"

lemma sub_rows_refl [simp]: "sub_rows t t"
  unfolding sub_rows_def by (rule exI [of _ "\<lambda>_. True"]) simp

lemma sub_rows_delete [simp]: "sub_rows u t \<Longrightarrow> sub_rows (db_delete u i) t"
  by (auto simp: sub_rows_def db_delete_def filter_filter)

lemma sub_rows_fold:
  assumes "\<And>x u. sub_rows u t \<Longrightarrow> sub_rows (f x u) t"
  shows "sub_rows (fold f xs t) t"
  by (rule fold_frame [where I = "\<lambda>u. sub_rows u t"]) (simp_all add: assms)

lemma sub_rows_folds:
  assumes "\<And>x u. sub_rows u t \<Longrightarrow> sub_rows (f x u) t" "sub_rows u t"
  shows "sub_rows (fold f xs u) t"
  by (rule fold_frame [where I = "\<lambda>u. sub_rows u t", OF assms(2)]) (rule assms(1))

lemma sub_rows_delete_due [simp]: "sub_rows u t \<Longrightarrow> sub_rows (delete_due n key sel due u) t"
  unfolding delete_due_def by (rule sub_rows_folds) simp_all

lemma sub_rows_facts:
  assumes "sub_rows t' t"
  shows "set t' \<subseteq> set t" "distinct (map f t) \<Longrightarrow> distinct (map f t')" "db_wf t \<Longrightarrow> db_wf t'" "ids_below n t \<Longrightarrow> ids_below n t'"
  using assms by (auto simp: sub_rows_def distinct_map_filter db_wf_def db_ids_def ids_below_def)

lemma rest_ok_fewer:
  assumes "rest_ok d" "sub_rows (d_attempts e) (d_attempts d)" "sub_rows (d_experiments e) (d_experiments d)"
    "sub_rows (d_jobs e) (d_jobs d)" "d_machines e = d_machines d" "d_controllerLeases e = d_controllerLeases d"
    "d_nextId e = d_nextId d" "sub_rows (d_registrationTokens e) (d_registrationTokens d)"
    "sub_rows (d_attemptEgress e) (d_attemptEgress d)"
  shows "rest_ok e"
proof -
  have "machine_ref m e \<Longrightarrow> machine_ref m d" for m
    using assms(2-4) [THEN sub_rows_facts(1)] unfolding machine_ref_def by blast
  moreover have "tokens_ok e" using assms(1,5) sub_rows_facts(2) [OF assms(8), of "\<lambda>x. rk_token (snd x)"] sub_rows_facts(3) [OF assms(8)]
    by (simp add: rest_ok_def tokens_ok_def)
  moreover have "egress_ok e" using assms(1) sub_rows_facts(2) [OF assms(9), of "\<lambda>x. ae_attemptId (snd x)"] sub_rows_facts(3) [OF assms(9)]
    by (simp add: rest_ok_def egress_ok_def)
  ultimately show ?thesis
    using assms(1,6,7) sub_rows_facts(4) [OF assms(8)] sub_rows_facts(4) [OF assms(9)] by (simp add: rest_ok_def leases_ok_def)
qed

lemma retention_deletes_rest [simp]:
  assumes "rest_ok d"
  shows "rest_ok (delete_tokens now d)" "rest_ok (delete_deliveries now d)" "rest_ok (delete_recoveries now d)"
    "rest_ok (delete_jobs now d)" "rest_ok (delete_experiments now d)" "rest_ok (delete_attempt i d)"
  by (rule rest_ok_fewer [OF assms]; simp add: delete_tokens_def delete_deliveries_def delete_recoveries_def delete_jobs_def
      delete_experiments_def delete_attempt_def Let_def sub_rows_folds del: fold_simps)+

lemma purge_attempt_rest: "purge_attempt doc d = Inr d' \<Longrightarrow> rest_ok d \<Longrightarrow> rest_ok d'"
proof -
  have "rest_ok (e\<lparr>d_attemptEgress := db_delete (d_attemptEgress e) k\<rparr>)" if "rest_ok e" for e k
    by (rule rest_ok_fewer [OF that]) simp_all
  then show "purge_attempt doc d = Inr d' \<Longrightarrow> rest_ok d \<Longrightarrow> rest_ok d'"
    by (auto simp: purge_attempt_def deleteAttemptEgress_def elim!: res_bind_InrE split: option.split_asm dest!: deleteAttemptSecret_rest)
qed

lemma retention_rest:
  assumes "retention now d = Inr d'" "rest_ok d"
  shows "rest_ok d'"
proof -
  have "rest_ok e'" if "purge_attempts now e = Inr e'" "rest_ok e" for e e'
    using that(1) unfolding purge_attempts_def
    by (rule res_fold_invariant [where I = rest_ok])
       (use that(2) in \<open>auto elim: res_fold_invariant [where I = rest_ok] purge_attempt_rest\<close>)
  then show ?thesis using assms by (auto simp: retention_def elim!: res_bind_InrE)
qed

lemma discard_commands_rest [simp]: "rest_ok d \<Longrightarrow> rest_ok (discard_commands now cs j d)"
  unfolding discard_commands_def
  by (rule fold_frame [where I = rest_ok])
     (auto simp: discardCommand_def enqueueRunnerDeletion_def split: option.splits prod.splits)

lemma recon_release_rest [simp]: "rest_ok (rn_db s) \<Longrightarrow> rest_ok (rn_db (recon_release machine s))"
  by (auto simp: recon_release_def Let_def split: option.splits)

lemma recon_assigned_rest [simp]: "rest_ok (rn_db s) \<Longrightarrow> rest_ok (rn_db (recon_assigned now ld doc s))"
  by (auto simp: recon_assigned_def Let_def recon_write_def failed_job_def split: attempt_outcome.splits)

lemma finish_commands_rest [simp]: "rest_ok d \<Longrightarrow> rest_ok (fold (finish_command now job) cs d)"
  by (rule fold_frame [where I = rest_ok])
     (auto simp: finish_command_def enqueueRunnerDeletion_def split: option.splits)

lemma recon_running_rest [simp]: "rest_ok (rn_db s) \<Longrightarrow> rest_ok (rn_db (recon_running now ld doc s))"
  by (auto simp: recon_running_def Let_def recon_write_def)

lemma recon_queued_rest [simp]: "rest_ok (rn_db s) \<Longrightarrow> rest_ok (rn_db (recon_queued now doc s))"
  by (auto simp: recon_queued_def recon_write_def)

lemma recon_experiment_rest [simp]: "rest_ok (rn_db s) \<Longrightarrow> rest_ok (rn_db (recon_experiment now ld doc s))"
  by (auto simp: recon_experiment_def Let_def recon_write_def split: prod.splits)

lemma keep_rest: "keepForReturningWorker doc d = (kept, d') \<Longrightarrow> rest_ok d \<Longrightarrow> rest_ok d'"
  using keepForReturningWorker_rest [of d doc] by simp

lemma recon_retiring_rest: "recon_retiring now doc machine s = Inr s' \<Longrightarrow> rest_ok (rn_db s) \<Longrightarrow> rest_ok (rn_db s')"
  by (auto simp: recon_retiring_def Let_def elim!: res_bind_InrE split: mutation_cases dest!: finishRetirement_rest keep_rest)

lemma recon_attempt_rest: "recon_attempt now ld doc s = Inr s' \<Longrightarrow> rest_ok (rn_db s) \<Longrightarrow> rest_ok (rn_db s')"
  by (auto simp: recon_attempt_def Let_def recon_write_def elim!: res_bind_InrE split: prod.split_asm if_split_asm
      dest!: deleteAttemptSecret_rest retireAttempt_rest recon_retiring_rest)

lemma recon_work_rest:
  assumes "recon_work now ld s = Inr s'" "rest_ok (rn_db s)"
  shows "rest_ok (rn_db s')"
proof -
  let ?s1 = "fold (recon_queued now) (ld_queuedJobs ld) (fold (recon_running now ld) (ld_runningJobs ld)
    (fold (recon_assigned now ld) (ld_assignedJobs ld) s))"
  have s1: "rest_ok (rn_db ?s1)"
    by (intro fold_frame [where I = "\<lambda>s. rest_ok (rn_db s)"]) (simp_all add: assms(2))
  obtain s2 where s2: "res_fold (recon_attempt now ld) (ld_attempts ld) ?s1 = Inr s2"
      and s': "s' = fold (recon_experiment now ld) (ld_experiments ld) s2"
    using assms(1) by (auto simp: recon_work_def elim!: res_bind_InrE)
  have "rest_ok (rn_db s2)"
    using s2 by (rule res_fold_invariant [where I = "\<lambda>s. rest_ok (rn_db s)"]) (use s1 in \<open>auto dest: recon_attempt_rest\<close>)
  then show ?thesis unfolding s' by (intro fold_frame [where I = "\<lambda>s. rest_ok (rn_db s)"]) simp_all
qed

lemma repair_fold_rest:
  assumes "fold (repair_machine expected) ms (n, slots, d) = (n', slots', d')" "rest_ok d"
  shows "rest_ok d'"
proof -
  have "rest_ok (snd (snd (fold (repair_machine expected) ms (n, slots, d))))"
    by (rule fold_frame [where I = "\<lambda>s. rest_ok (snd (snd s))"])
       (auto simp: assms(2) repair_machine_def Let_def split: prod.splits)
  then show ?thesis by (simp add: assms(1))
qed

lemma retry_rest: "rest_ok d \<Longrightarrow> rest_ok (snd (retryStalledDeliveries now d))"
  unfolding retryStalledDeliveries_def
proof (rule fold_frame [where I = "\<lambda>s. rest_ok (snd s)"])
  fix x and s :: "(int \<times> int) \<times> db"
  assume "rest_ok (snd s)"
  then show "rest_ok (snd (retry_delivery now x s))"
    by (rule rest_ok_other) (auto simp: retry_delivery_def Let_def patch_delivery_def split: prod.splits)
qed simp

lemma reconcile_rest:
  assumes "reconcile_run now d = Inr (result, d')" "rest_ok d"
  shows "rest_ok d'"
proof -
  let ?ld = "recon_read d"
  obtain s d1 where s: "recon_work now ?ld (recon_start ?ld d) = Inr s" and d1: "retention now (rn_db s) = Inr d1"
    using assms(1) by (auto simp: reconcile_run_def Let_def elim!: res_bind_InrE)
  obtain n slots d2 where d2: "fold (repair_machine (expectedByMachine d1)) (ld_machines ?ld) (0, rn_machineSlots s, d1) = (n, slots, d2)"
    by (metis prod_cases3)
  obtain tally d3 where d3: "retryStalledDeliveries now d2 = (tally, d3)" by (metis surj_pair)
  have "rest_ok (rn_db (recon_start ?ld d))"
    by (simp add: recon_start_def) (rule fold_frame [where I = rest_ok], simp_all add: assms(2))
  then have "rest_ok d1" using retention_rest [OF d1 recon_work_rest [OF s]] by blast
  then have "rest_ok d3" using retry_rest [OF repair_fold_rest [OF d2], of now] by (simp add: d3)
  moreover have "d' = recon_finish s n d3"
    using assms(1) by (simp add: reconcile_run_def Let_def s d1 d2 d3 split: prod.split_asm)
  ultimately show ?thesis by (simp add: recon_finish_def Let_def)
qed

section \<open>The state machine\<close>

text \<open>One rule per mutation, in the order of the theories that define them.\<close>

inductive fleet_step :: "db \<Rightarrow> db \<Rightarrow> bool" where
  schedule: "tryAssign lc now d = Inr (n, d') \<Longrightarrow> fleet_step d d'"
| acquire_lease_step: "acquire now q hostname inst act can caller d = Inr (r1, d') \<Longrightarrow> fleet_step d d'"
| renew_lease_step: "renew now q inst caller d = Inr (r2, d') \<Longrightarrow> fleet_step d d'"
| release_lease_step: "release now q inst caller d = Inr d' \<Longrightarrow> fleet_step d d'"
| register_profile: "registerProfile now registration ocaller d = Inr (r3, d') \<Longrightarrow> fleet_step d d'"
| pause_profile: "pauseProfile now name ocaller d = Inr (b, d') \<Longrightarrow> fleet_step d d'"
| record_heartbeat: "recordHeartbeat now report ocaller d = Inr d' \<Longrightarrow> fleet_step d d'"
| create_attempt: "createAttempt now request ocaller d = Inr d' \<Longrightarrow> fleet_step d d'"
| cancel_attempt: "cancelAttempt now profile name reason ocaller d = Inr d' \<Longrightarrow> fleet_step d d'"
| runner_cleanup: "completeRunnerCleanup now profile name rid ocaller d = Inr (b, d') \<Longrightarrow> fleet_step d d'"
| job_started: "markJobStarted now profile name meta ocaller d = Inr d' \<Longrightarrow> fleet_step d d'"
| job_completed: "markJobCompleted now profile name rr job res finishedAt ocaller d = Inr d' \<Longrightarrow> fleet_step d d'"
| worker_heartbeat: "heartbeat now token d = Inr (r4, d') \<Longrightarrow> fleet_step d d'"
| host_facts: "reportHostFacts now token arch cpus memory d = Inr (r5, d') \<Longrightarrow> fleet_step d d'"
| benchmark_report: "reportBenchmark now token bench d = Inr (r6, d') \<Longrightarrow> fleet_step d d'"
| readiness_report: "reportReadiness now token ready d = Inr (r7, d') \<Longrightarrow> fleet_step d d'"
| claim_attempt: "claimAttempt now token i d = Inr (r8, d') \<Longrightarrow> fleet_step d d'"
| mark_ready: "markReady now token i d = Inr (b, d') \<Longrightarrow> fleet_step d d'"
| attempt_report: "reportAttempt now token i code egress x d = Inr (b, d') \<Longrightarrow> fleet_step d d'"
| claim_experiment: "claimExperiment now token i d = Inr (r9, d') \<Longrightarrow> fleet_step d d'"
| experiment_running: "markExperimentRunning now token i d = Inr (b, d') \<Longrightarrow> fleet_step d d'"
| experiment_report: "reportExperiment now token i code d = Inr (b, d') \<Longrightarrow> fleet_step d d'"
| create_experiment: "experiments_create now auth name profile command timeout d = Inr (i, d') \<Longrightarrow> fleet_step d d'"
| cancel_experiment: "experiments_cancel now auth i d = Inr (b, d') \<Longrightarrow> fleet_step d d'"
| issue_token: "issueRegistrationToken now bytes d = Some (Inr (r10, d')) \<Longrightarrow> fleet_step d d'"
| register_worker: "registerAgent now bytes args d = Some (Inr (reply, d')) \<Longrightarrow> fleet_step d d'"
| set_labels: "setLabels now name labels d = Inr (reply2, d') \<Longrightarrow> fleet_step d d'"
| set_max_slots: "setMachineMaxSlots i maxSlots d = Inr d' \<Longrightarrow> fleet_step d d'"
| delete_worker: "deleteMachine now i d = Inr d' \<Longrightarrow> fleet_step d d'"
| reconcile_step: "reconcile_run now d = Inr (result, d') \<Longrightarrow> fleet_step d d'"

inductive_cases fleet_stepE: "fleet_step d d'"

definition fleet_ok :: "db \<Rightarrow> bool" where
  "fleet_ok d \<longleftrightarrow> state_ok d \<and> rest_ok d"

lemma used_slots_of_state: "state_ok d \<Longrightarrow> used_slots_nonneg d"
  by (auto simp: state_ok_def slots_ok_def used_slots_nonneg_def work_on_nonneg)

lemma reconcile_step_ok:
  assumes "reconcile_run now d = Inr (result, d')" "state_ok d" "rest_ok d"
  shows "state_ok d'"
  using reconcile_run_ok [of d now] used_slots_of_state [OF assms(2)] assms by (auto simp: state_ok_core rest_ok_def)

lemmas mutation_rest = createAttempt_rest cancelAttempt_rest completeRunnerCleanup_rest markJobStarted_rest
  markJobCompleted_rest pauseProfile_rest registerProfile_rest recordHeartbeat_rest reportHostFacts_rest
  reportBenchmark_rest claimExperiment_rest markExperimentRunning_rest reportExperiment_rest experiments_create_rest
  experiments_cancel_rest claimAttempt_rest markReady_rest reportAttempt_rest reportReadiness_rest heartbeat_rest
  setMachineMaxSlots_rest deleteMachine_rest reconcile_rest
  acquire_write [THEN lease_write_rest] renew_write [THEN lease_write_rest] release_write [THEN lease_write_rest]

lemmas mutation_state = createAttempt_ok cancelAttempt_ok completeRunnerCleanup_ok markJobStarted_ok
  markJobCompleted_ok pauseProfile_ok registerProfile_ok recordHeartbeat_ok reportHostFacts_ok
  reportBenchmark_ok claimExperiment_ok markExperimentRunning_ok reportExperiment_ok experiments_create_ok
  experiments_cancel_ok claimAttempt_ok markReady_ok reportAttempt_ok reportReadiness_ok heartbeat_ok
  setMachineMaxSlots_ok deleteMachine_ok

lemmas lease_state = acquire_write [THEN lease_write_state] renew_write [THEN lease_write_state] release_write [THEN lease_write_state]

lemma fleet_step_rest: "fleet_step d d' \<Longrightarrow> state_ok d \<Longrightarrow> rest_ok d \<Longrightarrow> rest_ok d'"
  by (erule fleet_stepE)
     (blast intro: mutation_rest tryAssign_ok(2) setLabels_ok(2) registerAgent_ok(2) issueRegistrationToken_ok(2))+

lemma fleet_step_state: "fleet_step d d' \<Longrightarrow> state_ok d \<Longrightarrow> rest_ok d \<Longrightarrow> state_ok d'"
  by (erule fleet_stepE)
     (blast intro: mutation_state lease_state tryAssign_ok(1) setLabels_ok(1) registerAgent_ok(1)
       issueRegistrationToken_ok(1) reconcile_step_ok)+

interpretation fleet: stable fleet_step fleet_ok
  by standard (simp add: fleet_ok_def fleet_step_rest fleet_step_state)

lemma empty_db_ok: "fleet_ok empty_db"
proof -
  have "state_ok empty_db" by code_simp
  moreover have "rest_ok empty_db"
    by (simp add: empty_db_def rest_ok_def tokens_ok_def egress_ok_def leases_ok_def machine_ref_def ids_below_def db_ids_def db_wf_def)
  ultimately show ?thesis by (simp add: fleet_ok_def)
qed

text \<open>C1: The invariant of the control plane holds in every reachable state. However the mutations of the
  Controllers, the Workers, the scheduler, the operators and the reconciler are interleaved, from an empty
  deployment on: every Worker's used slots are exactly the work placed on it; Runner names, registration
  tokens, Worker tokens and Worker names are unique; every single-use secret belongs to one Attempt that is
  not over; a retiring Attempt has a Worker, a Runner and a pending clean-up; each Attempt has at most one
  egress record; and no work refers to a Worker id that was never given out.\<close>

theorem reachable_ok:
  assumes "fleet_step\<^sup>*\<^sup>* empty_db d"
  shows "state_ok d \<and> tokens_ok d \<and> egress_ok d \<and> leases_ok d \<and> refs_ok d"
  using fleet.stable_steps [OF assms empty_db_ok] rest_ok_refs by (auto simp: fleet_ok_def rest_ok_def)

text \<open>A Profile is registered and an Attempt created for it.\<close>

theorem reachable_ok_witness:
  "\<exists>d. fleet_step\<^sup>*\<^sup>* empty_db d \<and> map (\<lambda>x. at_runnerName (snd x)) (d_attempts d) = [''r2''] \<and>
     length (d_attemptSecrets d) = 1 \<and> state_ok d"
proof -
  define d1 where "d1 = snd (projr (registerProfile 1000 sample_registration None empty_db))"
  define d2 where "d2 = projr (createAttempt 2000 sample_request None d1)"
  have d1: "registerProfile 1000 sample_registration None empty_db = Inr (None, d1)" unfolding d1_def by code_simp
  have d2: "createAttempt 2000 sample_request None d1 = Inr d2" "map (\<lambda>x. at_runnerName (snd x)) (d_attempts d2) = [''r2'']"
    "length (d_attemptSecrets d2) = 1" unfolding d2_def d1_def by code_simp+
  have "fleet_step empty_db d1" "fleet_step d1 d2" using register_profile [OF d1] create_attempt [OF d2(1)] .
  then have "fleet_step\<^sup>*\<^sup>* empty_db d2" by (rule converse_rtranclp_into_rtranclp [OF _ r_into_rtranclp])
  moreover from this have "state_ok d2" by (rule reachable_ok [THEN conjunct1])
  ultimately show ?thesis using d2(2,3) by (intro exI [of _ d2] conjI)
qed

section \<open>Drift and repair\<close>

text \<open>The legacy Job path, which shares the Workers' slots.\<close>

inductive legacy_step :: "db \<Rightarrow> db \<Rightarrow> bool" where
  legacy_schedule: "legacy_step d (snd (legacy_tryAssign now d))"
| webhook_event: "applyWorkflowJob now event d = Inr d' \<Longrightarrow> legacy_step d d'"
| provision_failed: "legacy_step d (failAttempt now c j err d)"
| job_error: "legacy_step d (recordJobError j err d)"
| jit_stored: "legacy_step d (snd (storeJitConfig c jit rid d))"
| command_claimed: "claim_command now token c d = Inr (r, d') \<Longrightarrow> legacy_step d d'"
| command_reported: "report_command now token c code d = Inr (b, d') \<Longrightarrow> legacy_step d d'"
| job_dropped: "legacy_step d (dropJob now j d)"
| job_requeued: "legacy_step d (requeueJob now j d)"
| deletion_queued: "legacy_step d (enqueue now repo inst rid name d)"
| deletion_settled: "legacy_step d (settleDeletion i success err d)"

definition drift_ok :: "db \<Rightarrow> bool" where
  "drift_ok d \<longleftrightarrow> core_ok d \<and> used_slots_nonneg d \<and> egress_ok d"

lemma legacy_step_frame:
  assumes "legacy_step d d'" "core_ok d" "used_slots_nonneg d"
  shows "job_frame d d'"
  using assms(1) job_frame_refl [OF assms(2,3)] legacy_tryAssign_frame [OF assms(2,3)]
  by cases (simp_all add: applyWorkflowJob_frame claim_command_frame report_command_frame)

interpretation legacy: stable legacy_step drift_ok
proof
  fix d d' assume step: "legacy_step d d'" and ok: "drift_ok d"
  then have frame: "job_frame d d'" by (intro legacy_step_frame) (auto simp: drift_ok_def)
  then have "egress_ok d'" using ok by (simp add: job_frame_def same_attempts_def drift_ok_def egress_ok_def)
  then show "drift_ok d'" using job_frame_core [OF _ frame] ok by (simp add: drift_ok_def)
qed

text \<open>C2: The reconciler repairs whatever the legacy path leaves. From any reachable state, and after any
  sequence of legacy Job mutations, whose slot counts may drift, a reconciler run does not throw and leaves
  exact slot counts and the invariant of the tables, \<open>state_ok\<close>.\<close>

theorem legacy_drift_repaired:
  assumes "fleet_step\<^sup>*\<^sup>* empty_db d" "legacy_step\<^sup>*\<^sup>* d e"
  shows "\<exists>result e'. reconcile_run now e = Inr (result, e') \<and> state_ok e'"
proof -
  have "fleet_ok d" by (rule fleet.stable_steps [OF assms(1) empty_db_ok])
  then have "drift_ok d" by (auto simp: fleet_ok_def rest_ok_def drift_ok_def state_ok_core intro: used_slots_of_state)
  then have "drift_ok e" by (rule legacy.stable_steps [OF assms(2)])
  then show ?thesis by (auto simp: drift_ok_def intro: reconcile_run_ok)
qed

theorem legacy_drift_repaired_witness:
  "\<exists>e. legacy_step\<^sup>*\<^sup>* empty_db e \<and> length (d_runnerDeletions e) = 1 \<and>
     (\<exists>result e'. reconcile_run 2000 e = Inr (result, e') \<and> state_ok e')"
proof -
  let ?e = "enqueue 1000 ''o/r'' None 7 ''r'' empty_db"
  have step: "legacy_step\<^sup>*\<^sup>* empty_db ?e" using deletion_queued by blast
  have "length (d_runnerDeletions ?e) = 1" by code_simp
  with step legacy_drift_repaired [OF rtranclp.rtrancl_refl step, of 2000] show ?thesis by blast
qed

end
