(* ===== verification/Spec2Isabelle.thy ===== *)
theory Spec2Isabelle
  imports HostLabels ScaleSetLabels Retry Benchmark Egress Isolation Invariants Cpuset Lifecycle
begin

text \<open>
  \<^bold>\<open>The program.\<close> EraInfra runs GitHub Actions runners on a fleet of Worker hosts. The control plane is a
  set of Convex functions (\<open>packages/backend/convex\<close>) over one database. A \<^emph>\<open>Profile\<close> is a kind of runner; its
  \<^emph>\<open>Controller\<close> listens to a GitHub scale set and asks for \<^emph>\<open>Attempts\<close>, each of which is one ephemeral Runner.
  The scheduler places Attempts and \<^emph>\<open>Experiments\<close> on Workers that have proved they can isolate them; the
  Agent on the Worker claims the work and reports how it ended; a reconciler repairs, every minute, what
  crashed hosts and lost messages leave. A second, older path serves repositories without a scale set:
  \<open>workflow_job\<close> webhooks become \<^emph>\<open>Jobs\<close>, which a scheduler of their own places on the same Workers. Both
  paths count their work in \<open>usedSlots\<close> of the Worker, which is where they interact.

  \<^bold>\<open>How the code is translated.\<close> A table is an association list from ids to records in creation order
  (\<open>Convex_Table\<close>), the database a record of tables and the counter of fresh ids (\<open>Schema\<close>, from
  \<open>schema.ts\<close>). A mutation is a function from its arguments and the database to \<open>error + result \<times> db\<close>: a
  \<open>throw\<close> is \<open>Inl\<close>, and since Convex rolls a mutation back when it throws, the state of a failed mutation is
  the one before it. Mutations are serialised by Convex, so an execution is a sequence of them.
  \<open>Date.now()\<close> is an argument \<open>now\<close>, randomness a stream of bytes, \<open>localeCompare\<close> a function \<open>lc\<close> that the
  lemmas assume to be a total preorder (locale \<open>comparator\<close>), Docker a function from arguments to an exit code
  and an output, GitHub a record of functions. Validators of arguments
  are part of the types: an optional field is an \<open>option\<close>, an enumeration a \<open>datatype\<close>.

  \<^bold>\<open>Theories, bottom up.\<close>

  \<^item> \<open>Prelude\<close>: the JavaScript library the code uses (trimming, splitting, joining, sorting, numbers), results,
    and shared list lemmas. \<open>Convex_Table\<close>: tables, their laws as the locale \<open>doc_table\<close>. \<open>Refinement\<close>: the
    locales \<open>refinement\<close> (an implementation simulated by a specification) and \<open>stable\<close> (an invariant of a step
    relation).
  \<^item> Pure rules, each a theory for one file: \<open>HostLabels\<close>, \<open>ScaleSetLabels\<close>, \<open>Retry\<close>, \<open>Benchmark\<close>, \<open>Egress\<close>,
    \<open>Isolation\<close>, \<open>RunnerRelease\<close> (\<open>runnerReleaseModel.ts\<close>), \<open>Catalog\<close> (\<open>catalog.ts\<close>, \<open>policy.ts\<close>). Their
    lemmas are normal forms, idempotence, ranges, and when each decision is positive.
  \<^item> \<open>AttemptScheduler\<close> (\<open>attemptScheduler.ts\<close>): the snapshot \<open>tryAssign\<close> reads, placement by pressure and score,
    and the writes. Placements are sound, complete and least loaded, stay in the CPU, memory and slot envelope,
    and keep the slot accounting.
  \<^item> \<open>ControllerLiveness\<close>, \<open>AttemptRetirement\<close> (\<open>attemptRetirement.ts\<close>, \<open>attemptSecrets.ts\<close>,
    \<open>pinnedAttempts.ts\<close>), \<open>Invariants\<close> (\<open>state_ok\<close> and the frame lemmas of the preservation proofs).
  \<^item> \<open>ControllerLease\<close> (\<open>controllerLease.ts\<close>): leases with epochs. The locale \<open>fenced_lease\<close> carries the fencing
    argument; its interpretation on the mutations gives that a superseded Controller is never authorised again.
  \<^item> \<open>ControllerApi\<close> (\<open>controllerApi.ts\<close>) and \<open>WorkerApi\<close> (\<open>workerApi.ts\<close>, \<open>experiments.ts\<close>): the life of an
    Attempt, from creation to its end, and the races between a job and the retirement of its Runner.
  \<^item> \<open>LegacyJobs\<close> (\<open>scheduler.ts\<close>, \<open>agentApi.ts\<close>, \<open>runners.ts\<close>, \<open>jobs.ts\<close>), \<open>Webhooks\<close> (\<open>webhooks.ts\<close>) and
    \<open>Recovery\<close> (\<open>recovery.ts\<close>, \<open>github.ts\<close>): the webhook path. Deliveries are recorded and applied once, lost
    ones are asked for within a budget (locale \<open>recovery_budget\<close>, interpreted in \<open>Webhooks\<close>).
  \<^item> \<open>Reconcile\<close> (\<open>reconcile.ts\<close>): the whole run; it never throws and makes the slot counts exact from any
    counts that are not negative. \<open>Machines\<close> (\<open>machines.ts\<close>, \<open>admin.ts\<close>): joining, labels, removal.
  \<^item> \<open>Cpuset\<close> (\<open>apps/action-runner-agent/cpuset.ts\<close>): the allocator of the CPU cores of a Worker in the Agent. It refines
    exclusive ownership of cores, gives cores back on every way out, and accounts for what Docker reports.
  \<^item> \<open>Lifecycle\<close>: the composition. \<open>fleet_step\<close> is any mutation of the scale-set path with any arguments;
    \<open>reachable_ok\<close> says that the invariant holds in every state reachable from an empty deployment, and
    \<open>legacy_drift_repaired\<close> that the reconciler restores it after any mutations of the legacy path.
  \<^item> \<open>Fleet_Sample\<close>: a small fleet on which the witnesses evaluate the model.

  \<^bold>\<open>The invariant.\<close> \<open>state_ok\<close>: ids are unique and below the counter; \<open>usedSlots\<close> of a Worker is the number of
  Attempts, Experiments and Jobs that hold a slot on it; an Attempt has the fields its state needs, and a
  retiring one a Worker and a pending clean-up; Runner names are unique; a secret belongs to one Attempt that is
  not over; Profile names are unique. \<open>core_ok\<close> is \<open>state_ok\<close> without the slot accounting, which is what the
  legacy path keeps; \<open>tokens_ok\<close>, \<open>egress_ok\<close>, \<open>leases_ok\<close> and \<open>refs_ok\<close> are about the tables of their names.

  \<^bold>\<open>Loops and bounds.\<close> All definitions are total by structural or measured recursion, with one exception: the
  search for a free random name or token is \<open>partial_function (option)\<close>, and \<open>registerAgent_returns\<close> shows that it
  ends when the random source does not repeat itself within as many draws as there are Workers, plus one. Pages
  of \<open>take(n)\<close> and \<open>slice\<close> keep the bounds of the code.

  \<^bold>\<open>Numbers.\<close> Times, counts and sizes are \<open>int\<close> or \<open>nat\<close>; JavaScript's numbers are exact on them below
  \<open>2 ^ 53\<close>, and where a report may hold any number the model has \<open>NaN\<close>, infinities and fractions as values
  of a type. Quotients are exact rationals. For the comparison of pressures this agrees with
  double precision while the capacities are below \<open>2 ^ 26\<close>; \<open>floor(n * 0.9)\<close> is \<open>n * 9 div 10\<close>, exact for
  \<open>n\<close> below five million; the slots recommended from a benchmark
  agree for up to 39 slots. A Worker that reported its CPUs and memory starts from at most 16; one that did not
  starts from the slots it has, and above 39 a few pairs of slots and score, such as 40 and 70, round to one slot
  apart. Strings are Latin-1; an error message that quotes a number is cut before it.

  \<^bold>\<open>Not modelled.\<close> HTTP routing and parsing (\<open>http.ts\<close>, \<open>controllerHttp.ts\<close>, \<open>operatorHttp.ts\<close>), accounts and
  sign-in, install scripts, metrics, alerts, test reports and right-sizing (no scheduling decision reads them),
  the preview of label routing, the hosting of applications under \<open>infra/\<close> (tables of its own, apart from the fleet),
  the processes and probes of the Agent beside its core allocator, the parsing of GitHub's page cursor, the
  user interfaces, and the programs in Go. They are outside the state the modelled mutations
  share, or are input and output around them.
\<close>

end
